(* ===== verification/Hush_Prelude.thy ===== *)
theory Hush_Prelude
  imports Main "HOL-Library.Word" "HOL-Library.AList"
begin

unbundle bit_operations_syntax

text \<open>
  Shared ground of the Hush development: the machine types of Go, results with Go's three
  ways to leave a function (a value, an error, a panic), the fixed-width and varint integer
  encodings of Go's \<^verbatim>\<open>encoding/binary\<close>, strings as byte sequences, Go's maps and Go's
  durations. Everything here models the language and its standard library, so that the
  component theories can be read beside the Go sources.
\<close>

section \<open>Types\<close>

type_synonym byte = "8 word"
type_synonym bytes = "byte list"
type_synonym u16 = "16 word"
type_synonym u32 = "32 word"
type_synonym u64 = "64 word"

named_theorems hush_defs \<open>definitions of the model that simplification unfolds on request\<close>
named_theorems go_simps \<open>laws of the Go library functions\<close>

section \<open>Results: values, errors, panics\<close>

text \<open>
  A Go function that returns \<^verbatim>\<open>(T, error)\<close> ends in one of three ways. \<open>Err\<close> is a non-nil
  error and the zero value; \<open>Panic\<close> is a run-time panic that unwinds the stack.
\<close>

datatype panic =
    PanicTypeAssertion  \<comment> \<open>\<^verbatim>\<open>v.data.(T)\<close> on another dynamic type\<close>
  | PanicSliceBounds    \<comment> \<open>slice bounds out of range\<close>
  | PanicNilDeref       \<comment> \<open>nil pointer dereference\<close>
  | PanicMustEncode     \<comment> \<open>\<^verbatim>\<open>panic(err)\<close> in a Must function\<close>
  | PanicMustDecode
  | PanicCloseClosed    \<comment> \<open>close of a closed channel\<close>
  | PanicTicker         \<comment> \<open>\<^verbatim>\<open>time.NewTicker\<close> with an interval that is not positive\<close>
  | PanicUser nat       \<comment> \<open>a panic raised by application code\<close>

datatype ('e, 'a) result = Ok 'a | Err 'e | Panic panic

fun rbind :: "('e, 'a) result \<Rightarrow> ('a \<Rightarrow> ('e, 'b) result) \<Rightarrow> ('e, 'b) result" where
  "rbind (Ok x) f = f x"
| "rbind (Err e) f = Err e"
| "rbind (Panic p) f = Panic p"

text \<open>Wrapping an error (\<^verbatim>\<open>fmt.Errorf("...: %w", err)\<close>) leaves values and panics alone.\<close>

fun map_err :: "('e \<Rightarrow> 'f) \<Rightarrow> ('e, 'a) result \<Rightarrow> ('f, 'a) result" where
  "map_err g (Ok x) = Ok x"
| "map_err g (Err e) = Err (g e)"
| "map_err g (Panic p) = Panic p"

fun is_panic :: "('e, 'a) result \<Rightarrow> bool" where
  "is_panic (Panic p) = True"
| "is_panic r = False"

lemma rbind_cong [fundef_cong]:
  assumes "m = m'" and "\<And>x. m' = Ok x \<Longrightarrow> f x = f' x"
  shows "rbind m f = rbind m' f'"
  using assms by (cases m') auto

lemma rbind_assoc: "rbind (rbind m f) g = rbind m (\<lambda>x. rbind (f x) g)"
  by (cases m) auto

lemma rbind_eq_Ok_iff [simp]: "rbind m f = Ok y \<longleftrightarrow> (\<exists>x. m = Ok x \<and> f x = Ok y)"
  by (cases m) auto

lemma rbind_eq_Panic_iff [simp]:
  "rbind m f = Panic p \<longleftrightarrow> m = Panic p \<or> (\<exists>x. m = Ok x \<and> f x = Panic p)"
  by (cases m) auto

lemma map_err_eq_Ok_iff [simp]: "map_err g m = Ok y \<longleftrightarrow> m = Ok y"
  by (cases m) auto

lemma map_err_eq_Panic_iff [simp]: "map_err g m = Panic p \<longleftrightarrow> m = Panic p"
  by (cases m) auto

lemma map_err_eq_Err_iff [simp]: "map_err g m = Err y \<longleftrightarrow> (\<exists>e. m = Err e \<and> y = g e)"
  by (cases m) auto

lemma is_panic_iff: "is_panic m \<longleftrightarrow> (\<exists>p. m = Panic p)"
  by (cases m) auto

lemma is_panic_rbind [simp]:
  "is_panic (rbind m f) \<longleftrightarrow> is_panic m \<or> (\<exists>x. m = Ok x \<and> is_panic (f x))"
  by (cases m) auto

lemma is_panic_map_err [simp]: "is_panic (map_err g m) = is_panic m"
  by (cases m) auto

section \<open>Strings\<close>

text \<open>
  A Go string is an immutable byte sequence; HOL's \<open>string\<close> is a list of 8-bit characters.
  \<^verbatim>\<open>[]byte(s)\<close> and \<^verbatim>\<open>string(b)\<close> convert element by element.
\<close>

definition bytes_of_string :: "string \<Rightarrow> bytes" where
  "bytes_of_string s = map of_char s"

definition string_of_bytes :: "bytes \<Rightarrow> string" where
  "string_of_bytes b = map (\<lambda>x. char_of (unat x)) b"

lemma of_char_char_of_byte [simp]: "of_char (char_of (unat (b :: byte))) = b"
proof -
  have "(of_char (char_of (unat b)) :: byte) = of_nat (of_char (char_of (unat b)) :: nat)"
    by (simp only: of_nat_of_char)
  also have "\<dots> = of_nat (unat b mod 256)"
    by (simp only: of_char_of)
  also have "\<dots> = b"
    using unsigned_less [where 'a = nat and w = b] by simp
  finally show ?thesis .
qed

lemma char_of_unat_of_char [simp]: "char_of (unat (of_char c :: byte)) = c"
proof -
  have "(of_char c :: byte) = of_nat (of_char c :: nat)"
    by (simp only: of_nat_of_char)
  then have "unat (of_char c :: byte) = (of_char c :: nat) mod 256"
    by (simp add: unsigned_of_nat take_bit_eq_mod)
  then show ?thesis by simp
qed

lemma string_of_bytes_of_string [simp]: "string_of_bytes (bytes_of_string s) = s"
  by (simp add: string_of_bytes_def bytes_of_string_def comp_def)

lemma bytes_of_string_of_bytes [simp]: "bytes_of_string (string_of_bytes b) = b"
  by (simp add: string_of_bytes_def bytes_of_string_def comp_def)

lemma length_bytes_of_string [simp]: "length (bytes_of_string s) = length s"
  by (simp add: bytes_of_string_def)

lemma length_string_of_bytes [simp]: "length (string_of_bytes b) = length b"
  by (simp add: string_of_bytes_def)

lemma bytes_of_string_inject [simp]: "bytes_of_string s = bytes_of_string t \<longleftrightarrow> s = t"
  by (metis string_of_bytes_of_string)

text \<open>The digits of \<^verbatim>\<open>%02x\<close>, and \<^verbatim>\<open>%x\<close> of a byte slice.\<close>

definition hex_digit :: "nat \<Rightarrow> char" where
  "hex_digit n = ''0123456789abcdef'' ! n"

definition hex_byte :: "byte \<Rightarrow> string" where
  "hex_byte b = [hex_digit (unat b div 16), hex_digit (unat b mod 16)]"

definition hex_bytes :: "bytes \<Rightarrow> string" where
  "hex_bytes b = concat (map hex_byte b)"

lemma length_hex_bytes [simp]: "length (hex_bytes b) = 2 * length b"
  by (induction b) (simp_all add: hex_bytes_def hex_byte_def)

lemma hex_digit_inject: "m < 16 \<Longrightarrow> n < 16 \<Longrightarrow> hex_digit m = hex_digit n \<Longrightarrow> m = n"
proof -
  have "distinct ''0123456789abcdef''" by simp
  moreover assume "m < 16" "n < 16" "hex_digit m = hex_digit n"
  ultimately show "m = n"
    unfolding hex_digit_def by (subst (asm) nth_eq_iff_index_eq) simp_all
qed

lemma hex_byte_inject [simp]: "hex_byte a = hex_byte b \<longleftrightarrow> a = b"
proof
  assume h: "hex_byte a = hex_byte b"
  have "unat a < 256" "unat b < 256"
    using unsigned_less [where 'a = nat and w = a] unsigned_less [where 'a = nat and w = b] by simp_all
  with h have "unat a div 16 = unat b div 16" "unat a mod 16 = unat b mod 16"
    by (auto simp: hex_byte_def intro: hex_digit_inject)
  then have "unat a = unat b" by (metis div_mult_mod_eq)
  then show "a = b" by (simp add: word_unat_eq_iff)
qed simp

lemma hex_bytes_inject: "hex_bytes a = hex_bytes b \<longleftrightarrow> a = b"
proof (induction a arbitrary: b)
  case Nil
  show ?case by (cases b) (simp_all add: hex_bytes_def hex_byte_def)
next
  case (Cons x a)
  show ?case
  proof (cases b)
    case (Cons y c)
    have "length (hex_byte x) = length (hex_byte y)" by (simp add: hex_byte_def)
    then show ?thesis using Cons Cons.IH [of c] by (simp add: hex_bytes_def)
  qed (simp add: hex_bytes_def hex_byte_def)
qed

text \<open>Decimal notation, as \<^verbatim>\<open>%d\<close> and \<^verbatim>\<open>fmt.Sprint\<close> print unsigned integers.\<close>

fun dec :: "nat \<Rightarrow> string" where
  "dec n = (if n < 10 then [hex_digit n] else dec (n div 10) @ [hex_digit (n mod 10)])"

declare dec.simps [simp del]

lemma dec_not_Nil [simp]: "dec n \<noteq> []" "[] \<noteq> dec n"
  by (subst dec.simps, simp)+

lemma dec_inject [simp]: "dec m = dec n \<longleftrightarrow> m = n"
proof
  show "dec m = dec n \<Longrightarrow> m = n"
  proof (induction m arbitrary: n rule: dec.induct)
    case (1 m)
    show ?case
    proof (cases "m < 10"; cases "n < 10")
      assume "\<not> m < 10" "\<not> n < 10"
      with 1 have "m div 10 = n div 10" "hex_digit (m mod 10) = hex_digit (n mod 10)"
        by (simp_all add: dec.simps [of m] dec.simps [of n])
      moreover from this have "m mod 10 = n mod 10"
        by (intro hex_digit_inject [of "m mod 10" "n mod 10"]) (simp_all add: order_less_trans [of _ 10])
      ultimately show ?thesis by (metis div_mult_mod_eq)
    qed (use 1 in \<open>simp_all add: dec.simps [of m] dec.simps [of n] hex_digit_inject\<close>)
  qed
qed simp

section \<open>Big-endian integers\<close>

text \<open>
  \<^verbatim>\<open>binary.BigEndian.PutUint16/32/64\<close> write the most significant byte first;
  \<^verbatim>\<open>Uint16/32/64\<close> read it back. \<open>put_be n\<close> writes the low \<open>n\<close> bytes of a word.
\<close>

fun put_be :: "nat \<Rightarrow> 'a::len word \<Rightarrow> bytes" where
  "put_be 0 w = []"
| "put_be (Suc n) w = put_be n (drop_bit 8 w) @ [ucast w]"

definition get_be :: "bytes \<Rightarrow> 'a::len word" where
  "get_be bs = foldl (\<lambda>acc b. push_bit 8 acc OR ucast b) 0 bs"

lemma get_be_Nil [simp]: "get_be [] = 0"
  by (simp add: get_be_def)

lemma get_be_snoc: "get_be (bs @ [b]) = push_bit 8 (get_be bs) OR ucast b"
  by (simp add: get_be_def)

lemma length_put_be [simp]: "length (put_be n w) = n"
  by (induction n arbitrary: w) auto

lemma get_be_put_be: "get_be (put_be n w) = take_bit (8 * n) w"
proof (induction n arbitrary: w)
  case 0
  then show ?case by simp
next
  case (Suc n)
  have "push_bit 8 (take_bit (8 * n) (drop_bit 8 w)) OR ucast (ucast w :: byte)
    = take_bit (8 * Suc n) w"
    by (rule bit_word_eqI) (auto simp: bit_simps)
  then show ?case by (simp add: get_be_snoc Suc.IH)
qed

lemma bit_get_be_less: "bit (get_be bs) k \<Longrightarrow> k < 8 * length bs"
proof (induction bs arbitrary: k rule: rev_induct)
  case Nil
  then show ?case by simp
next
  case (snoc b bs)
  then show ?case
    by (fastforce simp: get_be_snoc bit_simps dest: bit_imp_le_length)
qed

lemma put_be_get_be:
  "8 * length bs \<le> LENGTH('a::len) \<Longrightarrow> put_be (length bs) (get_be bs :: 'a word) = bs"
proof (induction bs rule: rev_induct)
  case Nil
  then show ?case by simp
next
  case (snoc b bs)
  let ?w = "get_be bs :: 'a word"
  have "drop_bit 8 (push_bit 8 ?w OR ucast b) = ?w"
    using snoc.prems
    by (intro bit_word_eqI) (auto simp: bit_simps dest: bit_imp_le_length bit_get_be_less)
  moreover have "ucast (push_bit 8 ?w OR ucast b) = b"
    using snoc.prems by (intro bit_word_eqI) (auto simp: bit_simps)
  ultimately show ?case
    using snoc by (simp add: get_be_snoc)
qed

text \<open>
  What the wire formats need of a fixed-width field: a known width, and that reading and
  writing are inverse. Frames and handshake messages are proved over this contract.
\<close>

locale wire_int =
  fixes put :: "'v \<Rightarrow> bytes" and get :: "bytes \<Rightarrow> 'v" and width :: nat
  assumes length_put: "length (put x) = width"
    and get_put: "get (put x) = x"
    and put_get: "length bs = width \<Longrightarrow> put (get bs) = bs"
begin

lemma take_put [simp]: "take width (put x @ rest) = put x"
  by (simp add: length_put)

lemma drop_put [simp]: "drop width (put x @ rest) = rest"
  by (simp add: length_put)

lemma get_take_put: "get (take width (put x @ rest)) = x"
  by (simp only: take_put get_put)

lemma put_inject: "put x = put y \<longleftrightarrow> x = y"
  by (metis get_put)

lemma put_append_inject: "put x @ r = put y @ s \<longleftrightarrow> x = y \<and> r = s"
  by (metis drop_put get_take_put)

lemma put_get_take:
  "width \<le> length bs \<Longrightarrow> put (get (take width bs)) @ drop width bs = bs"
  by (simp add: put_get)

end

lemma wire_int_be:
  assumes "LENGTH('a::len) = 8 * n"
  shows "wire_int (put_be n :: 'a word \<Rightarrow> bytes) get_be n"
proof
  show "get_be (put_be n w) = w" for w :: "'a word"
    unfolding get_be_put_be assms [symmetric] by (rule take_bit_word_eq_self) simp
  show "put_be n (get_be bs :: 'a word) = bs" if "length bs = n" for bs
    using put_be_get_be [of bs, where 'a = 'a] that assms by simp
qed simp

interpretation be16: wire_int "put_be 2 :: u16 \<Rightarrow> bytes" get_be 2
  by (rule wire_int_be) simp

interpretation be32: wire_int "put_be 4 :: u32 \<Rightarrow> bytes" get_be 4
  by (rule wire_int_be) simp

interpretation be64: wire_int "put_be 8 :: u64 \<Rightarrow> bytes" get_be 8
  by (rule wire_int_be) simp

lemmas be_wire [go_simps] = be16.get_put be32.get_put be64.get_put

section \<open>Varints\<close>

text \<open>
  \<^verbatim>\<open>binary.PutUvarint\<close>: seven bits per byte, least significant group first, the high bit
  set on every byte but the last.
\<close>

function put_uvarint :: "u64 \<Rightarrow> bytes" where
  "put_uvarint x =
     (if x < 0x80 then [ucast x] else (ucast x OR 0x80) # put_uvarint (drop_bit 7 x))"
  by pat_completeness auto
termination
proof (relation "measure unat")
  fix x :: u64
  assume "\<not> x < 0x80"
  then have "unat x \<ge> 128"
    by (simp add: word_less_nat_alt)
  moreover have "unat (drop_bit 7 x) = unat x div 128"
    by (simp only: unat_drop_bit_eq) (simp add: drop_bit_eq_div)
  ultimately show "(drop_bit 7 x, x) \<in> measure unat"
    by simp
qed simp

declare put_uvarint.simps [simp del]

text \<open>
  \<^verbatim>\<open>binary.Uvarint\<close>: the value and the number of bytes read; the count is 0 when the buffer
  is too small and negative on overflow. \<open>i\<close> is the loop index, \<open>x\<close> and \<open>s\<close> the
  accumulator and the shift of the Go loop.
\<close>

fun uvarint_loop :: "nat \<Rightarrow> u64 \<Rightarrow> nat \<Rightarrow> bytes \<Rightarrow> u64 \<times> int" where
  "uvarint_loop i x s [] = (0, 0)"
| "uvarint_loop i x s (b # bs) =
     (if i = 10 then (0, - (int i + 1))
      else if b < 0x80 then
        (if i = 9 \<and> b > 1 then (0, - (int i + 1))
         else (x OR push_bit s (ucast b), int i + 1))
      else uvarint_loop (Suc i) (x OR push_bit s (ucast (b AND 0x7F))) (s + 7) bs)"

definition uvarint :: "bytes \<Rightarrow> u64 \<times> int" where
  "uvarint bs = uvarint_loop 0 0 0 bs"

lemma take_bit_eq_self_unat: "unat (w :: 'a::len word) < 2 ^ n \<Longrightarrow> take_bit n w = w"
  using word_unat_eq_iff [of "take_bit n w" w] by (simp add: unsigned_take_bit_eq take_bit_nat_eq_self)

lemma bit_0x7F [simp]: "bit (0x7F :: 'a::len word) k \<longleftrightarrow> k < 7 \<and> k < LENGTH('a)"
proof -
  have eq: "(0x7F :: 'a word) = mask 7"
    by (simp add: mask_eq_exp_minus_1)
  show ?thesis
    unfolding eq bit_mask_iff possible_bit_word by auto
qed

lemma bit_0x80 [simp]: "bit (0x80 :: 'a::len word) k \<longleftrightarrow> k = 7 \<and> k < LENGTH('a)"
proof -
  have eq: "(0x80 :: 'a word) = push_bit 7 1"
    by simp
  show ?thesis
    unfolding eq bit_push_bit_iff bit_1_iff possible_bit_word by auto
qed

lemma byte_less_0x80_bit: "(b :: byte) < 0x80 \<Longrightarrow> \<not> bit b 7"
proof -
  assume "b < 0x80"
  then have "take_bit 7 b = b"
    by (intro take_bit_eq_self_unat) (simp add: word_less_nat_alt)
  then show ?thesis
    by (metis bit_take_bit_iff less_irrefl)
qed

lemma ucast_ucast_byte: "(y :: u64) < 0x80 \<Longrightarrow> ucast (ucast y :: byte) = y"
proof -
  assume "y < 0x80"
  then have "take_bit 7 y = y"
    by (intro take_bit_eq_self_unat) (simp add: word_less_nat_alt)
  then have "bit y k \<Longrightarrow> k < 7" for k
    by (metis bit_take_bit_iff)
  then show ?thesis
    by (intro bit_word_eqI) (fastforce simp: bit_simps)
qed

lemma varint_byte_ge: "\<not> (ucast (y :: u64) OR 0x80 :: byte) < 0x80"
  by (auto dest!: byte_less_0x80_bit simp: bit_simps)

lemma varint_group:
  "(acc OR push_bit s (ucast ((ucast (y :: u64) OR 0x80 :: byte) AND 0x7F))) OR push_bit (s + 7) (drop_bit 7 y)
     = acc OR push_bit s y"
proof (rule bit_word_eqI)
  fix n assume n: "n < LENGTH(64)"
  have "7 + (n - (s + 7)) = n - s" if "s + 7 \<le> n"
    using that by simp
  then show "bit ((acc OR push_bit s (ucast ((ucast y OR 0x80 :: byte) AND 0x7F))) OR push_bit (s + 7) (drop_bit 7 y)) n
     = bit (acc OR push_bit s y) n"
    unfolding bit_or_iff bit_and_iff bit_push_bit_iff bit_drop_bit_eq bit_unsigned_iff comp_def
      bit_0x7F bit_0x80 possible_bit_word
    using n by (cases "s + 7 \<le> n") auto
qed

lemma uvarint_loop_put:
  "i \<le> 9 \<Longrightarrow> unat y < 2 ^ (64 - 7 * i) \<Longrightarrow>
   uvarint_loop i acc (7 * i) (put_uvarint y @ r) =
     (acc OR push_bit (7 * i) y, int (i + length (put_uvarint y)))"
proof (induction y arbitrary: i acc rule: put_uvarint.induct)
  case (1 y)
  show ?case
  proof (cases "y < 0x80")
    case True
    have "ucast y < (0x80 :: byte)"
      using True by (simp add: word_less_nat_alt unsigned_ucast_eq take_bit_nat_eq_self)
    moreover have "\<not> (1 :: byte) < ucast y" if "i = 9"
      using "1.prems" that by (simp add: word_less_nat_alt unsigned_ucast_eq take_bit_nat_eq_self)
    ultimately show ?thesis
      using True "1.prems" by (simp add: put_uvarint.simps [of y] ucast_ucast_byte)
  next
    case False
    then have ge: "128 \<le> unat y"
      by (simp add: word_less_nat_alt)
    have le: "Suc i \<le> 9"
    proof (rule ccontr)
      assume "\<not> Suc i \<le> 9"
      with "1.prems" have "i = 9" by simp
      with "1.prems" ge show False by simp
    qed
    have "unat (drop_bit 7 y) < 2 ^ (64 - 7 * Suc i)"
    proof -
      have eq: "64 - 7 * i = (64 - 7 * Suc i) + 7" using le by simp
      have "unat y < 2 ^ (64 - 7 * Suc i) * 2 ^ 7"
        using "1.prems"(2) unfolding eq power_add .
      then show ?thesis
        by (simp only: unat_drop_bit_eq) (simp only: drop_bit_eq_div less_mult_imp_div_less)
    qed
    from "1.IH" [OF False le this]
    have IH: "uvarint_loop (Suc i) a (7 * i + 7) (put_uvarint (drop_bit 7 y) @ r) =
      (a OR push_bit (7 * i + 7) (drop_bit 7 y),
       int (Suc i + length (put_uvarint (drop_bit 7 y))))" for a
      by (simp add: add.commute)
    have "i \<noteq> 10" using le by simp
    then show ?thesis
      using False
      by (simp only: put_uvarint.simps [of y] if_False append_Cons uvarint_loop.simps
          varint_byte_ge IH varint_group list.size of_nat_Suc of_nat_add) simp
  qed
qed

lemma uvarint_put_uvarint [go_simps]:
  "uvarint (put_uvarint x @ r) = (x, int (length (put_uvarint x)))"
  using uvarint_loop_put [of 0 x 0 r] unsigned_less [where 'a = nat and w = x]
  by (simp add: uvarint_def)

lemma put_uvarint_not_Nil [simp]: "put_uvarint x \<noteq> []"
  by (simp add: put_uvarint.simps [of x])

lemma length_put_uvarint_le:
  "length (put_uvarint x) \<le> Suc k \<longleftrightarrow> unat x < 2 ^ (7 * Suc k)"
proof (induction x arbitrary: k rule: put_uvarint.induct)
  case (1 x)
  have d: "unat (drop_bit 7 x) = unat x div 2 ^ 7"
    by (simp only: unat_drop_bit_eq) (simp only: drop_bit_eq_div)
  show ?case
  proof (cases "x < 0x80")
    case True
    then have "unat x < 2 ^ 7"
      by (simp add: word_less_nat_alt)
    also have "(2 :: nat) ^ 7 \<le> 2 ^ (7 * Suc k)"
      by (rule power_increasing) simp_all
    finally show ?thesis
      using True by (simp add: put_uvarint.simps [of x])
  next
    case False
    then have ge: "2 ^ 7 \<le> unat x"
      by (simp add: word_less_nat_alt)
    show ?thesis
    proof (cases k)
      case 0
      then show ?thesis
        using False ge by (simp add: put_uvarint.simps [of x])
    next
      case (Suc j)
      have e: "7 * Suc (Suc j) = 7 * Suc j + 7" by simp
      have "length (put_uvarint x) \<le> Suc (Suc j) \<longleftrightarrow> unat x div 2 ^ 7 < 2 ^ (7 * Suc j)"
        using False "1.IH" [OF False, of j] by (simp only: put_uvarint.simps [of x] d) simp
      also have "\<dots> \<longleftrightarrow> unat x < 2 ^ (7 * Suc (Suc j))"
        unfolding e power_add by (simp only: div_less_iff_less_mult zero_less_power zero_less_numeral)
      finally show ?thesis using Suc by simp
    qed
  qed
qed

lemma uvarint_loop_count:
  "uvarint_loop i x s bs = (y, n) \<Longrightarrow> 0 < n \<Longrightarrow> i \<le> 10 \<Longrightarrow>
   int i < n \<and> n \<le> int i + int (length bs) \<and> n \<le> 10"
proof (induction i x s bs rule: uvarint_loop.induct)
  case (2 i x s b bs)
  then show ?case
    by (cases "b < 0x80"; cases "i = 10") (force split: if_splits)+
qed simp

lemma take_bit_varint_step:
  assumes "take_bit s x = (x :: u64)" and "\<And>k. bit b k \<Longrightarrow> k < 7"
  shows "take_bit (s + 7) (x OR push_bit s (ucast (b :: byte))) = x OR push_bit s (ucast b)"
proof (rule bit_word_eqI)
  fix n assume "n < LENGTH(64)"
  have "bit x n \<Longrightarrow> n < s"
    using assms(1) by (metis bit_take_bit_iff)
  then show "bit (take_bit (s + 7) (x OR push_bit s (ucast b))) n = bit (x OR push_bit s (ucast b)) n"
    by (auto simp: bit_simps dest: assms(2))
qed

lemma uvarint_loop_value:
  "uvarint_loop i x (7 * i) bs = (y, n) \<Longrightarrow> 0 < n \<Longrightarrow> take_bit (7 * i) x = x \<Longrightarrow>
   take_bit (7 * nat n) y = y"
proof (induction i x "7 * i" bs rule: uvarint_loop.induct)
  case (2 i x b bs)
  show ?case
  proof (cases "b < 0x80")
    case True
    then have "bit b k \<Longrightarrow> k < 7" for k
      using byte_less_0x80_bit [of b] bit_imp_le_length [of b k] by (cases "k = 7") auto
    then have "take_bit (7 * i + 7) (x OR push_bit (7 * i) (ucast b)) = x OR push_bit (7 * i) (ucast b)"
      by (intro take_bit_varint_step 2)
    then show ?thesis
      using 2 True by (auto split: if_splits simp: nat_add_distrib add.commute)
  next
    case False
    let ?x = "x OR push_bit (7 * i) (ucast (b AND 0x7F))"
    have "take_bit (7 * i + 7) ?x = ?x"
      by (intro take_bit_varint_step 2) (simp only: bit_and_iff bit_0x7F)
    then show ?thesis
      using 2 False by (auto split: if_splits simp: add.commute)
  qed
qed simp

lemma uvarint_bounds:
  assumes "uvarint bs = (x, n)" and "0 < n"
  shows "n \<le> int (length bs)" and "n \<le> 10" and "int (length (put_uvarint x)) \<le> n"
proof -
  show "n \<le> int (length bs)" and "n \<le> 10"
    using uvarint_loop_count [of 0 0 0 bs x n] assms by (auto simp: uvarint_def)
  have "take_bit (7 * nat n) x = x"
    using uvarint_loop_value [of 0 0 bs x n] assms by (simp add: uvarint_def)
  then have "unat x = take_bit (7 * nat n) (unat x)"
    by (metis unsigned_take_bit_eq)
  then have "unat x < 2 ^ (7 * nat n)"
    by (metis take_bit_nat_less_exp)
  moreover obtain k where "nat n = Suc k"
    using assms(2) by (metis Suc_pred zero_less_nat_eq)
  ultimately have "length (put_uvarint x) \<le> nat n"
    using length_put_uvarint_le [of x k] by simp
  then show "int (length (put_uvarint x)) \<le> n"
    using assms(2) by linarith
qed

section \<open>Go maps\<close>

text \<open>
  A Go map is an association list with distinct keys. The iteration order of a Go map is
  unspecified, so no operation of the model whose result is used depends on the list order
  beyond a permutation.
\<close>

type_synonym ('k, 'v) gomap = "('k \<times> 'v) list"

definition gm_inv :: "('k, 'v) gomap \<Rightarrow> bool" where
  "gm_inv m \<longleftrightarrow> distinct (map fst m)"

definition gm_get :: "('k, 'v) gomap \<Rightarrow> 'k \<Rightarrow> 'v option" where
  "gm_get m k = map_of m k"

definition gm_set :: "'k \<Rightarrow> 'v \<Rightarrow> ('k, 'v) gomap \<Rightarrow> ('k, 'v) gomap" where
  "gm_set k v m = AList.update k v m"

definition gm_delete :: "'k \<Rightarrow> ('k, 'v) gomap \<Rightarrow> ('k, 'v) gomap" where
  "gm_delete k m = AList.delete k m"

text \<open>\<^verbatim>\<open>for k, v := range m { if p(k, v) { delete(m, k) } }\<close>\<close>

definition gm_prune :: "('k \<Rightarrow> 'v \<Rightarrow> bool) \<Rightarrow> ('k, 'v) gomap \<Rightarrow> ('k, 'v) gomap" where
  "gm_prune p m = filter (\<lambda>(k, v). \<not> p k v) m"

definition gm_len :: "('k, 'v) gomap \<Rightarrow> nat" where
  "gm_len m = length m"

lemmas gm_defs [hush_defs] = gm_inv_def gm_get_def gm_set_def gm_delete_def gm_prune_def gm_len_def

lemma gm_get_Nil [simp]: "gm_get [] k = None"
  by (simp add: gm_get_def)

lemma gm_inv_Nil [simp]: "gm_inv []"
  by (simp add: gm_inv_def)

lemma map_of_filter_distinct:
  "distinct (map fst m) \<Longrightarrow>
   map_of (filter (\<lambda>(k, v). q k v) m) k =
     (case map_of m k of None \<Rightarrow> None | Some v \<Rightarrow> if q k v then Some v else None)"
proof (induction m)
  case (Cons kv m)
  obtain a b where kv: "kv = (a, b)" by (cases kv)
  have "map_of (filter (\<lambda>(k, v). q k v) m) a = None" if "a \<notin> fst ` set m"
    using that by (force simp: map_of_eq_None_iff)
  with Cons kv show ?case by (auto split: option.splits)
qed simp

text \<open>
  The contract every keyed store of the program offers its callers (the session store, the
  media token store, the limiter's table): lookups follow inserts, deletes and sweeps, and
  the size counts the keys.
\<close>

locale keyed_store =
  fixes inv :: "'s \<Rightarrow> bool" and get :: "'s \<Rightarrow> 'k \<Rightarrow> 'v option"
    and put :: "'k \<Rightarrow> 'v \<Rightarrow> 's \<Rightarrow> 's" and del :: "'k \<Rightarrow> 's \<Rightarrow> 's"
    and prune :: "('k \<Rightarrow> 'v \<Rightarrow> bool) \<Rightarrow> 's \<Rightarrow> 's" and size_of :: "'s \<Rightarrow> nat"
  assumes inv_put: "inv s \<Longrightarrow> inv (put k v s)"
    and inv_del: "inv s \<Longrightarrow> inv (del k s)"
    and inv_prune: "inv s \<Longrightarrow> inv (prune p s)"
    and get_put: "get (put k v s) = (get s)(k \<mapsto> v)"
    and get_del: "get (del k s) = (get s)(k := None)"
    and get_prune: "inv s \<Longrightarrow> get (prune p s) k =
          (case get s k of None \<Rightarrow> None | Some v \<Rightarrow> if p k v then None else Some v)"
    and size_of_card: "inv s \<Longrightarrow> size_of s = card (dom (get s))"
    and finite_dom: "finite (dom (get s))"
begin

lemma get_put_same [simp]: "get (put k v s) k = Some v"
  by (simp add: get_put)

lemma get_put_other: "k \<noteq> j \<Longrightarrow> get (put k v s) j = get s j"
  by (simp add: get_put)

lemma get_del_same [simp]: "get (del k s) k = None"
  by (simp add: get_del)

lemma get_prune_None: "inv s \<Longrightarrow> get s k = None \<Longrightarrow> get (prune p s) k = None"
  by (simp add: get_prune)

lemma get_prune_keep: "inv s \<Longrightarrow> get s k = Some v \<Longrightarrow> \<not> p k v \<Longrightarrow> get (prune p s) k = Some v"
  by (simp add: get_prune)

lemma get_prune_Some_iff:
  "inv s \<Longrightarrow> get (prune p s) k = Some v \<longleftrightarrow> get s k = Some v \<and> \<not> p k v"
  by (auto simp: get_prune split: option.splits if_splits)

lemma size_prune_le: "inv s \<Longrightarrow> size_of (prune p s) \<le> size_of s"
  by (auto simp: size_of_card inv_prune finite_dom get_prune intro!: card_mono split: option.splits if_splits)

lemma size_put_new: "inv s \<Longrightarrow> get s k = None \<Longrightarrow> size_of (put k v s) = Suc (size_of s)"
  by (simp add: size_of_card inv_put get_put finite_dom card_insert_disjoint domIff)

lemma size_put_old: "inv s \<Longrightarrow> get s k = Some w \<Longrightarrow> size_of (put k v s) = size_of s"
  by (simp add: size_of_card inv_put get_put insert_absorb domIff)

lemma size_del: "inv s \<Longrightarrow> get s k = Some w \<Longrightarrow> Suc (size_of (del k s)) = size_of s"
  using card_Suc_Diff1 [OF finite_dom [of s], of k]
  by (simp only: size_of_card inv_del get_del dom_fun_upd simp_thms if_True) blast

end

lemma gm_len_card: "gm_inv m \<Longrightarrow> gm_len m = card (dom (gm_get m))"
proof -
  assume "gm_inv m"
  then have "card (set (map fst m)) = length (map fst m)"
    unfolding gm_inv_def by (rule distinct_card)
  moreover have "gm_get m = map_of m"
    by (simp add: fun_eq_iff gm_get_def)
  ultimately show ?thesis
    by (simp add: gm_len_def dom_map_of_conv_image_fst)
qed

interpretation gm: keyed_store gm_inv gm_get gm_set gm_delete gm_prune gm_len
proof
  fix m :: "('k, 'v) gomap" and k :: 'k and v :: 'v and p :: "'k \<Rightarrow> 'v \<Rightarrow> bool"
  show "gm_inv (gm_set k v m)" if "gm_inv m"
    using that by (simp add: gm_inv_def gm_set_def distinct_update)
  show "gm_inv (gm_delete k m)" if "gm_inv m"
    using that by (simp add: gm_inv_def gm_delete_def distinct_delete)
  show "gm_inv (gm_prune p m)" if "gm_inv m"
    using that by (auto simp: gm_inv_def gm_prune_def distinct_map_filter)
  show "gm_get (gm_set k v m) = (gm_get m)(k \<mapsto> v)"
    by (simp add: fun_eq_iff gm_get_def gm_set_def update_conv')
  show "gm_get (gm_delete k m) = (gm_get m)(k := None)"
    by (simp add: fun_eq_iff gm_get_def gm_delete_def delete_conv')
  show "gm_get (gm_prune p m) k =
      (case gm_get m k of None \<Rightarrow> None | Some v \<Rightarrow> if p k v then None else Some v)" if "gm_inv m"
    using that by (simp add: gm_inv_def gm_get_def gm_prune_def map_of_filter_distinct split: option.splits)
  show "gm_len m = card (dom (gm_get m))" if "gm_inv m"
    using that by (rule gm_len_card)
  show "finite (dom (gm_get m))"
    by (metis ext finite_dom_map_of gm_get_def)
qed

section \<open>Time\<close>

text \<open>
  A \<^verbatim>\<open>time.Time\<close> is an integer count of nanoseconds since the Unix epoch; a
  \<^verbatim>\<open>time.Duration\<close> is a signed 64-bit count. \<^verbatim>\<open>Time.Sub\<close> (and so \<^verbatim>\<open>time.Since\<close>)
  saturates; negation of a duration wraps at the least value.
\<close>

type_synonym gotime = int
type_synonym duration = int

definition max_duration :: duration where "max_duration = 2 ^ 63 - 1"
definition min_duration :: duration where "min_duration = - (2 ^ 63)"

definition time_since :: "gotime \<Rightarrow> gotime \<Rightarrow> duration" where
  "time_since now t = max min_duration (min max_duration (now - t))"

definition dur_neg :: "duration \<Rightarrow> duration" where
  "dur_neg d = (if d = min_duration then min_duration else - d)"

definition duration_ok :: "duration \<Rightarrow> bool" where
  "duration_ok d \<longleftrightarrow> min_duration \<le> d \<and> d \<le> max_duration"

definition dur_millisecond :: duration where "dur_millisecond = 1000000"
definition dur_second :: duration where "dur_second = 1000 * dur_millisecond"
definition dur_minute :: duration where "dur_minute = 60 * dur_second"
definition dur_hour :: duration where "dur_hour = 60 * dur_minute"

lemmas duration_defs [hush_defs] = dur_millisecond_def dur_second_def dur_minute_def dur_hour_def

lemma time_since_gt_iff:
  "duration_ok d \<Longrightarrow> d < max_duration \<Longrightarrow> time_since now t > d \<longleftrightarrow> now - t > d"
  by (auto simp: time_since_def duration_ok_def min_duration_def max_duration_def)

lemma time_since_mono: "now \<le> now' \<Longrightarrow> time_since now t \<le> time_since now' t"
  by (auto simp: time_since_def)

lemma time_since_self [simp]: "time_since now now = 0"
  by (simp add: time_since_def min_duration_def max_duration_def)

section \<open>Step systems and refinements\<close>

text \<open>
  Components whose operations interleave are step relations; what every step keeps holds in every
  reachable state.
\<close>

locale step_system =
  fixes step :: "'s \<Rightarrow> 's \<Rightarrow> bool" and inv :: "'s \<Rightarrow> bool"
  assumes step_inv: "step s s' \<Longrightarrow> inv s \<Longrightarrow> inv s'"
begin

lemma reach_inv:
  assumes "step\<^sup>*\<^sup>* s s'" "inv s"
  shows "inv s'"
  using assms by (induction rule: rtranclp_induct) (auto intro: step_inv)

end

text \<open>
  An operation that implements another through an abstraction, on states that satisfy an
  invariant: then so does every sequence of operations.
\<close>

locale functional_refinement =
  fixes conc :: "'op \<Rightarrow> 's \<Rightarrow> 's" and spec :: "'op \<Rightarrow> 'a \<Rightarrow> 'a"
    and abs :: "'s \<Rightarrow> 'a" and inv :: "'s \<Rightarrow> bool"
  assumes refines: "inv s \<Longrightarrow> abs (conc x s) = spec x (abs s)"
    and keeps: "inv s \<Longrightarrow> inv (conc x s)"
begin

lemma run_inv: "inv s \<Longrightarrow> inv (fold conc xs s)"
  by (induction xs arbitrary: s) (simp_all add: keeps)

lemma run_refines: "inv s \<Longrightarrow> abs (fold conc xs s) = fold spec xs (abs s)"
  by (induction xs arbitrary: s) (simp_all add: keeps refines)

end

end
