(* ===== verification/Go_IO.thy ===== *)
theory Go_IO
  imports Hush_Prelude
begin

text \<open>
  Byte streams of Go's \<^verbatim>\<open>io\<close> package: what a TLS connection, a QUIC stream or a
  \<^verbatim>\<open>bytes.Buffer\<close> offers the program. A stream holds the bytes still to be read, the error
  a read past them returns (\<open>EOF\<close> for an orderly end), the bytes written so far, how many
  more bytes the peer accepts (\<open>None\<close> for no bound) and whether it was closed. Functions
  that read or write pass the stream along.
\<close>

datatype io_err = EOF | ErrUnexpectedEOF | ErrTransport nat | ErrClosed | ErrVarintOverflow

record stream =
  sin :: bytes
  sin_err :: io_err
  sout :: bytes
  sroom :: "nat option"
  sclosed :: bool

definition stream_of :: "bytes \<Rightarrow> stream" where
  "stream_of b = \<lparr>sin = b, sin_err = EOF, sout = [], sroom = None, sclosed = False\<rparr>"

type_synonym ('s, 'e, 'a) io = "'s \<Rightarrow> ('e, 'a) result \<times> 's"

fun sbind :: "('e, 'a) result \<times> 's \<Rightarrow> ('a \<Rightarrow> ('s, 'e, 'b) io) \<Rightarrow> ('e, 'b) result \<times> 's" where
  "sbind (Ok x, s) f = f x s"
| "sbind (Err e, s) f = (Err e, s)"
| "sbind (Panic p, s) f = (Panic p, s)"

definition swrap :: "('e \<Rightarrow> 'f) \<Rightarrow> ('e, 'a) result \<times> 's \<Rightarrow> ('f, 'a) result \<times> 's" where
  "swrap g r = (map_err g (fst r), snd r)"

lemma swrap_simps [simp]:
  "swrap g (Ok x, s) = (Ok x, s)" "swrap g (Err e, s) = (Err (g e), s)"
  "swrap g (Panic p, s) = (Panic p, s)"
  by (simp_all add: swrap_def)

lemma swrap_eq_Ok_iff: "swrap g m = (Ok x, s) \<longleftrightarrow> m = (Ok x, s)"
  by (cases m; cases "fst m") auto

lemma sbind_eq_Ok_iff:
  "sbind m f = (Ok y, s') \<longleftrightarrow> (\<exists>x s. m = (Ok x, s) \<and> f x s = (Ok y, s'))"
  by (cases m; cases "fst m") auto

lemma sbind_cong [fundef_cong]:
  assumes "m = m'" and "\<And>x s. m' = (Ok x, s) \<Longrightarrow> f x s = f' x s"
  shows "sbind m f = sbind m' f'"
  using assms by (cases m'; cases "fst m'") auto

section \<open>Reading\<close>

text \<open>\<^verbatim>\<open>io.ReadFull(r, buf)\<close> with \<open>n = len(buf)\<close>; a short read consumes what was there.\<close>

definition ReadFull :: "nat \<Rightarrow> (stream, io_err, bytes) io" where
  "ReadFull n s =
     (if n \<le> length (sin s) then (Ok (take n (sin s)), s\<lparr>sin := drop n (sin s)\<rparr>)
      else (Err (if sin_err s = EOF \<and> sin s \<noteq> [] then ErrUnexpectedEOF else sin_err s),
            s\<lparr>sin := []\<rparr>))"

text \<open>\<^verbatim>\<open>io.ByteReader.ReadByte\<close>\<close>

definition ReadByte :: "(stream, io_err, byte) io" where
  "ReadByte s =
     (case sin s of [] \<Rightarrow> (Err (sin_err s), s) | b # bs \<Rightarrow> (Ok b, s\<lparr>sin := bs\<rparr>))"

text \<open>
  \<^verbatim>\<open>binary.ReadUvarint\<close>. On an error the Go function also returns the bits read so far,
  which the caller inspects; so the result is the pair of the value and the error, if any.
\<close>

function ReadUvarint_loop ::
    "nat \<Rightarrow> u64 \<Rightarrow> nat \<Rightarrow> stream \<Rightarrow> (u64 \<times> io_err option) \<times> stream" where
  "ReadUvarint_loop i x s r =
     (if i \<ge> 10 then ((x, Some ErrVarintOverflow), r)
      else case ReadByte r of
        (Ok b, r') \<Rightarrow>
          (if b < 0x80 then
             (if i = 9 \<and> b > 1 then ((x, Some ErrVarintOverflow), r')
              else ((x OR push_bit s (ucast b), None), r'))
           else ReadUvarint_loop (Suc i) (x OR push_bit s (ucast (b AND 0x7F))) (s + 7) r')
      | (Err e, r') \<Rightarrow> ((x, Some (if i > 0 \<and> e = EOF then ErrUnexpectedEOF else e)), r')
      | (Panic p, r') \<Rightarrow> ((x, None), r'))"
  by pat_completeness auto
termination
  by (relation "measure (\<lambda>(i, x, s, r). 10 - i)") auto

declare ReadUvarint_loop.simps [simp del]

definition ReadUvarint :: "stream \<Rightarrow> (u64 \<times> io_err option) \<times> stream" where
  "ReadUvarint r = ReadUvarint_loop 0 0 0 r"

section \<open>Writing and closing\<close>

text \<open>
  \<^verbatim>\<open>io.Writer.Write\<close>: all bytes are accepted, or a prefix and an error is returned.
\<close>

definition stream_Write :: "bytes \<Rightarrow> (stream, io_err, nat) io" where
  "stream_Write b s =
     (if sclosed s then (Err ErrClosed, s)
      else case sroom s of
        None \<Rightarrow> (Ok (length b), s\<lparr>sout := sout s @ b\<rparr>)
      | Some k \<Rightarrow>
          (if length b \<le> k then (Ok (length b), s\<lparr>sout := sout s @ b, sroom := Some (k - length b)\<rparr>)
           else (Err (ErrTransport 0), s\<lparr>sout := sout s @ take k b, sroom := Some 0\<rparr>)))"

definition stream_Close :: "stream \<Rightarrow> stream" where
  "stream_Close s = s\<lparr>sclosed := True\<rparr>"

section \<open>Laws\<close>

lemma ReadFull_append:
  "length a = n \<Longrightarrow> sin s = a @ r \<Longrightarrow> ReadFull n s = (Ok a, s\<lparr>sin := r\<rparr>)"
  by (simp add: ReadFull_def)

lemma ReadFull_Ok_iff:
  "ReadFull n s = (Ok b, s') \<longleftrightarrow>
     n \<le> length (sin s) \<and> b = take n (sin s) \<and> s' = s\<lparr>sin := drop n (sin s)\<rparr>"
  by (auto simp: ReadFull_def)

lemma ReadFull_no_panic [simp]: "ReadFull n s \<noteq> (Panic p, s')"
  by (simp add: ReadFull_def)

lemma ReadFull_fields [simp]:
  "sout (snd (ReadFull n s)) = sout s" "sroom (snd (ReadFull n s)) = sroom s"
  "sclosed (snd (ReadFull n s)) = sclosed s" "sin_err (snd (ReadFull n s)) = sin_err s"
  by (simp_all add: ReadFull_def)

lemma stream_Write_open:
  "\<not> sclosed s \<Longrightarrow> sroom s = None \<Longrightarrow>
   stream_Write b s = (Ok (length b), s\<lparr>sout := sout s @ b\<rparr>)"
  by (simp add: stream_Write_def)

lemma stream_Write_prefix:
  "\<exists>k. sout (snd (stream_Write b s)) = sout s @ take k b"
proof -
  have "\<exists>k. sout s = sout s @ take k b" by (rule exI [of _ 0]) simp
  moreover have "\<exists>k. sout s @ b = sout s @ take k b" by (rule exI [of _ "length b"]) simp
  ultimately show ?thesis
    by (auto simp: stream_Write_def split: option.splits)
qed

lemma stream_Write_sin [simp]: "sin (snd (stream_Write b s)) = sin s"
  by (simp add: stream_Write_def split: option.splits)

lemma stream_Write_no_panic [simp]: "stream_Write b s \<noteq> (Panic p, s')"
  by (simp add: stream_Write_def split: option.splits)

lemma ReadByte_no_panic [simp]: "ReadByte s \<noteq> (Panic p, s')"
  by (simp add: ReadByte_def split: list.splits)

text \<open>
  Reading a varint from a stream and from a slice agree: \<^verbatim>\<open>binary.ReadUvarint\<close> succeeds
  exactly where \<^verbatim>\<open>binary.Uvarint\<close> reads a value, with the same value, and consumes the bytes
  that the slice version counts.
\<close>

lemma ReadUvarint_loop_uvarint:
  "uvarint_loop i x s (sin r) = (y, n) \<Longrightarrow> 0 < n \<Longrightarrow> i \<le> 9 \<Longrightarrow>
   ReadUvarint_loop i x s r = ((y, None), r\<lparr>sin := drop (nat (n - int i)) (sin r)\<rparr>)"
proof (induction i x s "sin r" arbitrary: r rule: uvarint_loop.induct)
  case (2 i x s b bs)
  let ?r = "r\<lparr>sin := bs\<rparr>"
  have rb: "ReadByte r = (Ok b, ?r)"
    using 2(2) by (simp add: ReadByte_def flip: 2(2))
  show ?case
  proof (cases "b < 0x80")
    case True
    with 2 rb show ?thesis
      by (auto simp: ReadUvarint_loop.simps [of i x s r] split: if_splits simp flip: 2(2))
  next
    case False
    let ?x = "x OR push_bit s (ucast (b AND 0x7F))"
    have loop: "uvarint_loop (Suc i) ?x (s + 7) bs = (y, n)"
      using 2(3,4,5) False by (simp flip: 2(2))
    have i8: "Suc i \<le> 9"
    proof (rule ccontr)
      assume "\<not> Suc i \<le> 9"
      with 2(5) have "Suc i = 10" by simp
      with loop 2(4) show False by (cases bs) auto
    qed
    have cnt: "int (Suc i) < n"
      using uvarint_loop_count [OF loop 2(4)] i8 by simp
    then have "nat (n - int i) = Suc (nat (n - int (Suc i)))" by linarith
    then have "drop (nat (n - int i)) (sin r) = drop (nat (n - int (Suc i))) bs"
      by (simp flip: 2(2))
    moreover have "ReadUvarint_loop (Suc i) ?x (s + 7) ?r =
        ((y, None), ?r\<lparr>sin := drop (nat (n - int (Suc i))) bs\<rparr>)"
      using 2(1) [of ?r] 2(4,5) False loop i8 by simp
    ultimately show ?thesis
      using 2(5) False rb by (simp add: ReadUvarint_loop.simps [of i x s r])
  qed
qed simp

lemma ReadUvarint_uvarint:
  assumes "uvarint (sin r) = (y, n)" and "0 < n"
  shows "ReadUvarint r = ((y, None), r\<lparr>sin := drop (nat n) (sin r)\<rparr>)"
  using ReadUvarint_loop_uvarint [of 0 0 0 r y n] assms
  by (simp add: ReadUvarint_def uvarint_def)

lemma ReadUvarint_put_uvarint:
  "sin r = put_uvarint x @ rest \<Longrightarrow> ReadUvarint r = ((x, None), r\<lparr>sin := rest\<rparr>)"
  using ReadUvarint_uvarint [of r x "int (length (put_uvarint x))"]
  by (simp add: uvarint_put_uvarint)

end
