(* ===== verification/Tlv_Types.thy ===== *)
theory Tlv_Types
  imports Go_IO
begin

text \<open>
  The TLV value model of \<^verbatim>\<open>src/tlv/types.go\<close>: type codes, dynamically typed values with
  their constructors and accessors, and the ordered map with its operations. A Go
  \<^verbatim>\<open>Value\<close> pairs an exported type code with a private dynamic value; nothing in the type
  ties the two together, so the model keeps both and an accessor on the wrong dynamic type
  panics. \<open>wf_value\<close> is the invariant that the constructors establish.
\<close>

section \<open>Type codes\<close>

definition TypeString :: byte where "TypeString = 0x01"
definition TypeBytes :: byte where "TypeBytes = 0x02"
definition TypeUint8 :: byte where "TypeUint8 = 0x03"
definition TypeUint16 :: byte where "TypeUint16 = 0x04"
definition TypeUint32 :: byte where "TypeUint32 = 0x05"
definition TypeUint64 :: byte where "TypeUint64 = 0x06"
definition TypeInt32 :: byte where "TypeInt32 = 0x07"
definition TypeInt64 :: byte where "TypeInt64 = 0x08"
definition TypeFloat32 :: byte where "TypeFloat32 = 0x09"
definition TypeFloat64 :: byte where "TypeFloat64 = 0x0A"
definition TypeBool :: byte where "TypeBool = 0x0B"
definition TypeArray :: byte where "TypeArray = 0x0C"
definition TypeMap :: byte where "TypeMap = 0x0D"
definition TypeNull :: byte where "TypeNull = 0x0E"
definition TypeTimestamp :: byte where "TypeTimestamp = 0x0F"

lemmas type_codes = TypeString_def TypeBytes_def TypeUint8_def TypeUint16_def TypeUint32_def
  TypeUint64_def TypeInt32_def TypeInt64_def TypeFloat32_def TypeFloat64_def TypeBool_def
  TypeArray_def TypeMap_def TypeNull_def TypeTimestamp_def

lemma type_codes_distinct:
  "distinct
    [TypeString, TypeBytes, TypeUint8, TypeUint16, TypeUint32, TypeUint64,
     TypeInt32, TypeInt64, TypeFloat32, TypeFloat64, TypeBool, TypeArray, TypeMap,
     TypeNull, TypeTimestamp]"
  "distinct
    [TypeTimestamp, TypeNull, TypeMap, TypeArray, TypeBool, TypeFloat64,
     TypeFloat32, TypeInt64, TypeInt32, TypeUint64, TypeUint32, TypeUint16,
     TypeUint8, TypeBytes, TypeString]"
  by (simp_all add: type_codes)

lemmas type_codes_neq [simp] = type_codes_distinct
  [unfolded distinct.simps list.set insert_iff empty_iff de_Morgan_disj simp_thms]

definition Type_String :: "byte \<Rightarrow> string" where
  "Type_String t =
     (if t = TypeString then ''string''
      else if t = TypeBytes then ''bytes''
      else if t = TypeUint8 then ''uint8''
      else if t = TypeUint16 then ''uint16''
      else if t = TypeUint32 then ''uint32''
      else if t = TypeUint64 then ''uint64''
      else if t = TypeInt32 then ''int32''
      else if t = TypeInt64 then ''int64''
      else if t = TypeFloat32 then ''float32''
      else if t = TypeFloat64 then ''float64''
      else if t = TypeBool then ''bool''
      else if t = TypeArray then ''array''
      else if t = TypeMap then ''map''
      else if t = TypeNull then ''null''
      else if t = TypeTimestamp then ''timestamp''
      else ''unknown(0x'' @ hex_byte t @ '')'')"

section \<open>Values\<close>

text \<open>
  \<open>dyn\<close> is the dynamic content of the \<^verbatim>\<open>data interface{}\<close> field; \<open>DNil\<close> is the nil
  interface. Signed integers are kept as their two's complement bits (\<open>sint\<close> reads them)
  and floats as their IEEE 754 bits, which is all the codec looks at. A \<^verbatim>\<open>Map\<close> is its
  \<^verbatim>\<open>entries\<close> slice, a \<^verbatim>\<open>MapEntry\<close> a pair of key and value.
\<close>

datatype Value = Value (Typ: byte) (data: dyn)
and dyn =
    DNil
  | DString string
  | DBytes bytes
  | DUint8 byte
  | DUint16 u16
  | DUint32 u32
  | DUint64 u64
  | DInt32 u32
  | DInt64 u64
  | DFloat32 u32
  | DFloat64 u64
  | DBool bool
  | DTime gotime
  | DArray "Value list"
  | DMap "(string \<times> Value) list"

type_synonym MapEntry = "string \<times> Value"
type_synonym tlv_map = "MapEntry list"

datatype tlv_err =
    TlvUnknownType byte
  | TlvReadType io_err
  | TlvReadLength io_err
  | TlvReadPayload io_err
  | TlvTooLarge u64
  | TlvUnexpectedEOF
  | TlvBadVarint
  | TlvDepth nat
  | TlvNeeds byte nat
  | TlvKeyNotString byte
  | TlvMissingValue string
  | TlvExpectedMap byte
  | TlvWrite io_err

subsection \<open>Accessors: type assertions\<close>

definition Value_String :: "Value \<Rightarrow> (tlv_err, string) result" where
  "Value_String v = (case data v of DString s \<Rightarrow> Ok s | _ \<Rightarrow> Panic PanicTypeAssertion)"

definition Value_Bytes :: "Value \<Rightarrow> (tlv_err, bytes) result" where
  "Value_Bytes v = (case data v of DBytes b \<Rightarrow> Ok b | _ \<Rightarrow> Panic PanicTypeAssertion)"

definition Value_Uint8 :: "Value \<Rightarrow> (tlv_err, byte) result" where
  "Value_Uint8 v = (case data v of DUint8 n \<Rightarrow> Ok n | _ \<Rightarrow> Panic PanicTypeAssertion)"

definition Value_Uint16 :: "Value \<Rightarrow> (tlv_err, u16) result" where
  "Value_Uint16 v = (case data v of DUint16 n \<Rightarrow> Ok n | _ \<Rightarrow> Panic PanicTypeAssertion)"

definition Value_Uint32 :: "Value \<Rightarrow> (tlv_err, u32) result" where
  "Value_Uint32 v = (case data v of DUint32 n \<Rightarrow> Ok n | _ \<Rightarrow> Panic PanicTypeAssertion)"

definition Value_Uint64 :: "Value \<Rightarrow> (tlv_err, u64) result" where
  "Value_Uint64 v = (case data v of DUint64 n \<Rightarrow> Ok n | _ \<Rightarrow> Panic PanicTypeAssertion)"

definition Value_Int32 :: "Value \<Rightarrow> (tlv_err, u32) result" where
  "Value_Int32 v = (case data v of DInt32 n \<Rightarrow> Ok n | _ \<Rightarrow> Panic PanicTypeAssertion)"

definition Value_Int64 :: "Value \<Rightarrow> (tlv_err, u64) result" where
  "Value_Int64 v = (case data v of DInt64 n \<Rightarrow> Ok n | _ \<Rightarrow> Panic PanicTypeAssertion)"

definition Value_Float32 :: "Value \<Rightarrow> (tlv_err, u32) result" where
  "Value_Float32 v = (case data v of DFloat32 f \<Rightarrow> Ok f | _ \<Rightarrow> Panic PanicTypeAssertion)"

definition Value_Float64 :: "Value \<Rightarrow> (tlv_err, u64) result" where
  "Value_Float64 v = (case data v of DFloat64 f \<Rightarrow> Ok f | _ \<Rightarrow> Panic PanicTypeAssertion)"

definition Value_Bool :: "Value \<Rightarrow> (tlv_err, bool) result" where
  "Value_Bool v = (case data v of DBool b \<Rightarrow> Ok b | _ \<Rightarrow> Panic PanicTypeAssertion)"

definition Value_Array :: "Value \<Rightarrow> (tlv_err, Value list) result" where
  "Value_Array v = (case data v of DArray vs \<Rightarrow> Ok vs | _ \<Rightarrow> Panic PanicTypeAssertion)"

definition Value_Map :: "Value \<Rightarrow> (tlv_err, tlv_map) result" where
  "Value_Map v = (case data v of DMap es \<Rightarrow> Ok es | _ \<Rightarrow> Panic PanicTypeAssertion)"

definition Value_Timestamp :: "Value \<Rightarrow> (tlv_err, gotime) result" where
  "Value_Timestamp v = (case data v of DTime t \<Rightarrow> Ok t | _ \<Rightarrow> Panic PanicTypeAssertion)"

definition IsNull :: "Value \<Rightarrow> bool" where
  "IsNull v \<longleftrightarrow> Typ v = TypeNull"

lemmas value_accessors = Value_String_def Value_Bytes_def Value_Uint8_def Value_Uint16_def
  Value_Uint32_def Value_Uint64_def Value_Int32_def Value_Int64_def Value_Float32_def
  Value_Float64_def Value_Bool_def Value_Array_def Value_Map_def Value_Timestamp_def

subsection \<open>Constructors\<close>

definition VString :: "string \<Rightarrow> Value" where "VString s = Value TypeString (DString s)"
definition VBytes :: "bytes \<Rightarrow> Value" where "VBytes b = Value TypeBytes (DBytes b)"
definition VUint8 :: "byte \<Rightarrow> Value" where "VUint8 n = Value TypeUint8 (DUint8 n)"
definition VUint16 :: "u16 \<Rightarrow> Value" where "VUint16 n = Value TypeUint16 (DUint16 n)"
definition VUint32 :: "u32 \<Rightarrow> Value" where "VUint32 n = Value TypeUint32 (DUint32 n)"
definition VUint64 :: "u64 \<Rightarrow> Value" where "VUint64 n = Value TypeUint64 (DUint64 n)"
definition VInt32 :: "u32 \<Rightarrow> Value" where "VInt32 n = Value TypeInt32 (DInt32 n)"
definition VInt64 :: "u64 \<Rightarrow> Value" where "VInt64 n = Value TypeInt64 (DInt64 n)"
definition VFloat32 :: "u32 \<Rightarrow> Value" where "VFloat32 f = Value TypeFloat32 (DFloat32 f)"
definition VFloat64 :: "u64 \<Rightarrow> Value" where "VFloat64 f = Value TypeFloat64 (DFloat64 f)"
definition VBool :: "bool \<Rightarrow> Value" where "VBool b = Value TypeBool (DBool b)"
definition VArray :: "Value list \<Rightarrow> Value" where "VArray vs = Value TypeArray (DArray vs)"
definition VNull :: Value where "VNull = Value TypeNull DNil"
definition VTimestamp :: "gotime \<Rightarrow> Value" where "VTimestamp t = Value TypeTimestamp (DTime t)"

text \<open>\<^verbatim>\<open>MapValue(m)\<close> dereferences the map pointer.\<close>

definition MapValue :: "tlv_map option \<Rightarrow> (tlv_err, Value) result" where
  "MapValue mp = (case mp of None \<Rightarrow> Panic PanicNilDeref | Some m \<Rightarrow> Ok (Value TypeMap (DMap m)))"

lemmas value_constructors = VString_def VBytes_def VUint8_def VUint16_def VUint32_def VUint64_def
  VInt32_def VInt64_def VFloat32_def VFloat64_def VBool_def VArray_def VNull_def VTimestamp_def

section \<open>Maps\<close>

definition NewMap :: tlv_map where "NewMap = []"

fun map_set :: "tlv_map \<Rightarrow> string \<Rightarrow> Value \<Rightarrow> tlv_map" where
  "map_set [] key v = [(key, v)]"
| "map_set ((k, w) # es) key v = (if k = key then (k, v) # es else (k, w) # map_set es key v)"

fun map_get :: "tlv_map \<Rightarrow> string \<Rightarrow> Value option" where
  "map_get [] key = None"
| "map_get ((k, w) # es) key = (if k = key then Some w else map_get es key)"

text \<open>
  The methods have pointer receivers, and request payloads may be nil: ranging over the
  entries of a nil map pointer is a nil dereference.
\<close>

definition Map_Set :: "tlv_map option \<Rightarrow> string \<Rightarrow> Value \<Rightarrow> (tlv_err, tlv_map) result" where
  "Map_Set mp key v = (case mp of None \<Rightarrow> Panic PanicNilDeref | Some m \<Rightarrow> Ok (map_set m key v))"

definition Map_Get :: "tlv_map option \<Rightarrow> string \<Rightarrow> (tlv_err, Value option) result" where
  "Map_Get mp key = (case mp of None \<Rightarrow> Panic PanicNilDeref | Some m \<Rightarrow> Ok (map_get m key))"

definition GetString :: "tlv_map option \<Rightarrow> string \<Rightarrow> (tlv_err, string \<times> bool) result" where
  "GetString mp key = rbind (Map_Get mp key) (\<lambda>r. case r of
       None \<Rightarrow> Ok ([], False)
     | Some v \<Rightarrow> (if Typ v \<noteq> TypeString then Ok ([], False)
                  else rbind (Value_String v) (\<lambda>s. Ok (s, True))))"

definition GetUint64 :: "tlv_map option \<Rightarrow> string \<Rightarrow> (tlv_err, u64 \<times> bool) result" where
  "GetUint64 mp key = rbind (Map_Get mp key) (\<lambda>r. case r of
       None \<Rightarrow> Ok (0, False)
     | Some v \<Rightarrow> (if Typ v \<noteq> TypeUint64 then Ok (0, False)
                  else rbind (Value_Uint64 v) (\<lambda>n. Ok (n, True))))"

definition GetBytes :: "tlv_map option \<Rightarrow> string \<Rightarrow> (tlv_err, bytes option \<times> bool) result" where
  "GetBytes mp key = rbind (Map_Get mp key) (\<lambda>r. case r of
       None \<Rightarrow> Ok (None, False)
     | Some v \<Rightarrow> (if Typ v \<noteq> TypeBytes then Ok (None, False)
                  else rbind (Value_Bytes v) (\<lambda>b. Ok (Some b, True))))"

definition GetMap :: "tlv_map option \<Rightarrow> string \<Rightarrow> (tlv_err, tlv_map option \<times> bool) result" where
  "GetMap mp key = rbind (Map_Get mp key) (\<lambda>r. case r of
       None \<Rightarrow> Ok (None, False)
     | Some v \<Rightarrow> (if Typ v \<noteq> TypeMap then Ok (None, False)
                  else rbind (Value_Map v) (\<lambda>m. Ok (Some m, True))))"

text \<open>\<^verbatim>\<open>Iter\<close> stops at the first callback that returns false; the callback carries state.\<close>

fun map_iter :: "(string \<Rightarrow> Value \<Rightarrow> 's \<Rightarrow> bool \<times> 's) \<Rightarrow> tlv_map \<Rightarrow> 's \<Rightarrow> 's" where
  "map_iter f [] s = s"
| "map_iter f ((k, v) # es) s =
     (case f k v s of (go, s') \<Rightarrow> if go then map_iter f es s' else s')"

definition Map_Clone :: "tlv_map \<Rightarrow> tlv_map" where
  "Map_Clone m = map (\<lambda>(k, v). (k, v)) m"

section \<open>Well-formed values\<close>

text \<open>The type code that belongs to a dynamic content.\<close>

fun tag_of :: "dyn \<Rightarrow> byte" where
  "tag_of DNil = TypeNull"
| "tag_of (DString _) = TypeString"
| "tag_of (DBytes _) = TypeBytes"
| "tag_of (DUint8 _) = TypeUint8"
| "tag_of (DUint16 _) = TypeUint16"
| "tag_of (DUint32 _) = TypeUint32"
| "tag_of (DUint64 _) = TypeUint64"
| "tag_of (DInt32 _) = TypeInt32"
| "tag_of (DInt64 _) = TypeInt64"
| "tag_of (DFloat32 _) = TypeFloat32"
| "tag_of (DFloat64 _) = TypeFloat64"
| "tag_of (DBool _) = TypeBool"
| "tag_of (DTime _) = TypeTimestamp"
| "tag_of (DArray _) = TypeArray"
| "tag_of (DMap _) = TypeMap"

fun wf_value :: "Value \<Rightarrow> bool" and wf_dyn :: "dyn \<Rightarrow> bool" where
  "wf_value (Value t d) \<longleftrightarrow> t = tag_of d \<and> wf_dyn d"
| "wf_dyn (DArray vs) \<longleftrightarrow> (\<forall>v \<in> set vs. wf_value v)"
| "wf_dyn (DMap es) \<longleftrightarrow> distinct (map fst es) \<and> (\<forall>(k, v) \<in> set es. wf_value v)"
| "wf_dyn _ \<longleftrightarrow> True"

definition wf_map :: "tlv_map \<Rightarrow> bool" where
  "wf_map m \<longleftrightarrow> distinct (map fst m) \<and> (\<forall>(k, v) \<in> set m. wf_value v)"

lemma wf_dyn_DMap: "wf_dyn (DMap m) = wf_map m"
  by (simp add: wf_map_def)

lemma map_get_map_of: "map_get m = map_of m"
proof
  show "map_get m k = map_of m k" for k by (induction m) auto
qed

lemma map_set_update: "map_set m k v = AList.update k v m"
  by (induction m k v rule: map_set.induct) auto

lemma map_get_map_set: "map_get (map_set m k v) = (map_get m)(k \<mapsto> v)"
  by (simp add: map_get_map_of map_set_update update_conv' fun_eq_iff)

lemma keys_map_set:
  "map fst (map_set m k v) = (if k \<in> set (map fst m) then map fst m else map fst m @ [k])"
  by (induction m k v rule: map_set.induct) auto

lemma set_map_set: "set (map_set m k v) \<subseteq> insert (k, v) (set m)"
  by (induction m k v rule: map_set.induct) auto

lemma wf_map_NewMap [simp]: "wf_map NewMap"
  by (simp add: wf_map_def NewMap_def)

lemma wf_map_set: "wf_map m \<Longrightarrow> wf_value v \<Longrightarrow> wf_map (map_set m k v)"
  using set_map_set [of m k v] by (fastforce simp: wf_map_def keys_map_set)

lemma wf_map_get: "wf_map m \<Longrightarrow> map_get m k = Some v \<Longrightarrow> wf_value v"
  by (auto simp: wf_map_def map_get_map_of dest!: map_of_SomeD)

lemma map_set_new: "k \<notin> fst ` set m \<Longrightarrow> map_set m k v = m @ [(k, v)]"
  by (induction m k v rule: map_set.induct) auto

lemma Map_Clone_id [simp]: "Map_Clone m = m"
  by (simp add: Map_Clone_def)

lemma wf_value_constructors [simp]:
  "wf_value (VString s)" "wf_value (VBytes b)" "wf_value (VUint8 n8)" "wf_value (VUint16 n16)"
  "wf_value (VUint32 n32)" "wf_value (VUint64 n64)" "wf_value (VInt32 i32)" "wf_value (VInt64 i64)"
  "wf_value (VFloat32 f32)" "wf_value (VFloat64 f64)" "wf_value (VBool q)" "wf_value VNull"
  "wf_value (VTimestamp t)"
  "wf_value (VArray vs) \<longleftrightarrow> (\<forall>v \<in> set vs. wf_value v)"
  by (simp_all add: value_constructors)

lemma constructor_sel [simp]:
  "Typ (VString s) = TypeString" "data (VString s) = DString s"
  "Typ (VArray vs) = TypeArray" "data (VArray vs) = DArray vs"
  "Value_String (VString s) = Ok s"
  by (simp_all add: value_constructors Value_String_def)

section \<open>The contract of the ordered map\<close>

text \<open>
  What callers of the payload maps rely on: a field reads back what was last set under its
  name, and the field order is the order of first insertion.
\<close>

definition upds :: "('m \<Rightarrow> string \<Rightarrow> 'v \<Rightarrow> 'm) \<Rightarrow> 'm \<Rightarrow> (string \<times> 'v) list \<Rightarrow> 'm" where
  "upds upd m fs = foldl (\<lambda>m (k, v). upd m k v) m fs"

lemma upds_Nil [simp]: "upds upd m [] = m"
  by (simp add: upds_def)

lemma upds_snoc [simp]: "upds upd m (fs @ [f]) = upd (upds upd m fs) (fst f) (snd f)"
  by (simp add: upds_def case_prod_beta)

locale field_map =
  fixes get :: "'m \<Rightarrow> string \<Rightarrow> 'v option" and upd :: "'m \<Rightarrow> string \<Rightarrow> 'v \<Rightarrow> 'm"
    and keys :: "'m \<Rightarrow> string list"
  assumes get_upd: "get (upd m k v) = (get m)(k \<mapsto> v)"
    and keys_upd: "keys (upd m k v) = (if k \<in> set (keys m) then keys m else keys m @ [k])"
begin

lemma get_upd_same [simp]: "get (upd m k v) k = Some v"
  by (simp add: get_upd)

lemma get_upd_other: "k \<noteq> j \<Longrightarrow> get (upd m k v) j = get m j"
  by (simp add: get_upd)

lemma set_keys_upd: "set (keys (upd m k v)) = insert k (set (keys m))"
  by (auto simp: keys_upd)

lemma get_upds: "get (upds upd m fs) = get m ++ map_of (rev fs)"
  by (induction fs rule: rev_induct) (auto simp: get_upd fun_eq_iff map_add_def)

lemma distinct_keys_upds: "distinct (keys m) \<Longrightarrow> distinct (keys (upds upd m fs))"
  by (induction fs rule: rev_induct) (auto simp: keys_upd)

lemma set_keys_upds: "set (keys (upds upd m fs)) = set (keys m) \<union> fst ` set fs"
  by (induction fs rule: rev_induct) (auto simp: set_keys_upd)

lemma keys_upds_new:
  "distinct (keys m @ map fst fs) \<Longrightarrow> keys (upds upd m fs) = keys m @ map fst fs"
  by (induction fs rule: rev_induct) (auto simp: keys_upd set_keys_upds)

end

interpretation tm: field_map map_get map_set "map fst"
  by unfold_locales (auto simp: map_get_map_set keys_map_set)

lemma wf_map_upds: "wf_map m \<Longrightarrow> (\<forall>(k, v) \<in> set fs. wf_value v) \<Longrightarrow> wf_map (upds map_set m fs)"
  by (induction fs rule: rev_induct) (auto simp: wf_map_set)

text \<open>
  Building a payload with a chain of \<^verbatim>\<open>Set\<close> calls: the result is well formed, reads back
  the last value set under each name, keeps one entry per name, and when the names are new
  lists them in the order of the calls.
\<close>

theorem map_set_chain:
  assumes "wf_map m" and "\<forall>(k, v) \<in> set fs. wf_value v"
  shows "wf_map (upds map_set m fs) \<and>
         map_get (upds map_set m fs) = map_get m ++ map_of (rev fs) \<and>
         distinct (map fst (upds map_set m fs)) \<and>
         (distinct (map fst m @ map fst fs) \<longrightarrow>
            map fst (upds map_set m fs) = map fst m @ map fst fs)"
  using wf_map_upds [OF assms] tm.get_upds [of m fs] tm.keys_upds_new [of m fs]
  by (simp add: wf_map_def)

theorem map_set_chain_witness:
  "map_get (upds map_set NewMap [(''a'', VBool True), (''b'', VNull), (''a'', VUint8 3)]) ''a''
     = Some (VUint8 3)"
proof -
  have "wf_map NewMap" and
    "\<forall>(k, v) \<in> set [(''a'', VBool True), (''b'', VNull), (''a'', VUint8 3)]. wf_value v"
    by simp_all
  from map_set_chain [OF this] show ?thesis by (simp add: NewMap_def)
qed

section \<open>Typed getters\<close>

lemma GetString_wf:
  assumes "wf_map m"
  shows "GetString (Some m) k = Ok (case map_get m k of Some (Value t (DString s)) \<Rightarrow> (s, True) | _ \<Rightarrow> ([], False))"
    and "map_get m k = Some (Value t (DString s)) \<Longrightarrow> t = TypeString"
  using wf_map_get [OF assms, of k]
  by (auto simp: GetString_def Map_Get_def value_accessors split: option.split Value.split dyn.split)

lemma GetMap_wf:
  assumes "wf_map m"
  shows "GetMap (Some m) k = Ok (case map_get m k of Some (Value t (DMap es)) \<Rightarrow> (Some es, True) | _ \<Rightarrow> (None, False))"
    and "map_get m k = Some (Value t (DMap es)) \<Longrightarrow> t = TypeMap"
  using wf_map_get [OF assms, of k]
  by (auto simp: GetMap_def Map_Get_def value_accessors split: option.split Value.split dyn.split)

lemma GetString_empty:
  assumes "wf_map m" "\<nexists>t. map_get m k = Some (VString t) \<and> t \<noteq> []"
  shows "\<exists>ok. GetString (Some m) k = Ok ([], ok)"
  using assms(2) GetString_wf [OF assms(1), of k]
  by (auto simp: VString_def split: option.split Value.split dyn.split)

lemma GetString_VString: "map_get m k = Some (VString t) \<Longrightarrow> GetString (Some m) k = Ok (t, True)"
  by (simp add: GetString_def Map_Get_def VString_def Value_String_def)

lemma GetMap_none:
  assumes "wf_map m" "\<nexists>es. map_get m k = Some (Value TypeMap (DMap es))"
  shows "GetMap (Some m) k = Ok (None, False)"
  using assms(2) GetMap_wf [OF assms(1), of k]
  by (auto split: option.split Value.split dyn.split)

text \<open>
  C31. The typed getters on a payload map: they never panic, they report success exactly when
  the named field holds a value of their type, and otherwise return the zero value.
\<close>

theorem typed_getters:
  assumes "wf_map m"
  shows "GetString (Some m) k = Ok (case map_get m k of
           Some (Value t (DString s)) \<Rightarrow> (s, True) | _ \<Rightarrow> ([], False)) \<and>
         GetUint64 (Some m) k = Ok (case map_get m k of
           Some (Value t (DUint64 n)) \<Rightarrow> (n, True) | _ \<Rightarrow> (0, False)) \<and>
         GetBytes (Some m) k = Ok (case map_get m k of
           Some (Value t (DBytes b)) \<Rightarrow> (Some b, True) | _ \<Rightarrow> (None, False)) \<and>
         GetMap (Some m) k = Ok (case map_get m k of
           Some (Value t (DMap es)) \<Rightarrow> (Some es, True) | _ \<Rightarrow> (None, False))"
  using wf_map_get [OF assms, of k]
  by (auto simp: GetString_def GetUint64_def GetBytes_def GetMap_def Map_Get_def value_accessors
      split: option.split Value.split dyn.split)

theorem typed_getters_witness:
  "GetString (Some (map_set NewMap ''city'' (VString ''Oslo''))) ''city'' = Ok (''Oslo'', True) \<and>
   GetUint64 (Some (map_set NewMap ''city'' (VString ''Oslo''))) ''city'' = Ok (0, False)"
  using typed_getters [OF wf_map_set [OF wf_map_NewMap, of "VString ''Oslo''" "''city''"], of "''city''"]
  by (simp add: NewMap_def VString_def)

end
