(* ===== verification/Tlv_Codec.thy ===== *)
theory Tlv_Codec
  imports Tlv_Types
begin

text \<open>
  The TLV wire format: the encoder (\<^verbatim>\<open>marshalPayload\<close>, \<^verbatim>\<open>marshalValue\<close> of
  \<^verbatim>\<open>src/tlv/types.go\<close> and \<^verbatim>\<open>src/tlv/encode.go\<close>) and the decoder of
  \<^verbatim>\<open>src/tlv/decode.go\<close>, with the depth and size limits and every error of the source. The
  loops over container payloads are the functions \<open>marshalElems\<close>, \<open>marshalEntries\<close>,
  \<open>decodeArray\<close> and \<open>decodeMapEntries\<close>; their termination is proved here, so the codec is
  total.
\<close>

section \<open>Timestamps\<close>

text \<open>\<^verbatim>\<open>t.UnixMilli()\<close> as the unsigned bits that are written, and \<^verbatim>\<open>time.UnixMilli(ms)\<close>.\<close>

definition UnixMilli :: "gotime \<Rightarrow> u64" where
  "UnixMilli t = word_of_int (t div 1000000)"

definition time_UnixMilli :: "u64 \<Rightarrow> gotime" where
  "time_UnixMilli ms = sint ms * 1000000"

section \<open>Encoding\<close>

fun vsize :: "Value \<Rightarrow> nat" and dsize :: "dyn \<Rightarrow> nat" where
  "vsize (Value t d) = Suc (dsize d)"
| "dsize (DArray vs) = Suc (sum_list (map (\<lambda>v. Suc (vsize v)) vs))"
| "dsize (DMap es) = Suc (sum_list (map (\<lambda>(k, v). 5 + vsize v) es))"
| "dsize _ = 1"

lemma vsize_Value_Array: "Value_Array v = Ok vs \<Longrightarrow> sum_list (map (\<lambda>v. Suc (vsize v)) vs) < vsize v"
  by (cases v; cases "data v") (auto simp: Value_Array_def)

lemma vsize_Value_Map:
  "Value_Map v = Ok es \<Longrightarrow> sum_list (map (\<lambda>(k, v). 5 + vsize v) es) < vsize v"
  by (cases v; cases "data v") (auto simp: Value_Map_def)

lemma vsize_VString [simp]: "vsize (VString s) = 2"
  by (simp add: VString_def)

text \<open>Type code and length in front of a payload, the last part of \<^verbatim>\<open>marshalValue\<close>.\<close>

definition with_header :: "byte \<Rightarrow> bytes \<Rightarrow> bytes" where
  "with_header t payload = t # put_uvarint (of_nat (length payload)) @ payload"

text \<open>\<^verbatim>\<open>marshalPayload\<close> and its loops over the elements of an array and the entries of a map, in which
  \<^verbatim>\<open>marshalValue\<close> is unfolded; \<open>marshalElems_loop\<close> and \<open>marshalEntries_loop\<close> below have the
  shape of the source.\<close>

function marshalPayload :: "Value \<Rightarrow> (tlv_err, bytes) result"
  and marshalElems :: "bytes \<Rightarrow> Value list \<Rightarrow> (tlv_err, bytes) result"
  and marshalEntries :: "bytes \<Rightarrow> tlv_map \<Rightarrow> (tlv_err, bytes) result" where
  "marshalPayload v =
     (if Typ v = TypeString then rbind (Value_String v) (\<lambda>s. Ok (bytes_of_string s))
      else if Typ v = TypeBytes then Value_Bytes v
      else if Typ v = TypeUint8 then rbind (Value_Uint8 v) (\<lambda>n. Ok [n])
      else if Typ v = TypeUint16 then rbind (Value_Uint16 v) (\<lambda>n. Ok (put_be 2 n))
      else if Typ v = TypeUint32 then rbind (Value_Uint32 v) (\<lambda>n. Ok (put_be 4 n))
      else if Typ v = TypeUint64 then rbind (Value_Uint64 v) (\<lambda>n. Ok (put_be 8 n))
      else if Typ v = TypeInt32 then rbind (Value_Int32 v) (\<lambda>n. Ok (put_be 4 n))
      else if Typ v = TypeInt64 then rbind (Value_Int64 v) (\<lambda>n. Ok (put_be 8 n))
      else if Typ v = TypeFloat32 then rbind (Value_Float32 v) (\<lambda>f. Ok (put_be 4 f))
      else if Typ v = TypeFloat64 then rbind (Value_Float64 v) (\<lambda>f. Ok (put_be 8 f))
      else if Typ v = TypeBool then rbind (Value_Bool v) (\<lambda>b. Ok (if b then [1] else [0]))
      else if Typ v = TypeNull then Ok []
      else if Typ v = TypeTimestamp then
        rbind (Value_Timestamp v) (\<lambda>t. Ok (put_be 8 (UnixMilli t)))
      else if Typ v = TypeArray then rbind (Value_Array v) (\<lambda>vs. marshalElems [] vs)
      else if Typ v = TypeMap then rbind (Value_Map v) (\<lambda>es. marshalEntries [] es)
      else Err (TlvUnknownType (Typ v)))"
| "marshalElems buf vs =
     (case vs of [] \<Rightarrow> Ok buf
      | elem # rest \<Rightarrow>
          rbind (marshalPayload elem) (\<lambda>p. marshalElems (buf @ with_header (Typ elem) p) rest))"
| "marshalEntries buf es =
     (case es of [] \<Rightarrow> Ok buf
      | (key, val) # rest \<Rightarrow>
          rbind (marshalPayload (VString key)) (\<lambda>k.
          rbind (marshalPayload val) (\<lambda>p.
            marshalEntries ((buf @ with_header TypeString k) @ with_header (Typ val) p) rest)))"
  by pat_completeness auto
termination
  by (relation "measure (\<lambda>x. case x of
        Inl v \<Rightarrow> 2 * vsize v
      | Inr (Inl (b, vs)) \<Rightarrow> 2 * sum_list (map (\<lambda>v. Suc (vsize v)) vs)
      | Inr (Inr (b, es)) \<Rightarrow> 2 * sum_list (map (\<lambda>(k, v). 5 + vsize v) es))")
    (auto dest: vsize_Value_Array vsize_Value_Map)

declare marshalPayload.simps [simp del] marshalElems.simps [simp del] marshalEntries.simps [simp del]

definition marshalValue :: "Value \<Rightarrow> (tlv_err, bytes) result" where
  "marshalValue v = rbind (marshalPayload v) (\<lambda>payload. Ok (with_header (Typ v) payload))"

lemma marshalElems_loop:
  "marshalElems buf vs =
     (case vs of [] \<Rightarrow> Ok buf
      | elem # rest \<Rightarrow>
          rbind (marshalValue elem) (\<lambda>elemBuf. marshalElems (buf @ elemBuf) rest))"
  by (subst marshalElems.simps) (auto simp: marshalValue_def rbind_assoc split: list.split)

lemma marshalEntries_loop:
  "marshalEntries buf es =
     (case es of [] \<Rightarrow> Ok buf
      | (key, val) # rest \<Rightarrow>
          rbind (marshalValue (VString key)) (\<lambda>keyBuf.
          rbind (marshalValue val) (\<lambda>valBuf.
            marshalEntries ((buf @ keyBuf) @ valBuf) rest)))"
  by (subst marshalEntries.simps) (auto simp: marshalValue_def rbind_assoc VString_def split: list.split)

text \<open>\<^verbatim>\<open>Encode\<close> writes in one call; \<^verbatim>\<open>MustEncode\<close> panics on an error.\<close>

definition Encode :: "Value \<Rightarrow> (stream, tlv_err, nat) io" where
  "Encode v w = sbind (marshalValue v, w) (\<lambda>buf w. swrap TlvWrite (stream_Write buf w))"

definition EncodeMap :: "tlv_map option \<Rightarrow> (stream, tlv_err, nat) io" where
  "EncodeMap mp w = (case mp of None \<Rightarrow> (Panic PanicNilDeref, w)
     | Some m \<Rightarrow> Encode (Value TypeMap (DMap m)) w)"

definition MustEncode :: "Value \<Rightarrow> (tlv_err, bytes) result" where
  "MustEncode v = (case marshalValue v of Err e \<Rightarrow> Panic PanicMustEncode | r \<Rightarrow> r)"

definition MustEncodeMap :: "tlv_map option \<Rightarrow> (tlv_err, bytes) result" where
  "MustEncodeMap mp = (case mp of None \<Rightarrow> Panic PanicNilDeref
     | Some m \<Rightarrow> MustEncode (Value TypeMap (DMap m)))"

section \<open>Decoding\<close>

definition MaxDecodeDepth :: nat where "MaxDecodeDepth = 64"

definition MaxNestedPayload :: u64 where "MaxNestedPayload = 524288"

text \<open>\<^verbatim>\<open>buf[lo:hi]\<close> panics when the bounds are out of order or out of range.\<close>

definition go_slice :: "bytes \<Rightarrow> nat \<Rightarrow> nat \<Rightarrow> ('e, bytes) result" where
  "go_slice b lo hi =
     (if lo \<le> hi \<and> hi \<le> length b then Ok (take (hi - lo) (drop lo b)) else Panic PanicSliceBounds)"

definition decode_fixed :: "byte \<Rightarrow> nat \<Rightarrow> (bytes \<Rightarrow> Value) \<Rightarrow> bytes \<Rightarrow> (tlv_err, Value) result" where
  "decode_fixed t k f payload =
     (if length payload < k then Err (TlvNeeds t k) else Ok (f (take k payload)))"

text \<open>
  The part of \<^verbatim>\<open>decodeValueBytes\<close> before the recursive call: the type, the payload slice
  and the number of bytes the value takes, or the error.
\<close>

definition decodeHeader :: "bytes \<Rightarrow> (tlv_err, byte \<times> bytes \<times> nat) result" where
  "decodeHeader buf =
     (case buf of [] \<Rightarrow> Err TlvUnexpectedEOF
      | t # rest \<Rightarrow>
         (case uvarint rest of (len, n) \<Rightarrow>
           if len > MaxNestedPayload then Err (TlvTooLarge len)
           else if n \<le> 0 then Err TlvBadVarint
           else let start = (of_int (1 + n) :: u64) in
             if (of_nat (length buf) :: u64) < start + len then Err TlvUnexpectedEOF
             else rbind (go_slice buf (unat start) (unat (start + len))) (\<lambda>payload.
               Ok (t, payload, unat (start + len)))))"

lemma go_slice_Ok_iff:
  "go_slice b lo hi = Ok p \<longleftrightarrow> lo \<le> hi \<and> hi \<le> length b \<and> p = take (hi - lo) (drop lo b)"
  by (auto simp: go_slice_def)

lemma decodeHeader_length:
  assumes "decodeHeader buf = Ok (t, p, n)"
  shows "length p + 2 \<le> n \<and> n \<le> length buf"
proof -
  obtain rest len k where *: "buf = t # rest" "uvarint rest = (len, k)" "0 < k"
    "len \<le> MaxNestedPayload" "unat (of_int (1 + k) :: u64) \<le> unat (of_int (1 + k) + len)"
    "n = unat (of_int (1 + k) + len)" "n \<le> length buf"
    "p = take (n - unat (of_int (1 + k) :: u64)) (drop (unat (of_int (1 + k) :: u64)) buf)"
    using assms by (auto simp: decodeHeader_def Let_def go_slice_Ok_iff not_less
        split: list.splits prod.splits if_splits)
  have "k \<le> 10" using uvarint_bounds(2) * by blast
  then have "uint (of_int (1 + k) :: u64) = 1 + k"
    using *(3) by (simp add: unsigned_of_int take_bit_int_eq_self del: of_int_add)
  then have "2 \<le> unat (of_int (1 + k) :: u64)"
    using *(3) by (simp add: unat_eq_nat_uint)
  with * show ?thesis by auto
qed

function decodeValue :: "byte \<Rightarrow> bytes \<Rightarrow> nat \<Rightarrow> (tlv_err, Value) result"
  and decodeArray :: "Value list \<Rightarrow> bytes \<Rightarrow> nat \<Rightarrow> (tlv_err, Value list) result"
  and decodeMapEntries :: "tlv_map \<Rightarrow> bytes \<Rightarrow> nat \<Rightarrow> (tlv_err, tlv_map) result" where
  "decodeValue t payload depth =
     (if depth > MaxDecodeDepth then Err (TlvDepth depth)
      else if t = TypeString then Ok (VString (string_of_bytes payload))
      else if t = TypeBytes then Ok (VBytes payload)
      else if t = TypeUint8 then decode_fixed t 1 (\<lambda>p. VUint8 (hd p)) payload
      else if t = TypeUint16 then decode_fixed t 2 (\<lambda>p. VUint16 (get_be p)) payload
      else if t = TypeUint32 then decode_fixed t 4 (\<lambda>p. VUint32 (get_be p)) payload
      else if t = TypeUint64 then decode_fixed t 8 (\<lambda>p. VUint64 (get_be p)) payload
      else if t = TypeInt32 then decode_fixed t 4 (\<lambda>p. VInt32 (get_be p)) payload
      else if t = TypeInt64 then decode_fixed t 8 (\<lambda>p. VInt64 (get_be p)) payload
      else if t = TypeFloat32 then decode_fixed t 4 (\<lambda>p. VFloat32 (get_be p)) payload
      else if t = TypeFloat64 then decode_fixed t 8 (\<lambda>p. VFloat64 (get_be p)) payload
      else if t = TypeBool then decode_fixed t 1 (\<lambda>p. VBool (hd p \<noteq> 0)) payload
      else if t = TypeNull then Ok VNull
      else if t = TypeTimestamp then
        decode_fixed t 8 (\<lambda>p. VTimestamp (time_UnixMilli (get_be p))) payload
      else if t = TypeArray then rbind (decodeArray [] payload depth) (\<lambda>elems. Ok (VArray elems))
      else if t = TypeMap then
        rbind (decodeMapEntries NewMap payload depth) (\<lambda>m. Ok (Value TypeMap (DMap m)))
      else Err (TlvUnknownType t))"
| "decodeArray elems buf depth =
     (if buf = [] then Ok elems
      else rbind (decodeHeader buf) (\<lambda>(t, p, n).
           rbind (decodeValue t p (depth + 1)) (\<lambda>v.
             decodeArray (elems @ [v]) (drop n buf) depth)))"
| "decodeMapEntries m buf depth =
     (if buf = [] then Ok m
      else rbind (decodeHeader buf) (\<lambda>(t, p, n).
           rbind (decodeValue t p (depth + 1 + 1)) (\<lambda>key.
             if Typ key \<noteq> TypeString then Err (TlvKeyNotString (Typ key))
             else if drop n buf = [] then rbind (Value_String key) (\<lambda>k. Err (TlvMissingValue k))
             else rbind (decodeHeader (drop n buf)) (\<lambda>(t2, p2, n2).
                  rbind (decodeValue t2 p2 (depth + 1 + 1)) (\<lambda>val.
                  rbind (Value_String key) (\<lambda>k.
                    decodeMapEntries (map_set m k val) (drop n2 (drop n buf)) depth))))))"
  by pat_completeness auto
termination
  by (relation "measure (\<lambda>x. case x of
        Inl (t, p, d) \<Rightarrow> 2 * length p + 1
      | Inr (Inl (es, b, d)) \<Rightarrow> 2 * length b
      | Inr (Inr (m, b, d)) \<Rightarrow> 2 * length b)")
    (auto dest!: decodeHeader_length)

declare decodeValue.simps [simp del] decodeArray.simps [simp del] decodeMapEntries.simps [simp del]

definition decodeValueBytes :: "bytes \<Rightarrow> nat \<Rightarrow> (tlv_err, Value \<times> nat) result" where
  "decodeValueBytes buf depth =
     rbind (decodeHeader buf) (\<lambda>(t, p, n). rbind (decodeValue t p (depth + 1)) (\<lambda>v. Ok (v, n)))"

text \<open>The container loops in the shape of the source, one \<^verbatim>\<open>decodeValueBytes\<close> per element.\<close>

lemma decodeArray_loop:
  "decodeArray elems buf depth =
     (if buf = [] then Ok elems
      else rbind (decodeValueBytes buf depth) (\<lambda>(v, n).
        decodeArray (elems @ [v]) (drop n buf) depth))"
  by (subst decodeArray.simps)
    (auto simp: decodeValueBytes_def rbind_assoc case_prod_beta intro!: rbind_cong)

lemma decodeMapEntries_loop:
  "decodeMapEntries m buf depth =
     (if buf = [] then Ok m
      else rbind (decodeValueBytes buf (depth + 1)) (\<lambda>(key, n).
        if Typ key \<noteq> TypeString then Err (TlvKeyNotString (Typ key))
        else if drop n buf = [] then rbind (Value_String key) (\<lambda>k. Err (TlvMissingValue k))
        else rbind (decodeValueBytes (drop n buf) (depth + 1)) (\<lambda>(val, n2).
             rbind (Value_String key) (\<lambda>k.
               decodeMapEntries (map_set m k val) (drop n2 (drop n buf)) depth))))"
  by (subst decodeMapEntries.simps)
    (auto simp: decodeValueBytes_def rbind_assoc case_prod_beta intro!: rbind_cong)

text \<open>
  \<^verbatim>\<open>DecodeBytes\<close> computes the end of the payload in 64-bit arithmetic, without the size
  limit that nested values have.
\<close>

definition DecodeBytes :: "bytes \<Rightarrow> (tlv_err, Value) result" where
  "DecodeBytes buf =
     (case buf of [] \<Rightarrow> Err TlvUnexpectedEOF
      | t # rest \<Rightarrow>
         (case uvarint rest of (len, n) \<Rightarrow>
           if n \<le> 0 then Err TlvBadVarint
           else let payloadStart = 1 + (of_int n :: u64) in
             if (of_nat (length buf) :: u64) < payloadStart + len then Err TlvUnexpectedEOF
             else rbind (go_slice buf (unat payloadStart) (unat (payloadStart + len)))
               (\<lambda>payload. decodeValue t payload 0)))"

definition MustDecode :: "bytes \<Rightarrow> (tlv_err, Value) result" where
  "MustDecode buf = (case DecodeBytes buf of Err e \<Rightarrow> Panic PanicMustDecode | r \<Rightarrow> r)"

definition DecodeMap :: "bytes \<Rightarrow> (tlv_err, tlv_map) result" where
  "DecodeMap buf = rbind (DecodeBytes buf) (\<lambda>v.
     if Typ v \<noteq> TypeMap then Err (TlvExpectedMap (Typ v)) else Value_Map v)"

section \<open>Decoding from a stream\<close>

text \<open>
  The stream is the content of the \<^verbatim>\<open>bufio.Reader\<close>, which reads ahead of the decoder.
\<close>

definition decodeReader :: "(stream, tlv_err, Value) io" where
  "decodeReader br =
     sbind (swrap TlvReadType (ReadByte br)) (\<lambda>t br.
       case ReadUvarint br of ((len, err), br) \<Rightarrow>
         if len > MaxNestedPayload then (Err (TlvTooLarge len), br)
         else case err of Some e \<Rightarrow> (Err (TlvReadLength e), br)
         | None \<Rightarrow>
             sbind (if len > 0 then swrap TlvReadPayload (ReadFull (unat len) br) else (Ok [], br))
               (\<lambda>payload br. (decodeValue t payload 0, br)))"

definition Decode :: "(stream, tlv_err, Value) io" where
  "Decode r = decodeReader r"

text \<open>\<^verbatim>\<open>errors.Is(err, io.EOF)\<close> follows the wrapped errors.\<close>

fun is_EOF :: "tlv_err \<Rightarrow> bool" where
  "is_EOF (TlvReadType e) = (e = EOF)"
| "is_EOF (TlvReadLength e) = (e = EOF)"
| "is_EOF (TlvReadPayload e) = (e = EOF)"
| "is_EOF _ = False"

lemma ReadUvarint_loop_sin_le:
  "length (sin (snd (ReadUvarint_loop i x s r))) \<le> length (sin r)"
proof (induction i x s r rule: ReadUvarint_loop.induct)
  case (1 i x s r)
  show ?case
  proof (cases "sin r")
    case Nil
    then show ?thesis
      by (simp add: ReadUvarint_loop.simps [of i x s r] ReadByte_def)
  next
    case (Cons b bs)
    let ?r = "r\<lparr>sin := bs\<rparr>"
    have rb: "ReadByte r = (Ok b, ?r)" using Cons by (simp add: ReadByte_def)
    show ?thesis
    proof (cases "i \<ge> 10 \<or> b < 0x80")
      case True
      then show ?thesis
        using rb Cons by (auto simp: ReadUvarint_loop.simps [of i x s r])
    next
      case False
      then show ?thesis
        using "1.IH" [OF _ rb [symmetric] refl] rb Cons
        by (simp add: ReadUvarint_loop.simps [of i x s r])
    qed
  qed
qed

lemma decodeReader_shorter:
  assumes "decodeReader r = (Ok v, r')"
  shows "length (sin r') < length (sin r)"
proof -
  obtain t bs where t: "sin r = t # bs" and rb: "ReadByte r = (Ok t, r\<lparr>sin := bs\<rparr>)"
    using assms by (cases "sin r") (auto simp: decodeReader_def ReadByte_def)
  obtain len err r2 where ru: "ReadUvarint (r\<lparr>sin := bs\<rparr>) = ((len, err), r2)"
    by (metis surj_pair)
  then have "length (sin r2) \<le> length bs"
    using ReadUvarint_loop_sin_le [of 0 0 0 "r\<lparr>sin := bs\<rparr>"] by (simp add: ReadUvarint_def)
  moreover have "length (sin r') \<le> length (sin r2)"
    using assms rb ru
    by (auto simp: decodeReader_def ReadFull_def sbind_eq_Ok_iff split: if_splits option.splits)
  ultimately show ?thesis using t by simp
qed

function DecodeAll_loop :: "Value list \<Rightarrow> (stream, tlv_err, Value list) io" where
  "DecodeAll_loop vals br =
     (case decodeReader br of
        (Ok v, br') \<Rightarrow> DecodeAll_loop (vals @ [v]) br'
      | (Err e, br') \<Rightarrow> if is_EOF e then (Ok vals, br') else (Err e, br')
      | (Panic p, br') \<Rightarrow> (Panic p, br'))"
  by pat_completeness auto
termination
  by (relation "measure (\<lambda>(vals, br). length (sin br))") (auto dest: decodeReader_shorter sym)

declare DecodeAll_loop.simps [simp del]

definition DecodeAll :: "(stream, tlv_err, Value list) io" where
  "DecodeAll r = DecodeAll_loop [] r"

end
