(* ===== verification/Tlv_Roundtrip.thy ===== *)
theory Tlv_Roundtrip
  imports Tlv_Codec
begin

text \<open>
  What the TLV codec promises. \<open>enc\<close> is the wire format written as a plain recursive
  function on values; the encoder of the source refines it. Decoding an encoding gives the
  value back (with timestamps cut to milliseconds) exactly when the value keeps within the
  decoder's limits; whatever the decoder returns is well formed, within the limits and
  decodes from its own encoding; no input makes the nested decoder panic.
\<close>

section \<open>The wire format as a specification\<close>

fun enc :: "Value \<Rightarrow> bytes" and encp :: "dyn \<Rightarrow> bytes" where
  "enc (Value t d) = t # put_uvarint (of_nat (length (encp d))) @ encp d"
| "encp DNil = []"
| "encp (DString s) = bytes_of_string s"
| "encp (DBytes b) = b"
| "encp (DUint8 n) = [n]"
| "encp (DUint16 n) = put_be 2 n"
| "encp (DUint32 n) = put_be 4 n"
| "encp (DUint64 n) = put_be 8 n"
| "encp (DInt32 n) = put_be 4 n"
| "encp (DInt64 n) = put_be 8 n"
| "encp (DFloat32 n) = put_be 4 n"
| "encp (DFloat64 n) = put_be 8 n"
| "encp (DBool b) = (if b then [1] else [0])"
| "encp (DTime t) = put_be 8 (UnixMilli t)"
| "encp (DArray vs) = concat (map enc vs)"
| "encp (DMap es) = concat (map (\<lambda>(k, v). enc (Value TypeString (DString k)) @ enc v) es)"

definition enc_entries :: "tlv_map \<Rightarrow> bytes" where
  "enc_entries es = concat (map (\<lambda>(k, v). enc (Value TypeString (DString k)) @ enc v) es)"

lemma encp_DMap: "encp (DMap es) = enc_entries es"
  by (simp add: enc_entries_def)

lemma enc_entries_simps [simp]:
  "enc_entries [] = []"
  "enc_entries ((k, v) # es) = (enc (VString k) @ enc v) @ enc_entries es"
  by (simp_all add: enc_entries_def VString_def)

lemma enc_def': "enc v = Typ v # put_uvarint (of_nat (length (encp (data v)))) @ encp (data v)"
  by (cases v) simp

text \<open>Timestamps lose what is below a millisecond.\<close>

fun norm :: "Value \<Rightarrow> Value" and norm_dyn :: "dyn \<Rightarrow> dyn" where
  "norm (Value t d) = Value t (norm_dyn d)"
| "norm_dyn (DTime t) = DTime (time_UnixMilli (UnixMilli t))"
| "norm_dyn (DArray vs) = DArray (map norm vs)"
| "norm_dyn (DMap es) = DMap (map (\<lambda>(k, v). (k, norm v)) es)"
| "norm_dyn d = d"

text \<open>
  The decoder's limits, for a value decoded at \<open>depth\<close>: an array element is one level
  deeper, a map entry two, and every nested payload has at most \<open>MaxNestedPayload\<close> bytes.
\<close>

definition small :: "bytes \<Rightarrow> bool" where
  "small p \<longleftrightarrow> length p \<le> 524288"

fun fits :: "nat \<Rightarrow> Value \<Rightarrow> bool" and fits_dyn :: "nat \<Rightarrow> dyn \<Rightarrow> bool" where
  "fits depth (Value t d) \<longleftrightarrow> depth \<le> MaxDecodeDepth \<and> fits_dyn depth d"
| "fits_dyn depth (DArray vs) \<longleftrightarrow> (\<forall>v \<in> set vs. small (encp (data v)) \<and> fits (depth + 1) v)"
| "fits_dyn depth (DMap es) \<longleftrightarrow> (\<forall>(k, v) \<in> set es.
      length k \<le> 524288 \<and> depth + 2 \<le> MaxDecodeDepth \<and> small (encp (data v)) \<and> fits (depth + 2) v)"
| "fits_dyn depth d \<longleftrightarrow> True"

section \<open>The encoder refines the specification\<close>

lemma marshalValue_payload:
  "marshalPayload v = Ok (encp (data v)) \<Longrightarrow> marshalValue v = Ok (enc v)"
  by (simp add: marshalValue_def with_header_def enc_def')

lemma marshalElems_enc:
  "(\<And>v. v \<in> set vs \<Longrightarrow> marshalValue v = Ok (enc v)) \<Longrightarrow>
   marshalElems buf vs = Ok (buf @ concat (map enc vs))"
  by (induction vs arbitrary: buf) (simp_all add: marshalElems_loop)

lemma marshalValue_VString: "marshalValue (VString s) = Ok (enc (VString s))"
  by (rule marshalValue_payload) (simp add: marshalPayload.simps VString_def Value_String_def)

lemma marshalEntries_enc:
  "(\<And>k v. (k, v) \<in> set es \<Longrightarrow> marshalValue v = Ok (enc v)) \<Longrightarrow>
   marshalEntries buf es = Ok (buf @ enc_entries es)"
proof (induction es arbitrary: buf)
  case (Cons e es)
  obtain k v where e: "e = (k, v)" by (cases e)
  from Cons.prems [of k v] e have "marshalValue v = Ok (enc v)" by simp
  moreover have "marshalEntries b es = Ok (b @ enc_entries es)" for b
    using Cons by (metis list.set_intros(2))
  ultimately show ?case
    by (simp add: e marshalEntries_loop [of _ "_ # _"] marshalValue_VString)
qed (simp add: marshalEntries_loop)

lemma marshalValue_enc:
  "wf_value v \<Longrightarrow> marshalValue v = Ok (enc v)"
  "wf_dyn d \<Longrightarrow> marshalPayload (Value (tag_of d) d) = Ok (encp d)"
proof (induction v and d rule: wf_value_wf_dyn.induct)
  case (1 t d)
  then show ?case by (auto simp: marshalValue_def with_header_def)
next
  case (2 vs)
  then show ?case
    by (auto simp: marshalPayload.simps type_codes Value_Array_def marshalElems_enc)
next
  case (3 es)
  then have "marshalEntries [] es = Ok (enc_entries es)"
    using marshalEntries_enc [of es "[]"] by fastforce
  then show ?case
    by (simp add: marshalPayload.simps type_codes Value_Map_def enc_entries_def)
qed (simp_all add: marshalPayload.simps type_codes value_accessors)

section \<open>Decoding headers\<close>

lemma unat_of_nat_u64: "n < 2 ^ 64 \<Longrightarrow> unat (of_nat n :: u64) = n"
  by (simp add: unsigned_of_nat take_bit_nat_eq_self)

lemma length_enc: "length (enc v) = 1 + length (put_uvarint (of_nat (length (encp (data v))))) + length (encp (data v))"
  by (simp add: enc_def')

lemma length_put_uvarint_bounds: "0 < length (put_uvarint x)" "length (put_uvarint x) \<le> 10"
  using uvarint_bounds(2) [of "put_uvarint x" x "int (length (put_uvarint x))"]
    uvarint_put_uvarint [of x "[]"] by auto

lemma decodeHeader_enc:
  assumes "length (enc v @ rest) < 2 ^ 64"
  shows "decodeHeader (enc v @ rest) =
     (if small (encp (data v)) then Ok (Typ v, encp (data v), length (enc v))
      else Err (TlvTooLarge (of_nat (length (encp (data v))))))"
proof -
  define p where "p = encp (data v)"
  define h where "h = put_uvarint (of_nat (length p))"
  have enc: "enc v = Typ v # h @ p"
    by (simp add: enc_def' h_def p_def)
  have hl: "0 < length h" "length h \<le> 10"
    unfolding h_def by (rule length_put_uvarint_bounds)+
  have uv: "uvarint (h @ p @ rest) = (of_nat (length p), int (length h))"
    unfolding h_def by (rule uvarint_put_uvarint)
  have "length p < 2 ^ 64" using assms enc by simp
  then have ulen: "unat (of_nat (length p) :: u64) = length p"
    by (rule unat_of_nat_u64)
  have sm: "(of_nat (length p) :: u64) > MaxNestedPayload \<longleftrightarrow> \<not> small p"
    by (simp add: word_less_nat_alt ulen MaxNestedPayload_def small_def not_le)
  have st: "(of_int (1 + int (length h)) :: u64) = of_nat (Suc (length h))"
    by simp
  have ustart: "unat (of_nat (Suc (length h)) :: u64) = Suc (length h)"
    using hl by (intro unat_of_nat_u64) simp
  have en: "(of_nat (Suc (length h)) + of_nat (length p) :: u64) = of_nat (length (enc v))"
    by (simp add: enc)
  have uend: "unat (of_nat (length (enc v)) :: u64) = length (enc v)"
    using assms by (intro unat_of_nat_u64) simp
  have ubuf: "unat (of_nat (length (enc v @ rest)) :: u64) = length (enc v @ rest)"
    using assms by (rule unat_of_nat_u64)
  have "\<not> (of_nat (length (enc v @ rest)) :: u64) < of_nat (length (enc v))"
    unfolding word_less_nat_alt uend ubuf by simp
  moreover have "(go_slice (enc v @ rest) (Suc (length h)) (length (enc v)) :: (tlv_err, bytes) result) = Ok p"
    by (simp add: go_slice_def enc)
  ultimately have "decodeHeader (enc v @ rest) =
     (if small p then Ok (Typ v, p, length (enc v)) else Err (TlvTooLarge (of_nat (length p))))"
    unfolding decodeHeader_def using hl uv sm uend
    by (simp add: enc Let_def st en [unfolded enc] ustart del: of_int_add of_nat_Suc)
  then show ?thesis by (simp add: p_def)
qed

section \<open>Decoding an encoding\<close>

lemma decodeArray_enc:
  assumes "length (concat (map enc vs)) < 2 ^ 64"
    and "\<And>v w. v \<in> set vs \<Longrightarrow>
      decodeValue (Typ v) (encp (data v)) (depth + 1) = Ok w \<longleftrightarrow> fits (depth + 1) v \<and> w = norm v"
  shows "decodeArray es (concat (map enc vs)) depth = Ok r \<longleftrightarrow>
     (\<forall>v \<in> set vs. small (encp (data v)) \<and> fits (depth + 1) v) \<and> r = es @ map norm vs"
  using assms
proof (induction vs arbitrary: es)
  case Nil
  then show ?case by (auto simp: decodeArray.simps)
next
  case (Cons v vs)
  let ?rest = "concat (map enc vs)"
  have hd: "decodeHeader (enc v @ ?rest) =
     (if small (encp (data v)) then Ok (Typ v, encp (data v), length (enc v))
      else Err (TlvTooLarge (of_nat (length (encp (data v))))))"
    using Cons.prems(1) by (intro decodeHeader_enc) simp
  have ne: "enc v @ ?rest \<noteq> []" by (simp add: enc_def')
  have "decodeArray es (enc v @ ?rest) depth = Ok r \<longleftrightarrow>
      small (encp (data v)) \<and> fits (depth + 1) v \<and>
      decodeArray (es @ [norm v]) ?rest depth = Ok r"
    using ne Cons.prems(2) [of v] by (subst decodeArray.simps) (auto simp: hd)
  also have "decodeArray (es @ [norm v]) ?rest depth = Ok r \<longleftrightarrow>
      (\<forall>v \<in> set vs. small (encp (data v)) \<and> fits (depth + 1) v) \<and> r = (es @ [norm v]) @ map norm vs"
    using Cons.prems by (intro Cons.IH) auto
  finally show ?case by auto
qed

lemma decodeValue_VString:
  "decodeValue TypeString (bytes_of_string s) depth =
     (if depth > MaxDecodeDepth then Err (TlvDepth depth) else Ok (VString s))"
  by (simp add: decodeValue.simps)

lemma decodeMapEntries_enc:
  assumes "length (enc_entries es) < 2 ^ 64"
    and "\<And>k v w. (k, v) \<in> set es \<Longrightarrow>
      decodeValue (Typ v) (encp (data v)) (depth + 2) = Ok w \<longleftrightarrow> fits (depth + 2) v \<and> w = norm v"
    and "distinct (map fst m @ map fst es)"
  shows "decodeMapEntries m (enc_entries es) depth = Ok r \<longleftrightarrow>
     (\<forall>(k, v) \<in> set es. length k \<le> 524288 \<and> depth + 2 \<le> MaxDecodeDepth \<and>
        small (encp (data v)) \<and> fits (depth + 2) v) \<and>
     r = m @ map (\<lambda>(k, v). (k, norm v)) es"
  using assms
proof (induction es arbitrary: m)
  case Nil
  then show ?case by (auto simp: decodeMapEntries.simps)
next
  case (Cons e es)
  obtain k v where e: "e = (k, v)" by (cases e)
  let ?rest = "enc_entries es"
  have hk: "decodeHeader (enc (VString k) @ enc v @ ?rest) =
     (if length k \<le> 524288 then Ok (TypeString, bytes_of_string k, length (enc (VString k)))
      else Err (TlvTooLarge (of_nat (length k))))"
    using Cons.prems(1) e decodeHeader_enc [of "VString k" "enc v @ ?rest"]
    by (simp add: VString_def small_def)
  have hv: "decodeHeader (enc v @ ?rest) =
     (if small (encp (data v)) then Ok (Typ v, encp (data v), length (enc v))
      else Err (TlvTooLarge (of_nat (length (encp (data v))))))"
    using Cons.prems(1) e by (intro decodeHeader_enc) simp
  have ne: "enc (VString k) @ enc v @ ?rest \<noteq> []" "enc v @ ?rest \<noteq> []"
    by (simp_all add: enc_def')
  have new: "map_set m k (norm v) = m @ [(k, norm v)]"
    using Cons.prems(3) e by (intro map_set_new) auto
  have "decodeMapEntries m (enc (VString k) @ enc v @ ?rest) depth = Ok r \<longleftrightarrow>
      length k \<le> 524288 \<and> depth + 2 \<le> MaxDecodeDepth \<and> small (encp (data v)) \<and> fits (depth + 2) v \<and>
      decodeMapEntries (m @ [(k, norm v)]) ?rest depth = Ok r"
    using ne Cons.prems(2) [of k v] e
    by (subst decodeMapEntries.simps)
      (auto simp: hk hv decodeValue_VString new)
  also have "decodeMapEntries (m @ [(k, norm v)]) ?rest depth = Ok r \<longleftrightarrow>
     (\<forall>(k, v) \<in> set es. length k \<le> 524288 \<and> depth + 2 \<le> MaxDecodeDepth \<and>
        small (encp (data v)) \<and> fits (depth + 2) v) \<and>
     r = (m @ [(k, norm v)]) @ map (\<lambda>(k, v). (k, norm v)) es"
    using Cons.prems e by (intro Cons.IH) auto
  finally show ?case using e by auto
qed

lemma encp_le_enc: "length (encp (data v)) < length (enc v)"
  by (simp add: enc_def')

lemma elem_le_concat: "x \<in> set xs \<Longrightarrow> length (f x) \<le> length (concat (map f xs))"
  by (induction xs) auto

lemma elem_payload_less:
  assumes "length (concat (map enc vs)) < 2 ^ 64" "v \<in> set vs"
  shows "length (encp (data v)) < 2 ^ 64"
  using elem_le_concat [OF assms(2), of enc] encp_le_enc [of v] assms(1) by linarith

lemma entry_payload_less:
  assumes "length (enc_entries es) < 2 ^ 64" "(k, v) \<in> set es"
  shows "length (encp (data v)) < 2 ^ 64"
  using elem_le_concat [OF assms(2), of "\<lambda>(k, v). enc (Value TypeString (DString k)) @ enc v"]
    encp_le_enc [of v] assms(1) by (simp add: enc_entries_def)

lemma get_be_put_be_1 [simp]:
  "get_be (put_be 2 (w16 :: u16)) = w16" "get_be (put_be 4 (w32 :: u32)) = w32"
  "get_be (put_be 8 (w64 :: u64)) = w64"
  by (rule be_wire)+

lemma decodeValue_enc:
  "wf_value v \<Longrightarrow> length (encp (data v)) < 2 ^ 64 \<Longrightarrow>
     decodeValue (Typ v) (encp (data v)) depth = Ok w \<longleftrightarrow> fits depth v \<and> w = norm v"
  "wf_dyn d \<Longrightarrow> length (encp d) < 2 ^ 64 \<Longrightarrow>
     decodeValue (tag_of d) (encp d) depth = Ok w \<longleftrightarrow>
       depth \<le> MaxDecodeDepth \<and> fits_dyn depth d \<and> w = Value (tag_of d) (norm_dyn d)"
proof (induction v and d arbitrary: depth w and depth w rule: wf_value_wf_dyn.induct)
  case (1 t d)
  then show ?case by auto
next
  case (2 vs)
  have "decodeArray [] (concat (map enc vs)) depth = Ok r \<longleftrightarrow>
      (\<forall>v \<in> set vs. small (encp (data v)) \<and> fits (depth + 1) v) \<and> r = [] @ map norm vs" for r
    using 2 elem_payload_less by (intro decodeArray_enc) auto
  then show ?case
    by (auto simp: decodeValue.simps type_codes VArray_def)
next
  case (3 es)
  have len: "length (enc_entries es) < 2 ^ 64"
    using "3.prems"(2) by (simp add: encp_DMap del: encp.simps)
  have "decodeMapEntries NewMap (enc_entries es) depth = Ok r \<longleftrightarrow>
     (\<forall>(k, v) \<in> set es. length k \<le> 524288 \<and> depth + 2 \<le> MaxDecodeDepth \<and>
        small (encp (data v)) \<and> fits (depth + 2) v) \<and>
     r = NewMap @ map (\<lambda>(k, v). (k, norm v)) es" for r
    using 3 len entry_payload_less [OF len]
    by (intro decodeMapEntries_enc) (auto simp: NewMap_def split: prod.splits)
  then show ?case
    by (auto simp: decodeValue.simps encp_DMap type_codes NewMap_def simp del: encp.simps)
qed (auto simp: decodeValue.simps decode_fixed_def value_constructors type_codes)

section \<open>Well-formed results\<close>

lemma decodeValue_containers:
  "decodeValue TypeArray p depth =
     (if depth > MaxDecodeDepth then Err (TlvDepth depth)
      else rbind (decodeArray [] p depth) (\<lambda>elems. Ok (VArray elems)))"
  "decodeValue TypeMap p depth =
     (if depth > MaxDecodeDepth then Err (TlvDepth depth)
      else rbind (decodeMapEntries NewMap p depth) (\<lambda>m. Ok (Value TypeMap (DMap m))))"
  by (simp_all add: decodeValue.simps type_codes)

text \<open>Inversion of a successful step of the container loops.\<close>

lemma decodeArray_OkE:
  assumes "decodeArray es b depth = Ok vs"
  obtains "b = []" "vs = es"
  | t p n v where "b \<noteq> []" "decodeHeader b = Ok (t, p, n)" "decodeValue t p (depth + 1) = Ok v"
      "decodeArray (es @ [v]) (drop n b) depth = Ok vs"
  using assms by (subst (asm) decodeArray.simps) (auto split: if_splits)

lemma decodeMapEntries_OkE:
  assumes "decodeMapEntries m b depth = Ok r"
  obtains "b = []" "r = m"
  | t p n key t2 p2 n2 k v where "b \<noteq> []" "decodeHeader b = Ok (t, p, n)"
      "decodeValue t p (depth + 1 + 1) = Ok key" "Typ key = TypeString" "drop n b \<noteq> []"
      "decodeHeader (drop n b) = Ok (t2, p2, n2)" "decodeValue t2 p2 (depth + 1 + 1) = Ok v"
      "Value_String key = Ok k"
      "decodeMapEntries (map_set m k v) (drop n2 (drop n b)) depth = Ok r"
  using assms by (subst (asm) decodeMapEntries.simps) (fastforce split: if_splits)

lemma decode_scalar_wf:
  assumes "decodeValue t p depth = Ok v" "t \<noteq> TypeArray" "t \<noteq> TypeMap"
  shows "wf_value v \<and> Typ v = t"
  using assms by (auto simp: decodeValue.simps decode_fixed_def split: if_splits)
    (simp_all add: value_constructors)

lemma decode_wf:
  "decodeValue t p depth = Ok v \<Longrightarrow> wf_value v \<and> Typ v = t"
  "decodeArray es b depth = Ok vs \<Longrightarrow> (\<forall>v \<in> set es. wf_value v) \<Longrightarrow> (\<forall>v \<in> set vs. wf_value v)"
  "decodeMapEntries m b depth = Ok r \<Longrightarrow> wf_map m \<Longrightarrow> wf_map r"
proof (induction t p depth and es b depth and m b depth arbitrary: v and vs and r
    rule: decodeValue_decodeArray_decodeMapEntries.induct)
  case (1 t p depth)
  consider "t = TypeArray" | "t = TypeMap" | "t \<noteq> TypeArray" "t \<noteq> TypeMap" by blast
  then show ?case
  proof cases
    case 1
    with "1.IH"(1) "1.prems" show ?thesis
      by (auto simp: decodeValue_containers split: if_splits)
  next
    case 2
    with "1.IH"(2) "1.prems" show ?thesis
      by (auto simp: decodeValue_containers wf_map_def NewMap_def split: if_splits)
  next
    case 3
    with "1.prems" show ?thesis by (blast dest: decode_scalar_wf)
  qed
next
  case (2 es b depth)
  note IH = "2.IH" and wf = "2.prems"(2)
  from "2.prems"(1) show ?case
  proof (cases rule: decodeArray_OkE)
    case 1
    with wf show ?thesis by simp
  next
    case (2 t p n v)
    from IH(1) [OF 2(1,2) refl refl 2(3)] have "\<forall>a \<in> set (es @ [v]). wf_value a"
      using wf by simp
    from IH(2) [OF 2(1,2) refl refl 2(3,4) this] show ?thesis .
  qed
next
  case (3 m b depth)
  note IH = "3.IH" and wf = "3.prems"(2)
  from "3.prems"(1) show ?case
  proof (cases rule: decodeMapEntries_OkE)
    case 1
    with wf show ?thesis by simp
  next
    case (2 t p n key t2 p2 n2 k v)
    from 2(4) have key: "\<not> Typ key \<noteq> TypeString" by simp
    from IH(2) [OF 2(1,2) refl refl 2(3) key 2(5,6) refl refl 2(7)]
    have "wf_map (map_set m k v)"
      using wf wf_map_set by blast
    from IH(3) [OF 2(1,2) refl refl 2(3) key 2(5,6) refl refl 2(7,8,9) this] show ?thesis .
  qed
qed

section \<open>No panics below the top level\<close>

lemma header_words:
  assumes "uvarint rest = (len, k)" "0 < k" "len \<le> MaxNestedPayload"
  shows "unat (of_int (1 + k) :: u64) = nat (1 + k)"
    and "unat (of_int (1 + k) + len :: u64) = nat (1 + k) + unat len"
proof -
  have k: "k \<le> 10" using uvarint_bounds(2) assms by blast
  have s: "(of_int (1 + k) :: u64) = of_nat (nat (1 + k))"
    using assms(2) by simp
  show 1: "unat (of_int (1 + k) :: u64) = nat (1 + k)"
    unfolding s using k by (intro unat_of_nat_u64) simp
  have "unat len \<le> 524288"
    using assms(3) by (simp add: word_le_nat_alt MaxNestedPayload_def)
  then show "unat (of_int (1 + k) + len :: u64) = nat (1 + k) + unat len"
    using k by (subst unat_plus_if') (auto simp: 1 simp del: of_int_add)
qed

lemma unat_of_nat_le: "unat (of_nat n :: u64) \<le> n"
  by (simp add: unsigned_of_nat)

lemma decodeHeader_no_panic: "\<not> is_panic (decodeHeader buf)"
proof (cases buf)
  case (Cons t rest)
  obtain len k where uv: "uvarint rest = (len, k)" by fastforce
  have "unat (of_int (1 + k) + len :: u64) \<le> length buf"
    if "\<not> (of_nat (length buf) :: u64) < of_int (1 + k) + len"
    using that unat_of_nat_le [of "length buf"] by (simp add: word_less_nat_alt not_less)
  then show ?thesis
    using header_words [OF uv] Cons uv
    by (auto simp: decodeHeader_def Let_def go_slice_def not_less simp del: of_int_add)
qed (simp add: decodeHeader_def)

lemma Value_String_no_panic: "wf_value v \<Longrightarrow> Typ v = TypeString \<Longrightarrow> \<not> is_panic (Value_String v)"
  by (cases v; cases "data v") (auto simp: Value_String_def type_codes)

lemma decode_no_panic:
  "\<not> is_panic (decodeValue t p depth)"
  "\<not> is_panic (decodeArray es b depth)"
  "\<not> is_panic (decodeMapEntries m b depth)"
proof (induction t p depth and es b depth and m b depth
    rule: decodeValue_decodeArray_decodeMapEntries.induct)
  case (1 t p depth)
  consider "t = TypeArray" | "t = TypeMap" | "t \<noteq> TypeArray" "t \<noteq> TypeMap" by blast
  then show ?case
  proof cases
    case 3
    then show ?thesis by (simp add: decodeValue.simps decode_fixed_def)
  qed (use "1.IH" in \<open>simp_all add: decodeValue_containers\<close>)
next
  case (2 es b depth)
  then show ?case
    by (subst decodeArray.simps) (auto simp: decodeHeader_no_panic)
next
  case (3 m b depth)
  then show ?case
    by (subst decodeMapEntries.simps)
      (auto simp: decodeHeader_no_panic dest: decode_wf(1) Value_String_no_panic)
qed

section \<open>Decoded values re-encode within the limits\<close>

lemma length_put_uvarint_mono:
  assumes "unat x \<le> unat y"
  shows "length (put_uvarint x) \<le> length (put_uvarint y)"
proof -
  obtain k where k: "length (put_uvarint y) = Suc k"
    using length_put_uvarint_bounds(1) [of y] by (metis gr0_implies_Suc)
  then have "unat y < 2 ^ (7 * Suc k)"
    using length_put_uvarint_le [of y k] by simp
  with assms have "unat x < 2 ^ (7 * Suc k)" by linarith
  with k show ?thesis using length_put_uvarint_le [of x k] by simp
qed

lemma decodeHeader_small:
  assumes "decodeHeader buf = Ok (t, p, n)"
  shows "small p" and "1 + length (put_uvarint (of_nat (length p))) + length p \<le> n"
proof -
  obtain rest len k where *: "buf = t # rest" "uvarint rest = (len, k)" "0 < k"
    "len \<le> MaxNestedPayload" "n = unat (of_int (1 + k) + len)" "n \<le> length buf"
    "p = take (n - unat (of_int (1 + k) :: u64)) (drop (unat (of_int (1 + k) :: u64)) buf)"
    using assms by (auto simp: decodeHeader_def Let_def go_slice_Ok_iff not_less
        split: list.splits prod.splits if_splits)
  note w = header_words [OF *(2,3,4)]
  have lp: "length p = unat len" and n: "n = nat (1 + k) + unat len"
    using * w by (simp_all del: of_int_add)
  show "small p"
    using *(4) lp by (simp add: small_def word_le_nat_alt MaxNestedPayload_def)
  have "length (put_uvarint len) \<le> nat k"
    using uvarint_bounds(3) [OF *(2,3)] by linarith
  then show "1 + length (put_uvarint (of_nat (length p))) + length p \<le> n"
    using n lp *(3) by simp
qed

lemma reencode_le:
  assumes "decodeHeader buf = Ok (t, p, n)" "length (encp (data v)) \<le> length p"
  shows "length (enc v) \<le> n \<and> small (encp (data v))"
proof -
  have "length p \<le> 524288" using decodeHeader_small(1) [OF assms(1)] by (simp add: small_def)
  with assms(2) have "length (put_uvarint (of_nat (length (encp (data v))))) \<le> length (put_uvarint (of_nat (length p)))"
    by (intro length_put_uvarint_mono) (simp add: unat_of_nat_u64)
  with decodeHeader_small [OF assms(1)] assms(2) show ?thesis
    by (simp add: length_enc small_def)
qed

lemma time_UnixMilli_stable [simp]: "time_UnixMilli (UnixMilli (time_UnixMilli w)) = time_UnixMilli w"
  by (simp add: time_UnixMilli_def UnixMilli_def)

lemma decode_scalar_stable:
  assumes "decodeValue t p depth = Ok v" "t \<noteq> TypeArray" "t \<noteq> TypeMap"
  shows "length (encp (data v)) \<le> length p \<and> fits depth v \<and> norm v = v"
  using assms by (auto simp: decodeValue.simps decode_fixed_def not_less split: if_splits)
    (simp_all add: value_constructors Suc_le_eq)

definition kept :: "nat \<Rightarrow> Value \<Rightarrow> bool" where
  "kept depth v \<longleftrightarrow> small (encp (data v)) \<and> fits depth v \<and> norm v = v"

lemma length_enc_entries_map_set:
  "length (enc_entries (map_set m k v)) \<le> length (enc_entries m) + length (enc (VString k)) + length (enc v)"
  by (induction m k v rule: map_set.induct) auto

lemma norm_map_id: "(\<And>v. v \<in> set vs \<Longrightarrow> norm v = v) \<Longrightarrow> map norm vs = vs"
  by (simp add: map_idI)

lemma decode_stable:
  "decodeValue t p depth = Ok v \<Longrightarrow> length (encp (data v)) \<le> length p \<and> fits depth v \<and> norm v = v"
  "decodeArray es b depth = Ok vs \<Longrightarrow> (\<forall>v \<in> set es. kept (depth + 1) v) \<Longrightarrow>
     length (concat (map enc vs)) \<le> length (concat (map enc es)) + length b \<and>
     (\<forall>v \<in> set vs. kept (depth + 1) v)"
  "decodeMapEntries m b depth = Ok r \<Longrightarrow>
     (\<forall>(k, v) \<in> set m. length k \<le> 524288 \<and> depth + 2 \<le> MaxDecodeDepth \<and> kept (depth + 2) v) \<Longrightarrow>
     length (enc_entries r) \<le> length (enc_entries m) + length b \<and>
     (\<forall>(k, v) \<in> set r. length k \<le> 524288 \<and> depth + 2 \<le> MaxDecodeDepth \<and> kept (depth + 2) v)"
proof (induction t p depth and es b depth and m b depth arbitrary: v and vs and r
    rule: decodeValue_decodeArray_decodeMapEntries.induct)
  case (1 t p depth)
  consider (arr) "t = TypeArray" | (mp) "t = TypeMap" | (sc) "t \<noteq> TypeArray" "t \<noteq> TypeMap" by blast
  then show ?case
  proof cases
    case arr
    with "1.prems" obtain vs where vs: "decodeArray [] p depth = Ok vs" "v = VArray vs"
        "depth \<le> MaxDecodeDepth"
      by (auto simp: decodeValue_containers split: if_splits)
    from "1.IH"(1) [of vs] arr vs have "length (concat (map enc vs)) \<le> length p"
      "\<forall>v \<in> set vs. kept (depth + 1) v" by simp_all
    with vs show ?thesis
      by (simp add: VArray_def kept_def norm_map_id)
  next
    case mp
    with "1.prems" obtain m where m: "decodeMapEntries NewMap p depth = Ok m"
        "v = Value TypeMap (DMap m)" "depth \<le> MaxDecodeDepth"
      by (auto simp: decodeValue_containers split: if_splits)
    from "1.IH"(2) [of m] mp m have "length (enc_entries m) \<le> length p"
      "\<forall>(k, v) \<in> set m. length k \<le> 524288 \<and> depth + 2 \<le> MaxDecodeDepth \<and> kept (depth + 2) v"
      by (simp_all add: NewMap_def)
    moreover from this have "map (\<lambda>(k, v). (k, norm v)) m = m"
      by (intro map_idI) (auto simp: kept_def)
    ultimately show ?thesis
      using m by (auto simp: encp_DMap kept_def simp del: encp.simps)
  next
    case sc
    with "1.prems" show ?thesis by (rule decode_scalar_stable)
  qed
next
  case (2 es b depth)
  note IH = "2.IH" and es = "2.prems"(2)
  from "2.prems"(1) show ?case
  proof (cases rule: decodeArray_OkE)
    case 1
    with es show ?thesis by simp
  next
    case (2 t p n v)
    note v = IH(1) [OF 2(1,2) refl refl 2(3)]
    note re = reencode_le [OF 2(2) conjunct1 [OF v]]
    from v re es have "\<forall>a \<in> set (es @ [v]). kept (depth + 1) a"
      by (auto simp: kept_def)
    from IH(2) [OF 2(1,2) refl refl 2(3,4) this] re show ?thesis
      using decodeHeader_length [OF 2(2)] by auto
  qed
next
  case (3 m b depth)
  note IH = "3.IH" and wf = "3.prems"(2)
  from "3.prems"(1) show ?case
  proof (cases rule: decodeMapEntries_OkE)
    case 1
    with wf show ?thesis by simp
  next
    case (2 t p n key t2 p2 n2 k v)
    from 2(4) have key: "\<not> Typ key \<noteq> TypeString" by simp
    from decode_wf(1) [OF 2(3)] 2(8) have kv: "key = VString k"
      by (cases key; cases "data key") (auto simp: Value_String_def VString_def)
    note k = IH(1) [OF 2(1,2) refl refl 2(3)]
    note v = IH(2) [OF 2(1,2) refl refl 2(3) key 2(5,6) refl refl 2(7)]
    note rk = reencode_le [OF 2(2) conjunct1 [OF k]]
    note rv = reencode_le [OF 2(6) conjunct1 [OF v]]
    have new: "\<forall>(k, v) \<in> set (map_set m k v).
        length k \<le> 524288 \<and> depth + 2 \<le> MaxDecodeDepth \<and> kept (depth + 2) v"
      using set_map_set [of m k v] wf rk rv k v kv
      by (fastforce simp: kept_def small_def VString_def)
    from IH(3) [OF 2(1,2) refl refl 2(3) key 2(5,6) refl refl 2(7,8,9) new]
    show ?thesis
      using decodeHeader_length [OF 2(2)] decodeHeader_length [OF 2(6)] rk rv kv
        length_enc_entries_map_set [of m k v] by auto
  qed
qed

section \<open>The top level\<close>

lemma DecodeBytes_enc:
  assumes "length (enc v @ rest) < 2 ^ 64"
  shows "DecodeBytes (enc v @ rest) = decodeValue (Typ v) (encp (data v)) 0"
proof -
  define p where "p = encp (data v)"
  define h where "h = put_uvarint (of_nat (length p))"
  have enc: "enc v = Typ v # h @ p"
    by (simp add: enc_def' h_def p_def)
  have hl: "0 < length h" "length h \<le> 10"
    unfolding h_def by (rule length_put_uvarint_bounds)+
  have uv: "uvarint (h @ p @ rest) = (of_nat (length p), int (length h))"
    unfolding h_def by (rule uvarint_put_uvarint)
  have st: "1 + (of_int (int (length h)) :: u64) = of_nat (Suc (length h))"
    by simp
  have ustart: "unat (of_nat (Suc (length h)) :: u64) = Suc (length h)"
    using hl by (intro unat_of_nat_u64) simp
  have en: "(of_nat (Suc (length h)) + of_nat (length p) :: u64) = of_nat (length (enc v))"
    by (simp add: enc)
  have uend: "unat (of_nat (length (enc v)) :: u64) = length (enc v)"
    using assms by (intro unat_of_nat_u64) simp
  have "\<not> (of_nat (length (enc v @ rest)) :: u64) < of_nat (length (enc v))"
    unfolding word_less_nat_alt uend unat_of_nat_u64 [OF assms] by simp
  moreover have "(go_slice (enc v @ rest) (Suc (length h)) (length (enc v)) :: (tlv_err, bytes) result) = Ok p"
    by (simp add: go_slice_def enc)
  ultimately have "DecodeBytes (enc v @ rest) = decodeValue (Typ v) p 0"
    unfolding DecodeBytes_def using hl uv uend
    by (simp add: enc Let_def st en [unfolded enc] ustart del: of_int_of_nat_eq of_nat_Suc)
  then show ?thesis by (simp add: p_def)
qed

lemma put_uvarint_short: "x < 0x80 \<Longrightarrow> put_uvarint x = [ucast x]"
  by (simp add: put_uvarint.simps [of x])

lemma unat_payloadStart:
  assumes "uvarint rest = (len, k)" "0 < k"
  shows "unat (1 + of_int k :: u64) = nat (1 + k)"
proof -
  have "k \<le> 10" using uvarint_bounds(2) [OF assms] .
  then have "unat (of_nat (nat (1 + k)) :: u64) = nat (1 + k)"
    by (intro unat_of_nat_u64) simp
  moreover have "1 + (of_int k :: u64) = of_nat (nat (1 + k))" using assms(2) by simp
  ultimately show ?thesis by simp
qed

lemma MustEncode_enc: "wf_value v \<Longrightarrow> MustEncode v = Ok (enc v)"
  by (simp add: MustEncode_def marshalValue_enc)

lemma DecodeBytes_enc_iff:
  assumes "wf_value v" and "length (enc v @ rest) < 2 ^ 64"
  shows "DecodeBytes (enc v @ rest) = Ok w \<longleftrightarrow> fits 0 v \<and> w = norm v"
proof -
  have "length (encp (data v)) < 2 ^ 64"
    using assms(2) encp_le_enc [of v] by simp
  then show ?thesis
    using assms by (simp add: DecodeBytes_enc decodeValue_enc(1))
qed

text \<open>
  C4. Round trip of the TLV codec, with its exact limits: a well-formed value that is encoded
  and decoded again comes back, with its timestamps cut to milliseconds, if and only if it
  keeps within the decoder's depth and size limits.
\<close>

theorem tlv_roundtrip:
  assumes "wf_value v" and "length (enc v @ rest) < 2 ^ 64"
  shows "rbind (MustEncode v) (\<lambda>b. DecodeBytes (b @ rest)) = Ok w \<longleftrightarrow> fits 0 v \<and> w = norm v"
  using DecodeBytes_enc_iff [OF assms] assms(1) by (simp add: MustEncode_enc)

theorem tlv_roundtrip_witness:
  "rbind (MustEncode (Value TypeMap (DMap [(''a'', VUint16 513), (''l'', VArray [VBool True, VTimestamp 1999999])])))
     (\<lambda>b. DecodeBytes (b @ [7])) =
   Ok (Value TypeMap (DMap [(''a'', VUint16 513), (''l'', VArray [VBool True, VTimestamp 1000000])]))"
proof -
  let ?v = "Value TypeMap (DMap [(''a'', VUint16 513), (''l'', VArray [VBool True, VTimestamp 1999999])])"
  have "wf_value ?v"
    by (simp add: value_constructors)
  moreover have "fits 0 ?v" and "length (enc ?v @ [7]) < 2 ^ 64"
    by (simp_all add: value_constructors small_def MaxDecodeDepth_def put_uvarint_short)
  moreover have "norm ?v = Value TypeMap (DMap [(''a'', VUint16 513), (''l'', VArray [VBool True, VTimestamp 1000000])])"
    by (simp add: value_constructors time_UnixMilli_def UnixMilli_def)
  ultimately show ?thesis
    using tlv_roundtrip by metis
qed

lemma DecodeBytes_OkE:
  assumes "DecodeBytes b = Ok v" and "length b < 2 ^ 64"
  obtains t rest len k p where "b = t # rest" "uvarint rest = (len, k)" "0 < k"
    "length p = unat len" "nat (1 + k) + unat len \<le> length b" "decodeValue t p 0 = Ok v"
proof -
  obtain t rest len k p where *: "b = t # rest" "uvarint rest = (len, k)" "0 < k"
    "\<not> (of_nat (length b) :: u64) < 1 + of_int k + len"
    "(go_slice b (unat (1 + of_int k :: u64)) (unat (1 + of_int k + len)) :: (tlv_err, bytes) result) = Ok p"
    "decodeValue t p 0 = Ok v"
    using assms(1) by (auto simp: DecodeBytes_def Let_def not_le split: list.splits prod.splits if_splits)
  have u: "unat (1 + of_int k :: u64) = nat (1 + k)"
    using *(2,3) by (rule unat_payloadStart)
  have le: "unat (1 + of_int k :: u64) \<le> unat (1 + of_int k + len)"
    "unat (1 + of_int k + len) \<le> length b"
    and p: "length p = unat (1 + of_int k + len) - unat (1 + of_int k :: u64)"
    using *(5) by (auto simp: go_slice_Ok_iff)
  have "unat (1 + of_int k + len) = unat (1 + of_int k :: u64) + unat len"
    using le(1) unat_plus_if' [of "1 + of_int k" len] unsigned_less [where 'a = nat and w = len]
    by (auto split: if_splits)
  with le p u * show thesis using that [of t rest len k p] by auto
qed

text \<open>
  C12. The decoder only returns values the encoder can send back: whatever \<^verbatim>\<open>DecodeBytes\<close>
  accepts is well formed (type codes match contents, map keys are distinct), and encoding it
  and decoding the result gives the same value, even where the input used longer lengths,
  padded payloads or repeated keys.
\<close>

theorem tlv_decode_stable:
  assumes "DecodeBytes b = Ok v" and "length b < 2 ^ 64"
  shows "wf_value v \<and> (\<exists>b'. MustEncode v = Ok b' \<and> length b' \<le> length b \<and> DecodeBytes b' = Ok v)"
proof -
  obtain t rest len k p where *: "uvarint rest = (len, k)" "0 < k" "length p = unat len"
    "nat (1 + k) + unat len \<le> length b" "decodeValue t p 0 = Ok v"
    using DecodeBytes_OkE [OF assms] by metis
  have wf: "wf_value v" using decode_wf(1) [OF *(5)] by blast
  have st: "length (encp (data v)) \<le> length p" "fits 0 v" "norm v = v"
    using decode_stable(1) [OF *(5)] by auto
  have "length (put_uvarint (of_nat (length (encp (data v))))) \<le> length (put_uvarint len)"
    using st(1) *(3,4) assms(2) by (intro length_put_uvarint_mono) (simp add: unat_of_nat_u64)
  moreover have "int (length (put_uvarint len)) \<le> k"
    using uvarint_bounds(3) [OF *(1,2)] .
  ultimately have len: "length (enc v) \<le> length b"
    using st(1) *(2,3,4) by (simp add: length_enc)
  then have "DecodeBytes (enc v) = Ok v"
    using assms(2) DecodeBytes_enc [of v "[]"] decodeValue_enc(1) [OF wf, of 0 v] encp_le_enc [of v] st
    by simp
  with wf len show ?thesis by (simp add: MustEncode_enc)
qed

theorem tlv_decode_stable_witness:
  "DecodeBytes [0x04, 0x83, 0x00, 0x02, 0x01, 0xFF] = Ok (VUint16 513) \<and>
   wf_value (VUint16 513)"
proof -
  have "DecodeBytes [0x04, 0x83, 0x00, 0x02, 0x01, 0xFF] = Ok (VUint16 513)"
    by (simp add: DecodeBytes_def uvarint_def Let_def go_slice_def decodeValue.simps
        type_codes decode_fixed_def MaxDecodeDepth_def get_be_def)
  from this tlv_decode_stable [OF this] show ?thesis by simp
qed

section \<open>Panics\<close>

text \<open>
  C32. Nested decoding and decoding from a stream never panic, whatever the bytes are; the
  result is a value or an error.
\<close>

theorem decode_never_panics:
  "\<not> is_panic (decodeValueBytes buf depth) \<and> \<not> is_panic (fst (Decode s))"
proof -
  have "\<not> is_panic (decodeValueBytes buf depth)"
    by (auto simp: decodeValueBytes_def decodeHeader_no_panic decode_no_panic)
  moreover have "\<not> is_panic (fst (decodeReader s))"
    by (auto simp: decodeReader_def ReadByte_def ReadFull_def decode_no_panic
        split: list.splits prod.splits option.splits)
  ultimately show ?thesis by (simp add: Decode_def)
qed

text \<open>
  C33. \<^verbatim>\<open>DecodeBytes\<close> panics exactly when the declared length makes the 64-bit sum of header
  size and length wrap around to a position inside the buffer (then the slice bounds are out
  of order); for every other input it returns a value or an error.
\<close>

theorem DecodeBytes_panic_iff:
  assumes "length b < 2 ^ 63"
  shows "is_panic (DecodeBytes b) \<longleftrightarrow>
    (\<exists>t rest len k. b = t # rest \<and> uvarint rest = (len, k) \<and> 0 < k \<and>
       2 ^ 64 \<le> nat (1 + k) + unat len \<and> nat (1 + k) + unat len - 2 ^ 64 \<le> length b)"
proof (cases b)
  case (Cons t rest)
  obtain len k where uv: "uvarint rest = (len, k)" by fastforce
  show ?thesis
  proof (cases "0 < k")
    case True
    have u: "unat (1 + of_int k :: u64) = nat (1 + k)"
      using uv True by (rule unat_payloadStart)
    have e: "unat (1 + of_int k + len) =
        (if nat (1 + k) + unat len < 2 ^ 64 then nat (1 + k) + unat len
         else nat (1 + k) + unat len - 2 ^ 64)"
      using unat_plus_if' [of "1 + of_int k" len] by (simp add: u)
    have "unat (of_nat (length b) :: u64) = length b"
      using assms by (intro unat_of_nat_u64) simp
    then have "(of_nat (length b) :: u64) < 1 + of_int k + len \<longleftrightarrow> length b < unat (1 + of_int k + len)"
      by (simp add: word_less_nat_alt)
    then have lt: "1 + of_nat (length rest) < 1 + of_int k + len \<longleftrightarrow>
        Suc (length rest) < unat (1 + of_int k + len)"
      using Cons by simp
    have "unat len < 2 ^ 64" using unsigned_less [where 'a = nat and w = len] by simp
    with True Cons uv show ?thesis
      unfolding DecodeBytes_def
      by (auto simp: Let_def lt u e go_slice_def decode_no_panic not_less)
  next
    case False
    with Cons uv show ?thesis by (auto simp: DecodeBytes_def)
  qed
qed (simp add: DecodeBytes_def)

theorem DecodeBytes_panic_iff_witness:
  "is_panic (DecodeBytes ([0x0D] @ replicate 9 0xFF @ [0x01]))"
proof -
  have uv: "uvarint (replicate 9 0xFF @ [0x01]) = (0xFFFFFFFFFFFFFFFF, 10)"
    by code_simp
  have "length ([0x0D] @ replicate 9 0xFF @ [0x01] :: bytes) < 2 ^ 63" by simp
  moreover have "\<exists>t rest len k. [0x0D] @ replicate 9 0xFF @ [0x01] = t # rest \<and>
      uvarint rest = (len, k) \<and> 0 < k \<and> 2 ^ 64 \<le> nat (1 + k) + unat len \<and>
      nat (1 + k) + unat len - 2 ^ 64 \<le> length ([0x0D] @ replicate 9 0xFF @ [0x01] :: bytes)"
    by (intro exI conjI, simp, rule uv) simp_all
  ultimately show ?thesis using DecodeBytes_panic_iff by blast
qed

section \<open>Nesting limits\<close>

fun nest_map :: "nat \<Rightarrow> Value" where
  "nest_map 0 = VNull"
| "nest_map (Suc n) = Value TypeMap (DMap [([], nest_map n)])"

fun nest_array :: "nat \<Rightarrow> Value" where
  "nest_array 0 = VNull"
| "nest_array (Suc n) = Value TypeArray (DArray [nest_array n])"

lemma nest_wf [simp]: "wf_value (nest_map n)" "wf_value (nest_array n)"
  by (induction n) simp_all

lemma nest_norm [simp]: "norm (nest_map n) = nest_map n" "norm (nest_array n) = nest_array n"
  by (induction n) (simp_all add: VNull_def)

lemma nest_length:
  "length (encp (data (nest_map n))) \<le> 13 * n" "length (encp (data (nest_array n))) \<le> 13 * n"
proof (induction n)
  case (Suc n)
  note b = length_put_uvarint_bounds(2) [of "of_nat (length (encp (data (nest_map n))))"]
    length_put_uvarint_bounds(2) [of "of_nat (length (encp (data (nest_array n))))"]
  case 1
  from Suc b show ?case by (simp add: enc_def' [of "nest_map n"] put_uvarint_short)
  case 2
  from Suc b show ?case by (simp add: enc_def' [of "nest_array n"])
qed (simp_all add: VNull_def)

lemma nest_enc_less:
  assumes "n \<le> 40000"
  shows "length (enc (nest_map n) @ []) < 2 ^ 64" "length (enc (nest_array n) @ []) < 2 ^ 64"
  using nest_length [of n] assms length_put_uvarint_bounds(2)
    [of "of_nat (length (encp (data (nest_map n))))"]
    length_put_uvarint_bounds(2) [of "of_nat (length (encp (data (nest_array n))))"]
  by (simp_all add: length_enc)

lemma nest_fits:
  "n \<le> 40000 \<Longrightarrow> fits d (nest_map n) \<longleftrightarrow> d + 2 * n \<le> MaxDecodeDepth"
  "n \<le> 40000 \<Longrightarrow> fits d (nest_array n) \<longleftrightarrow> d + n \<le> MaxDecodeDepth"
proof (induction n arbitrary: d)
  case 0
  case 1 show ?case by (simp add: VNull_def)
  case 2 show ?case by (simp add: VNull_def)
next
  case (Suc n)
  case 1
  then show ?case using Suc.IH(1) [of "d + 2"] nest_length(1) [of n] by (auto simp: small_def)
  case 2
  then show ?case using Suc.IH(2) [of "d + 1"] nest_length(2) [of n] by (auto simp: small_def)
qed

text \<open>
  C34. How deep values may nest: arrays decode up to 64 levels (\<^verbatim>\<open>MaxDecodeDepth\<close>), but maps
  only up to 32, because a map entry counts two levels. Deeper values are encoded without
  complaint and rejected by the decoder.
\<close>

theorem nesting_limits:
  assumes "n \<le> 40000"
  shows "(rbind (MustEncode (nest_array n)) DecodeBytes = Ok (nest_array n) \<longleftrightarrow> n \<le> 64) \<and>
         (rbind (MustEncode (nest_map n)) DecodeBytes = Ok (nest_map n) \<longleftrightarrow> n \<le> 32)"
  using DecodeBytes_enc_iff [of "nest_array n" "[]"] DecodeBytes_enc_iff [of "nest_map n" "[]"]
    nest_enc_less [OF assms] nest_fits [OF assms, of 0]
  by (simp add: MaxDecodeDepth_def MustEncode_enc)

theorem nesting_limits_witness:
  "rbind (MustEncode (nest_map 32)) DecodeBytes = Ok (nest_map 32) \<and>
   rbind (MustEncode (nest_map 33)) DecodeBytes \<noteq> Ok (nest_map 33)"
  using nesting_limits [of 32] nesting_limits [of 33] by simp

section \<open>Streams of values\<close>

lemma decodeReader_enc:
  assumes "sin s = enc v @ rest" "small (encp (data v))"
  shows "decodeReader s = (decodeValue (Typ v) (encp (data v)) 0, s\<lparr>sin := rest\<rparr>)"
proof -
  define p where "p = encp (data v)"
  let ?s = "s\<lparr>sin := put_uvarint (of_nat (length p)) @ p @ rest\<rparr>"
  have rb: "ReadByte s = (Ok (Typ v), ?s)"
    using assms(1) by (simp add: ReadByte_def enc_def' p_def)
  have ru: "ReadUvarint ?s = ((of_nat (length p), None), s\<lparr>sin := p @ rest\<rparr>)"
    using ReadUvarint_put_uvarint [of ?s] by simp
  have u: "unat (of_nat (length p) :: u64) = length p"
    using assms(2) by (intro unat_of_nat_u64) (simp add: small_def p_def)
  then have "\<not> (of_nat (length p) :: u64) > MaxNestedPayload"
    using assms(2) by (simp add: word_less_nat_alt MaxNestedPayload_def small_def p_def not_less)
  moreover have "(of_nat (length p) :: u64) > 0 \<longleftrightarrow> p \<noteq> []"
    using u by (metis length_greater_0_conv unat_gt_0 word_neq_0_conv)
  ultimately show ?thesis
    using rb ru u by (auto simp: decodeReader_def ReadFull_def simp flip: p_def)
qed

definition streamable :: "Value \<Rightarrow> bool" where
  "streamable v \<longleftrightarrow> wf_value v \<and> fits 0 v \<and> small (encp (data v))"

lemma streamable_decode: "streamable v \<Longrightarrow> decodeValue (Typ v) (encp (data v)) 0 = Ok (norm v)"
  using decodeValue_enc(1) [of v 0 "norm v"] by (simp add: streamable_def small_def)

lemma DecodeAll_loop_enc:
  "\<forall>v \<in> set vs. streamable v \<Longrightarrow> sin s = concat (map enc vs) @ rest \<Longrightarrow>
   DecodeAll_loop acc s = DecodeAll_loop (acc @ map norm vs) (s\<lparr>sin := rest\<rparr>)"
proof (induction vs arbitrary: acc s)
  case Nil
  then have "s\<lparr>sin := rest\<rparr> = s" by simp
  then show ?case by simp
next
  case (Cons v vs)
  let ?s = "s\<lparr>sin := concat (map enc vs) @ rest\<rparr>"
  have "decodeReader s = (Ok (norm v), ?s)"
    using Cons.prems decodeReader_enc [of s v "concat (map enc vs) @ rest"] streamable_decode [of v]
    by (simp add: streamable_def)
  then have "DecodeAll_loop acc s = DecodeAll_loop (acc @ [norm v]) ?s"
    by (simp add: DecodeAll_loop.simps [of acc s])
  also have "\<dots> = DecodeAll_loop ((acc @ [norm v]) @ map norm vs) (?s\<lparr>sin := rest\<rparr>)"
    using Cons.prems by (intro Cons.IH) simp_all
  finally show ?case by simp
qed

text \<open>
  \<^verbatim>\<open>DecodeAll\<close> on a stream that holds the encodings of a list of values returns exactly
  those values, in order.
\<close>

theorem DecodeAll_roundtrip:
  assumes "\<forall>v \<in> set vs. streamable v"
  shows "fst (DecodeAll (stream_of (concat (map (\<lambda>v. case marshalValue v of Ok b \<Rightarrow> b | _ \<Rightarrow> []) vs))))
    = Ok (map norm vs)"
proof -
  have eq: "map (\<lambda>v. case marshalValue v of Ok b \<Rightarrow> b | _ \<Rightarrow> []) vs = map enc vs"
    using assms by (auto simp: streamable_def marshalValue_enc)
  show ?thesis
    unfolding eq DecodeAll_def
    using DecodeAll_loop_enc [OF assms, of "stream_of (concat (map enc vs))" "[]" "[]"]
    by (simp add: stream_of_def DecodeAll_loop.simps [of "map norm vs"] decodeReader_def ReadByte_def)
qed

theorem DecodeAll_roundtrip_witness:
  "fst (DecodeAll (stream_of (concat (map (\<lambda>v. case marshalValue v of Ok b \<Rightarrow> b | _ \<Rightarrow> [])
      [VUint8 7, VString ''hi''])))) = Ok [VUint8 7, VString ''hi'']"
proof -
  have "\<forall>v \<in> set [VUint8 7, VString ''hi'']. streamable v"
    by (simp add: streamable_def small_def value_constructors MaxDecodeDepth_def)
  from DecodeAll_roundtrip [OF this] show ?thesis by (simp add: value_constructors)
qed

text \<open>
  C35. A truncated stream is not always reported: when it ends right after a type byte, or
  right after the length of a non-empty payload, \<^verbatim>\<open>DecodeAll\<close> takes the end of file inside
  the value for the end of the sequence and returns the values before it without an error.
\<close>

theorem DecodeAll_truncated:
  assumes "\<forall>v \<in> set vs. streamable v" and "0 < n" and "n \<le> MaxNestedPayload"
  shows "fst (DecodeAll (stream_of (concat (map enc vs) @ [t]))) = Ok (map norm vs) \<and>
         fst (DecodeAll (stream_of (concat (map enc vs) @ t # put_uvarint n))) = Ok (map norm vs)"
proof -
  let ?s = "\<lambda>b. stream_of b"
  have 1: "fst (DecodeAll_loop acc (?s [t])) = Ok acc" for acc
    by (simp add: DecodeAll_loop.simps [of acc] decodeReader_def ReadByte_def stream_of_def
        ReadUvarint_def ReadUvarint_loop.simps)
  have "ReadUvarint (?s (put_uvarint n)) = ((n, None), ?s [])"
    using ReadUvarint_put_uvarint [of "?s (put_uvarint n)" n "[]"] by (simp add: stream_of_def)
  moreover have "0 < unat n" using assms(2) by (simp add: word_less_nat_alt)
  ultimately have 2: "fst (DecodeAll_loop acc (?s (t # put_uvarint n))) = Ok acc" for acc
    using assms(2,3)
    by (simp add: DecodeAll_loop.simps [of acc] decodeReader_def ReadByte_def stream_of_def
        ReadFull_def not_less)
  show ?thesis
    using DecodeAll_loop_enc [OF assms(1), of "?s (concat (map enc vs) @ [t])" "[t]" "[]"]
      DecodeAll_loop_enc [OF assms(1), of "?s (concat (map enc vs) @ t # put_uvarint n)" "t # put_uvarint n" "[]"]
      1 [of "map norm vs"] 2 [of "map norm vs"]
    by (simp add: DecodeAll_def stream_of_def)
qed

theorem DecodeAll_truncated_witness:
  "fst (DecodeAll (stream_of (concat (map enc [VUint8 7]) @ [TypeMap]))) = Ok (map norm [VUint8 7])"
proof -
  have "\<forall>v \<in> set [VUint8 7]. streamable v"
    by (simp add: streamable_def small_def value_constructors MaxDecodeDepth_def)
  from DecodeAll_truncated [OF this, of 1] show ?thesis
    by (simp add: MaxNestedPayload_def)
qed

end
