(* ===== verification/Tlv_Agreement.thy ===== *)
theory Tlv_Agreement
  imports Tlv_Roundtrip
begin

text \<open>
  The two decoders of \<^verbatim>\<open>src/tlv/decode.go\<close>, from a slice (\<^verbatim>\<open>DecodeBytes\<close>) and from a stream
  (\<^verbatim>\<open>Decode\<close>), are written separately, on \<^verbatim>\<open>binary.Uvarint\<close> and \<^verbatim>\<open>binary.ReadUvarint\<close>. This
  theory characterises both by one grammar of a value and shows where they agree.
\<close>

section \<open>Reading lengths\<close>

text \<open>Where the slice version finds no varint, the stream version reports an error.\<close>

lemma ReadUvarint_loop_bad:
  "uvarint_loop i x s (sin r) = (y, n) \<Longrightarrow> n \<le> 0 \<Longrightarrow> i \<le> 10 \<Longrightarrow>
   snd (fst (ReadUvarint_loop i x s r)) \<noteq> None"
proof (induction i x s "sin r" arbitrary: r rule: uvarint_loop.induct)
  case (1 i x s)
  then show ?case by (simp add: ReadUvarint_loop.simps [of i x s r] ReadByte_def flip: "1.hyps")
next
  case (2 i x s b bs)
  have rb: "ReadByte r = (Ok b, r\<lparr>sin := bs\<rparr>)" by (simp add: ReadByte_def flip: "2.hyps")
  show ?case
  proof (cases "i < 10 \<and> \<not> b < 0x80")
    case True
    then show ?thesis
      using "2.hyps"(1) [of "r\<lparr>sin := bs\<rparr>"] "2.prems" rb
      by (simp add: ReadUvarint_loop.simps [of i x s r] flip: "2.hyps"(2))
  next
    case False
    then show ?thesis
      using "2.prems" rb by (auto simp: ReadUvarint_loop.simps [of i x s r] split: if_splits simp flip: "2.hyps"(2))
  qed
qed

lemma ReadUvarint_bad:
  "uvarint (sin r) = (y, n) \<Longrightarrow> n \<le> 0 \<Longrightarrow> \<exists>z e r'. ReadUvarint r = ((z, Some e), r')"
  using ReadUvarint_loop_bad [of 0 0 0 r y n]
  by (cases "ReadUvarint_loop 0 0 0 r") (auto simp: ReadUvarint_def uvarint_def)

section \<open>One grammar for both decoders\<close>

text \<open>\<open>tlv_parse b len v\<close>: \<open>b\<close> starts with a type code, a varint \<open>len\<close> and \<open>len\<close> bytes that decode
  to \<open>v\<close>; \<open>tlv_rest b\<close> is what follows.\<close>

definition tlv_header :: "bytes \<Rightarrow> (byte \<times> u64 \<times> bytes) option" where
  "tlv_header b = (case b of [] \<Rightarrow> None
     | t # rest \<Rightarrow> (case uvarint rest of (len, k) \<Rightarrow>
         if k \<le> 0 then None else Some (t, len, drop (nat k) rest)))"

definition tlv_parse :: "bytes \<Rightarrow> u64 \<Rightarrow> Value \<Rightarrow> bytes \<Rightarrow> bool" where
  "tlv_parse b len v rest \<longleftrightarrow> (\<exists>t body. tlv_header b = Some (t, len, body) \<and> unat len \<le> length body \<and>
     decodeValue t (take (unat len) body) 0 = Ok v \<and> rest = drop (unat len) body)"

lemma DecodeBytes_parse:
  assumes "length b < 2 ^ 63"
  shows "DecodeBytes b = Ok v \<longleftrightarrow> (\<exists>len rest. tlv_parse b len v rest)"
proof (cases b)
  case (Cons t rest)
  obtain len k where uv: "uvarint rest = (len, k)" by fastforce
  show ?thesis
  proof (cases "0 < k")
    case True
    have k: "nat k \<le> length rest" using uvarint_bounds [OF uv True] by simp
    have u: "unat (1 + of_int k :: u64) = Suc (nat k)"
      using unat_payloadStart [OF uv True] True by simp
    have e: "unat (1 + of_int k + len) =
        (if Suc (nat k) + unat len < 2 ^ 64 then Suc (nat k) + unat len
         else Suc (nat k) + unat len - 2 ^ 64)"
      using unat_plus_if' [of "1 + of_int k" len] by (simp add: u)
    have "unat (of_nat (length b) :: u64) = length b" using assms by (intro unat_of_nat_u64) simp
    then have lt: "1 + of_nat (length rest) < 1 + of_int k + len \<longleftrightarrow> Suc (length rest) < unat (1 + of_int k + len)"
      using Cons by (simp add: word_less_nat_alt)
    have "unat len < 2 ^ 64" using unsigned_less [where 'a = nat and w = len] by simp
    then show ?thesis
      using True Cons uv k assms
      by (auto simp: DecodeBytes_def tlv_parse_def tlv_header_def Let_def lt u e go_slice_def not_less
          rbind_eq_Ok_iff drop_take split: if_splits)
  next
    case False
    with Cons uv show ?thesis by (auto simp: DecodeBytes_def tlv_parse_def tlv_header_def)
  qed
qed (simp add: DecodeBytes_def tlv_parse_def tlv_header_def)

lemma Decode_parse:
  "Decode r = (Ok v, r') \<longleftrightarrow>
    (\<exists>len rest. tlv_parse (sin r) len v rest \<and> unat len \<le> 524288 \<and> r' = r\<lparr>sin := rest\<rparr>)"
proof (cases "sin r")
  case (Cons t rest)
  let ?r = "r\<lparr>sin := rest\<rparr>"
  have rb: "ReadByte r = (Ok t, ?r)" using Cons by (simp add: ReadByte_def)
  obtain len k where uv: "uvarint rest = (len, k)" by fastforce
  have max: "len > MaxNestedPayload \<longleftrightarrow> \<not> unat len \<le> 524288"
    by (simp add: word_less_nat_alt MaxNestedPayload_def not_le)
  show ?thesis
  proof (cases "0 < k")
    case True
    have "ReadUvarint ?r = ((len, None), r\<lparr>sin := drop (nat k) rest\<rparr>)"
      using ReadUvarint_uvarint [of ?r len k] uv True by simp
    moreover have "len > 0 \<longleftrightarrow> unat len \<noteq> 0" by (simp add: word_less_nat_alt)
    ultimately show ?thesis
      using rb Cons uv True
      by (auto simp: Decode_def decodeReader_def tlv_parse_def tlv_header_def max ReadFull_def)
  next
    case False
    then obtain z e r2 where "ReadUvarint ?r = ((z, Some e), r2)"
      using ReadUvarint_bad [of ?r len k] uv by auto
    then show ?thesis
      using rb Cons uv False by (auto simp: Decode_def decodeReader_def tlv_parse_def tlv_header_def)
  qed
qed (auto simp: Decode_def decodeReader_def tlv_parse_def tlv_header_def ReadByte_def)

section \<open>Agreement\<close>

definition declared_length :: "bytes \<Rightarrow> u64" where
  "declared_length b = (case tlv_header b of None \<Rightarrow> 0 | Some (t, len, body) \<Rightarrow> len)"

lemma tlv_parse_length: "tlv_parse b len v rest \<Longrightarrow> declared_length b = len"
  by (auto simp: tlv_parse_def declared_length_def)

text \<open>
  C8. The stream decoder and the slice decoder agree. On a stream, whatever its state, \<^verbatim>\<open>Decode\<close>
  returns a value exactly when \<^verbatim>\<open>DecodeBytes\<close> returns this value for the bytes waiting on the
  stream and the declared length is at most 512 KiB, the limit that only \<^verbatim>\<open>Decode\<close> has at
  the top level; so the two varint readers and the two ways to find the payload are equivalent,
  malformed lengths and truncated input included.
\<close>

theorem decoders_agree:
  assumes "length (sin r) < 2 ^ 63"
  shows "(\<exists>r'. Decode r = (Ok v, r')) \<longleftrightarrow>
    DecodeBytes (sin r) = Ok v \<and> unat (declared_length (sin r)) \<le> 524288"
  using DecodeBytes_parse [OF assms, of v] Decode_parse [of r v] tlv_parse_length by fastforce

theorem decoders_agree_witness:
  "(\<exists>r'. Decode (stream_of [0x0B, 1, 1, 7]) = (Ok (Value TypeBool (DBool True)), r')) \<and>
   DecodeBytes [0x0B, 1, 1, 7] = Ok (Value TypeBool (DBool True))"
proof -
  have "DecodeBytes [0x0B, 1, 1, 7] = Ok (Value TypeBool (DBool True)) \<and>
      unat (declared_length [0x0B, 1, 1, 7]) \<le> 524288"
    by (simp add: DecodeBytes_def uvarint_def go_slice_def decodeValue.simps type_codes decode_fixed_def
        declared_length_def tlv_header_def VBool_def)
  then show ?thesis
    using decoders_agree [of "stream_of [0x0B, 1, 1, 7]" "Value TypeBool (DBool True)"]
    by (simp add: stream_of_def)
qed

end
