(* ===== verification/Session_Crypto.thy ===== *)
theory Session_Crypto
  imports Go_IO
begin

text \<open>
  The cryptographic operations of \<^verbatim>\<open>src/session/crypto.go\<close>. The primitives they call
  (AES-GCM, X25519 and HKDF-SHA256 of Go's \<^verbatim>\<open>crypto\<close> packages) are parameters, gathered in
  the record \<open>crypto\<close>; what the program relies on is stated by \<open>aead_laws\<close>,
  \<open>dh_laws\<close> and \<open>hkdf_laws\<close>, the documented behaviour of those packages. The source of
  randomness is a stream of bytes that the operations consume.
\<close>

section \<open>Parameters\<close>

record crypto =
  gcm_Seal :: "bytes \<Rightarrow> bytes \<Rightarrow> bytes \<Rightarrow> bytes \<Rightarrow> bytes"
    \<comment> \<open>key, nonce, plaintext, additional data\<close>
  gcm_Open :: "bytes \<Rightarrow> bytes \<Rightarrow> bytes \<Rightarrow> bytes \<Rightarrow> bytes option"
  x25519_GenerateKey :: "(stream, io_err, bytes) io"
  x25519_PublicKey :: "bytes \<Rightarrow> bytes"
  x25519_ECDH :: "bytes \<Rightarrow> bytes \<Rightarrow> bytes option"
  hkdf_Key :: "bytes \<Rightarrow> bytes \<Rightarrow> string \<Rightarrow> nat \<Rightarrow> bytes option"
    \<comment> \<open>secret, salt, info, length\<close>

definition KeySize :: nat where "KeySize = 32"
definition NonceSize :: nat where "NonceSize = 12"
definition TagSize :: nat where "TagSize = 16"
definition PubKeySize :: nat where "PubKeySize = 32"

lemmas crypto_sizes = KeySize_def NonceSize_def TagSize_def PubKeySize_def

text \<open>\<^verbatim>\<open>aes.NewCipher\<close> accepts keys of 16, 24 and 32 bytes.\<close>

definition aes_key_ok :: "bytes \<Rightarrow> bool" where
  "aes_key_ok k \<longleftrightarrow> length k = 16 \<or> length k = 24 \<or> length k = 32"

text \<open>Sealing adds a 16-byte tag, and opening with the same key, nonce and data undoes it.\<close>

definition aead_laws :: "crypto \<Rightarrow> bool" where
  "aead_laws C \<longleftrightarrow> (\<forall>k n p a. aes_key_ok k \<longrightarrow> length n = NonceSize \<longrightarrow>
     gcm_Open C k n (gcm_Seal C k n p a) a = Some p \<and>
     length (gcm_Seal C k n p a) = length p + TagSize)"

text \<open>Diffie-Hellman agreement, and 32-byte public keys.\<close>

definition dh_laws :: "crypto \<Rightarrow> bool" where
  "dh_laws C \<longleftrightarrow> (\<forall>a b. length (x25519_PublicKey C a) = PubKeySize \<and>
     x25519_ECDH C a (x25519_PublicKey C b) = x25519_ECDH C b (x25519_PublicKey C a))"

text \<open>HKDF-SHA256 derives any key of up to 255 hash lengths.\<close>

definition hkdf_laws :: "crypto \<Rightarrow> bool" where
  "hkdf_laws C \<longleftrightarrow> (\<forall>secret salt info n. n \<le> 255 * 32 \<longrightarrow>
     (\<exists>k. hkdf_Key C secret salt info n = Some k \<and> length k = n))"

section \<open>Operations\<close>

datatype sess_err =
    SessKeygen io_err
  | SessECDH
  | SessHKDF
  | SessAES nat
  | SessNonce io_err
  | SessTooShort nat
  | SessGcmDecrypt
  | SessRand io_err
  | NegSendInit io_err
  | NegReadResponse io_err
  | NegInvalidServerPub
  | NegReadHeader io_err
  | NegReadClientPub io_err
  | NegInvalidClientPub
  | NegSharedSecret sess_err
  | NegDeriveKey sess_err
  | NegSendResponse io_err
  | NegIdTooLong nat
  | NegReadKeyPub io_err
  | NegUnknownKey string

definition GenerateKeyPair :: "crypto \<Rightarrow> (stream, sess_err, bytes) io" where
  "GenerateKeyPair C rnd = swrap SessKeygen (x25519_GenerateKey C rnd)"

definition SharedSecret :: "crypto \<Rightarrow> bytes \<Rightarrow> bytes \<Rightarrow> (sess_err, bytes) result" where
  "SharedSecret C priv pub =
     (case x25519_ECDH C priv pub of None \<Rightarrow> Err SessECDH | Some s \<Rightarrow> Ok s)"

definition DeriveSessionKey :: "crypto \<Rightarrow> bytes \<Rightarrow> bytes \<Rightarrow> (sess_err, bytes) result" where
  "DeriveSessionKey C sharedSecret apiKeySecret =
     (case hkdf_Key C apiKeySecret sharedSecret ''hush-v1-key'' KeySize of
        None \<Rightarrow> Err SessHKDF | Some key \<Rightarrow> Ok key)"

definition Encrypt :: "crypto \<Rightarrow> bytes \<Rightarrow> bytes \<Rightarrow> (stream, sess_err, bytes) io" where
  "Encrypt C key plaintext rnd =
     (if \<not> aes_key_ok key then (Err (SessAES (length key)), rnd)
      else sbind (swrap SessNonce (ReadFull NonceSize rnd)) (\<lambda>nonce rnd.
        (Ok (nonce @ gcm_Seal C key nonce plaintext []), rnd)))"

definition Decrypt :: "crypto \<Rightarrow> bytes \<Rightarrow> bytes \<Rightarrow> (sess_err, bytes) result" where
  "Decrypt C key dat =
     (if length dat < NonceSize + TagSize then Err (SessTooShort (length dat))
      else if \<not> aes_key_ok key then Err (SessAES (length key))
      else case gcm_Open C key (take NonceSize dat) (drop NonceSize dat) [] of
        None \<Rightarrow> Err SessGcmDecrypt | Some plaintext \<Rightarrow> Ok plaintext)"

definition RandomBytes :: "nat \<Rightarrow> (stream, sess_err, bytes) io" where
  "RandomBytes n rnd = swrap SessRand (ReadFull n rnd)"

section \<open>Properties\<close>

lemma Encrypt_seal:
  assumes "aes_key_ok key" "NonceSize \<le> length (sin rnd)"
  shows "Encrypt C key p rnd =
    (Ok (take NonceSize (sin rnd) @ gcm_Seal C key (take NonceSize (sin rnd)) p []),
     rnd\<lparr>sin := drop NonceSize (sin rnd)\<rparr>)"
  using assms by (simp add: Encrypt_def ReadFull_def)

lemma Decrypt_seal:
  assumes "aead_laws C" "aes_key_ok key" "length n = NonceSize"
  shows "Decrypt C key (n @ gcm_Seal C key n p []) = Ok p"
    and "length (n @ gcm_Seal C key n p []) = length p + 28"
  using assms by (simp_all add: Decrypt_def aead_laws_def NonceSize_def TagSize_def)

lemma Decrypt_no_panic [simp]: "Decrypt C key d \<noteq> Panic p"
  by (simp add: Decrypt_def split: option.splits)

lemma Encrypt_no_panic [simp]: "Encrypt C key d r \<noteq> (Panic p, s')"
  by (simp add: Encrypt_def ReadFull_def)

text \<open>
  A concrete instance of the parameters that satisfies all the laws; it shows that theorems
  with these hypotheses are not empty.
\<close>

definition pad32 :: "bytes \<Rightarrow> bytes" where
  "pad32 b = take 32 (b @ replicate 32 0)"

definition sample_crypto :: crypto where
  "sample_crypto =
     \<lparr>gcm_Seal = (\<lambda>k n p a. map (\<lambda>b. b XOR hd k) p @ replicate 16 (hd k)),
      gcm_Open = (\<lambda>k n c a.
        if 16 \<le> length c \<and> drop (length c - 16) c = replicate 16 (hd k)
        then Some (map (\<lambda>b. b XOR hd k) (take (length c - 16) c)) else None),
      x25519_GenerateKey = ReadFull 32,
      x25519_PublicKey = pad32,
      x25519_ECDH = (\<lambda>a b. Some (map2 (XOR) (pad32 a) (pad32 b))),
      hkdf_Key = (\<lambda>secret salt info n. Some (take n (secret @ salt @ replicate n 0)))\<rparr>"

lemma map2_xor_commute: "map2 (XOR) a b = map2 (XOR) b (a :: bytes)"
proof (induction a arbitrary: b)
  case (Cons x a)
  then show ?case by (cases b) (simp_all add: xor.commute)
qed simp

lemma pad32_idem [simp]: "pad32 (pad32 b) = pad32 b" "length (pad32 b) = 32"
  by (simp_all add: pad32_def)

lemma sample_crypto_laws: "aead_laws sample_crypto" "dh_laws sample_crypto" "hkdf_laws sample_crypto"
  by (simp_all add: aead_laws_def dh_laws_def hkdf_laws_def sample_crypto_def crypto_sizes comp_def
      map2_xor_commute xor.assoc)
    (simp add: min_def)

text \<open>
  Encryption round trip: with a valid AES key and at least a nonce's worth of randomness,
  \<^verbatim>\<open>Encrypt\<close> succeeds, uses the next 12 random bytes as the nonce in front of the
  ciphertext, adds 28 bytes in all, and \<^verbatim>\<open>Decrypt\<close> with the same key gives the plaintext
  back.
\<close>

theorem encrypt_decrypt:
  assumes "aead_laws C" and "aes_key_ok key" and "NonceSize \<le> length (sin rnd)"
  shows "\<exists>ct. Encrypt C key p rnd = (Ok ct, rnd\<lparr>sin := drop NonceSize (sin rnd)\<rparr>) \<and>
     take NonceSize ct = take NonceSize (sin rnd) \<and> length ct = length p + 28 \<and>
     Decrypt C key ct = Ok p"
  using Encrypt_seal [OF assms(2,3), of C p] Decrypt_seal [OF assms(1,2), of "take NonceSize (sin rnd)" p]
    assms(3) by simp

theorem encrypt_decrypt_witness:
  "\<exists>ct. Encrypt sample_crypto (replicate 32 7) [1, 2, 3] (stream_of (replicate 20 9)) =
        (Ok ct, (stream_of (replicate 20 9))\<lparr>sin := replicate 8 9\<rparr>) \<and>
      Decrypt sample_crypto (replicate 32 7) ct = Ok [1, 2, 3]"
  using encrypt_decrypt [OF sample_crypto_laws(1), of "replicate 32 7" "stream_of (replicate 20 9)" "[1, 2, 3]"]
  by (auto simp: aes_key_ok_def NonceSize_def stream_of_def)

end
