(* ===== verification/Frame_Wire.thy ===== *)
theory Frame_Wire
  imports Tlv_Roundtrip Session_Crypto
begin

text \<open>
  The frame layer: \<^verbatim>\<open>src/frame/frame.go\<close> (length-prefixed frames with a sequence number),
  \<^verbatim>\<open>src/frame/request.go\<close> and \<^verbatim>\<open>src/frame/response.go\<close> (messages, optionally
  encrypted, inside frames). Functions that draw a nonce pass the random source along;
  functions that write pass the pair of random source and output stream.
\<close>

section \<open>Frames\<close>

definition MaxFrameSize :: nat where "MaxFrameSize = 2 ^ 20"
definition FrameOverhead :: nat where "FrameOverhead = 4 + 12 + 16"
definition FrameMinData :: nat where "FrameMinData = 4"

record Frame =
  SequenceNumber :: u32
  Data :: bytes

definition Frame_String :: "Frame \<Rightarrow> string" where
  "Frame_String f =
     ''Frame{seq='' @ dec (unat (SequenceNumber f)) @ '', data='' @ dec (length (Data f)) @ '' bytes}''"

datatype frame_err =
    FrmReadLength io_err
  | FrmTooLarge nat
  | FrmTooShort nat
  | FrmReadPayload io_err
  | FrmWriteTooLarge nat
  | FrmWrite io_err
  | FrmEncrypt sess_err
  | FrmDecrypt sess_err
  | FrmMsgTooShort
  | FrmDecodeTlv tlv_err

definition Frame_Read :: "(stream, frame_err, Frame) io" where
  "Frame_Read r =
     sbind (swrap FrmReadLength (ReadFull 4 r)) (\<lambda>lenBuf r.
       let frameLen = (get_be lenBuf :: u32) in
       if unat frameLen > MaxFrameSize then (Err (FrmTooLarge (unat frameLen)), r)
       else if unat frameLen < FrameMinData then (Err (FrmTooShort (unat frameLen)), r)
       else sbind (swrap FrmReadPayload (ReadFull (unat frameLen) r)) (\<lambda>dat r.
         (Ok \<lparr>SequenceNumber = get_be (take 4 dat), Data = drop 4 dat\<rparr>, r)))"

definition Frame_Write :: "u32 \<Rightarrow> bytes \<Rightarrow> (stream, frame_err, nat) io" where
  "Frame_Write seq frameData w =
     (let totalLen = 4 + length frameData in
      if totalLen > MaxFrameSize then (Err (FrmWriteTooLarge totalLen), w)
      else swrap FrmWrite
        (stream_Write (put_be 4 (of_nat totalLen :: u32) @ put_be 4 seq @ frameData) w))"

definition ReadFrameLen :: "(stream, frame_err, u32) io" where
  "ReadFrameLen r = sbind (swrap FrmReadLength (ReadFull 4 r)) (\<lambda>lenBuf r. (Ok (get_be lenBuf), r))"

definition MaxSafePayload :: nat where
  "MaxSafePayload = MaxFrameSize - FrameOverhead"

definition WireOverhead :: nat where
  "WireOverhead = 36"

section \<open>Requests\<close>

record Request =
  Opcode :: u16
  ReqPayload :: "tlv_map option"

text \<open>\<^verbatim>\<open>MustEncodeMap\<close> of a non-nil payload; its panics pass through.\<close>

fun lift_tlv :: "(tlv_err, 'a) result \<Rightarrow> (frame_err, 'a) result" where
  "lift_tlv r = map_err FrmDecodeTlv r"

definition EncodeRequest :: "crypto \<Rightarrow> bytes option \<Rightarrow> u32 \<Rightarrow> Request \<Rightarrow> (stream, frame_err, bytes) io" where
  "EncodeRequest C key seq r rnd =
     (let opBuf = put_be 2 (Opcode r) in
      sbind (case ReqPayload r of
               None \<Rightarrow> (Ok opBuf, rnd)
             | Some m \<Rightarrow> (rbind (lift_tlv (MustEncodeMap (Some m))) (\<lambda>tlvData. Ok (opBuf @ tlvData)), rnd))
        (\<lambda>plaintext rnd.
          case key of None \<Rightarrow> (Ok plaintext, rnd)
          | Some k \<Rightarrow> swrap FrmEncrypt (Encrypt C k plaintext rnd)))"

text \<open>The part \<^verbatim>\<open>WriteRequest\<close> and \<^verbatim>\<open>WriteResponse\<close> share: frame the encoded message.\<close>

definition write_encoded ::
    "(frame_err, bytes) result \<times> stream \<Rightarrow> u32 \<Rightarrow> stream \<Rightarrow> (frame_err, unit) result \<times> stream \<times> stream" where
  "write_encoded er seq w =
     (case er of
        (Ok dat, rnd) \<Rightarrow>
          (case Frame_Write seq dat w of (res, w') \<Rightarrow> (rbind res (\<lambda>n. Ok ()), (rnd, w')))
      | (Err e, rnd) \<Rightarrow> (Err e, (rnd, w))
      | (Panic p, rnd) \<Rightarrow> (Panic p, (rnd, w)))"

definition WriteRequest ::
    "crypto \<Rightarrow> bytes option \<Rightarrow> u32 \<Rightarrow> Request \<Rightarrow> (stream \<times> stream, frame_err, unit) io" where
  "WriteRequest C key seq r rw =
     (case rw of (rnd, w) \<Rightarrow> write_encoded (EncodeRequest C key seq r rnd) seq w)"

definition DecryptRequest :: "crypto \<Rightarrow> bytes option \<Rightarrow> Frame \<Rightarrow> (frame_err, Request) result" where
  "DecryptRequest C key f =
     rbind (case key of None \<Rightarrow> Ok (Data f) | Some k \<Rightarrow> map_err FrmDecrypt (Decrypt C k (Data f)))
       (\<lambda>plaintext.
         if length plaintext < 2 then Err FrmMsgTooShort
         else let opcode = get_be (take 2 plaintext) in
           if length plaintext > 2 then
             rbind (lift_tlv (DecodeMap (drop 2 plaintext))) (\<lambda>m.
               Ok \<lparr>Opcode = opcode, ReqPayload = Some m\<rparr>)
           else Ok \<lparr>Opcode = opcode, ReqPayload = None\<rparr>)"

definition ReadRequest :: "crypto \<Rightarrow> bytes option \<Rightarrow> (stream, frame_err, Request \<times> u32) io" where
  "ReadRequest C key r =
     sbind (Frame_Read r) (\<lambda>f r.
       (rbind (DecryptRequest C key f) (\<lambda>req. Ok (req, SequenceNumber f)), r))"

section \<open>Responses\<close>

definition StatusSuccess :: byte where "StatusSuccess = 0x00"
definition StatusBadRequest :: byte where "StatusBadRequest = 0x01"
definition StatusUnauthenticated :: byte where "StatusUnauthenticated = 0x02"
definition StatusPermissionDenied :: byte where "StatusPermissionDenied = 0x03"
definition StatusNotFound :: byte where "StatusNotFound = 0x04"
definition StatusSessionExpired :: byte where "StatusSessionExpired = 0x05"
definition StatusRateLimited :: byte where "StatusRateLimited = 0x06"
definition StatusInternalError :: byte where "StatusInternalError = 0x07"

lemmas status_codes = StatusSuccess_def StatusBadRequest_def StatusUnauthenticated_def
  StatusPermissionDenied_def StatusNotFound_def StatusSessionExpired_def StatusRateLimited_def
  StatusInternalError_def

definition StatusCode_String :: "byte \<Rightarrow> string" where
  "StatusCode_String s =
     (if s = StatusSuccess then ''success''
      else if s = StatusBadRequest then ''bad_request''
      else if s = StatusUnauthenticated then ''unauthenticated''
      else if s = StatusPermissionDenied then ''permission_denied''
      else if s = StatusNotFound then ''not_found''
      else if s = StatusSessionExpired then ''session_expired''
      else if s = StatusRateLimited then ''rate_limited''
      else if s = StatusInternalError then ''internal_error''
      else if s \<ge> 0x80 then ''app_error(0x'' @ hex_byte s @ '')''
      else ''unknown(0x'' @ hex_byte s @ '')'')"

record Response =
  Status :: byte
  RespPayload :: "tlv_map option"
  Seq :: u32

definition EncodeResponse :: "crypto \<Rightarrow> bytes option \<Rightarrow> u32 \<Rightarrow> Response \<Rightarrow> (stream, frame_err, bytes) io" where
  "EncodeResponse C key seq r rnd =
      sbind (case RespPayload r of
               None \<Rightarrow> (Ok [Status r], rnd)
             | Some m \<Rightarrow> (rbind (lift_tlv (MustEncodeMap (Some m))) (\<lambda>tlvData. Ok ([Status r] @ tlvData)), rnd))
        (\<lambda>plaintext rnd.
          case key of None \<Rightarrow> (Ok plaintext, rnd)
          | Some k \<Rightarrow> swrap FrmEncrypt (Encrypt C k plaintext rnd))"

definition WriteResponse ::
    "crypto \<Rightarrow> bytes option \<Rightarrow> u32 \<Rightarrow> Response \<Rightarrow> (stream \<times> stream, frame_err, unit) io" where
  "WriteResponse C key seq r rw =
     (case rw of (rnd, w) \<Rightarrow> write_encoded (EncodeResponse C key seq r rnd) seq w)"

definition DecryptResponse :: "crypto \<Rightarrow> bytes option \<Rightarrow> Frame \<Rightarrow> (frame_err, Response) result" where
  "DecryptResponse C key f =
     rbind (case key of None \<Rightarrow> Ok (Data f) | Some k \<Rightarrow> map_err FrmDecrypt (Decrypt C k (Data f)))
       (\<lambda>plaintext.
         if length plaintext < 1 then Err FrmMsgTooShort
         else
           if length plaintext > 1 then
             rbind (lift_tlv (DecodeMap (drop 1 plaintext))) (\<lambda>m.
               Ok \<lparr>Status = hd plaintext, RespPayload = Some m, Seq = SequenceNumber f\<rparr>)
           else Ok \<lparr>Status = hd plaintext, RespPayload = None, Seq = SequenceNumber f\<rparr>)"

definition ReadResponse :: "crypto \<Rightarrow> bytes option \<Rightarrow> (stream, frame_err, Response) io" where
  "ReadResponse C key r = sbind (Frame_Read r) (\<lambda>f r. (DecryptResponse C key f, r))"

section \<open>Frames on the wire\<close>

definition wire :: "u32 \<Rightarrow> bytes \<Rightarrow> bytes" where
  "wire seq d = put_be 4 (of_nat (4 + length d) :: u32) @ put_be 4 seq @ d"

lemma length_wire [simp]: "length (wire seq d) = 8 + length d"
  by (simp add: wire_def)

lemma unat_of_nat_u32: "n < 2 ^ 32 \<Longrightarrow> unat (of_nat n :: u32) = n"
  by (simp add: unsigned_of_nat take_bit_nat_eq_self)

lemma Frame_Write_open:
  assumes "4 + length d \<le> MaxFrameSize" "\<not> sclosed w" "sroom w = None"
  shows "Frame_Write seq d w = (Ok (8 + length d), w\<lparr>sout := sout w @ wire seq d\<rparr>)"
  using assms by (simp add: Frame_Write_def Let_def stream_Write_open wire_def)

lemma Frame_Read_wire:
  assumes "4 + length d \<le> MaxFrameSize" "sin r = wire seq d @ rest"
  shows "Frame_Read r = (Ok \<lparr>SequenceNumber = seq, Data = d\<rparr>, r\<lparr>sin := rest\<rparr>)"
proof -
  let ?len = "of_nat (4 + length d) :: u32"
  have u: "unat ?len = 4 + length d"
    using assms(1) by (intro unat_of_nat_u32) (simp add: MaxFrameSize_def)
  have r1: "ReadFull 4 r = (Ok (put_be 4 ?len), r\<lparr>sin := put_be 4 seq @ d @ rest\<rparr>)"
    using assms(2) by (intro ReadFull_append) (simp_all add: wire_def)
  have r2: "ReadFull (4 + length d) (r\<lparr>sin := put_be 4 seq @ d @ rest\<rparr>) =
      (Ok (put_be 4 seq @ d), r\<lparr>sin := rest\<rparr>)"
    using ReadFull_append [of "put_be 4 seq @ d" "4 + length d" "r\<lparr>sin := put_be 4 seq @ d @ rest\<rparr>" rest]
    by simp
  show ?thesis
    unfolding Frame_Read_def r1 using assms(1) u r2
    by (simp add: be32.get_put FrameMinData_def Let_def)
qed

lemma Frame_Read_OkE:
  assumes "Frame_Read r = (Ok f, r')"
  shows "4 + length (Data f) \<le> MaxFrameSize \<and> sin r = wire (SequenceNumber f) (Data f) @ sin r' \<and>
     r' = r\<lparr>sin := sin r'\<rparr>"
proof -
  let ?n = "unat (get_be (take 4 (sin r)) :: u32)"
  have *: "4 \<le> length (sin r)" "?n \<le> MaxFrameSize" "4 \<le> ?n" "?n \<le> length (drop 4 (sin r))"
    "f = \<lparr>SequenceNumber = get_be (take 4 (take ?n (drop 4 (sin r)))),
          Data = drop 4 (take ?n (drop 4 (sin r)))\<rparr>"
    "r' = r\<lparr>sin := drop ?n (drop 4 (sin r))\<rparr>"
    using assms by (auto simp: Frame_Read_def sbind_eq_Ok_iff ReadFull_def Let_def FrameMinData_def
        split: if_splits)
  let ?d = "take ?n (drop 4 (sin r))"
  have ld: "length ?d = ?n" using *(4) by simp
  have s: "put_be 4 (get_be (take 4 (sin r)) :: u32) @ drop 4 (sin r) = sin r"
    using *(1) by (rule be32.put_get_take)
  have d: "put_be 4 (get_be (take 4 ?d) :: u32) @ drop 4 ?d = ?d"
    using *(3) ld by (intro be32.put_get_take) simp
  have n: "(of_nat (4 + length (drop 4 ?d)) :: u32) = get_be (take 4 (sin r))"
    using *(3) ld by simp
  have "wire (SequenceNumber f) (Data f) = put_be 4 (get_be (take 4 (sin r)) :: u32) @ ?d"
    by (simp only: wire_def *(5) Frame.simps n d)
  then have "wire (SequenceNumber f) (Data f) @ drop ?n (drop 4 (sin r)) =
      put_be 4 (get_be (take 4 (sin r)) :: u32) @ ?d @ drop ?n (drop 4 (sin r))"
    by (simp only: append.assoc)
  also have "\<dots> = sin r"
    by (simp only: append_take_drop_id s)
  finally show ?thesis
    using * ld by simp
qed

text \<open>
  Frames round trip on the wire: for data that fits, \<^verbatim>\<open>Write\<close> appends one length-prefixed
  frame and \<^verbatim>\<open>Read\<close> takes exactly that frame off the front of whatever stream it heads,
  with the same sequence number and data; larger data is refused before anything is written.
\<close>

theorem frame_roundtrip:
  assumes "\<not> sclosed w" and "sroom w = None"
  shows "if 4 + length d \<le> MaxFrameSize
    then \<exists>b. Frame_Write seq d w = (Ok (8 + length d), w\<lparr>sout := sout w @ b\<rparr>) \<and>
         (\<forall>r rest. sin r = b @ rest \<longrightarrow>
            Frame_Read r = (Ok \<lparr>SequenceNumber = seq, Data = d\<rparr>, r\<lparr>sin := rest\<rparr>))
    else Frame_Write seq d w = (Err (FrmWriteTooLarge (4 + length d)), w)"
proof (cases "4 + length d \<le> MaxFrameSize")
  case True
  then show ?thesis
    using Frame_Write_open [OF True assms, of seq] Frame_Read_wire [OF True, of _ seq]
    by (auto intro!: exI [of _ "wire seq d"])
next
  case False
  then show ?thesis by (simp add: Frame_Write_def Let_def)
qed

theorem frame_roundtrip_witness:
  "\<exists>b. Frame_Write 3 [10, 20] (stream_of []) = (Ok 10, (stream_of [])\<lparr>sout := b\<rparr>) \<and>
     Frame_Read (stream_of (b @ [1])) = (Ok \<lparr>SequenceNumber = 3, Data = [10, 20]\<rparr>, stream_of [1])"
proof -
  have "\<not> sclosed (stream_of [])" "sroom (stream_of []) = None"
    by (simp_all add: stream_of_def)
  from frame_roundtrip [OF this, of "[10, 20]" 3] show ?thesis
    by (force simp: MaxFrameSize_def stream_of_def)
qed

text \<open>
  C25. What \<^verbatim>\<open>Read\<close> accepts is canonical and bounded: the bytes it consumed are exactly the
  bytes \<^verbatim>\<open>Write\<close> produces for the frame it returns, the frame is within the size limit, and
  the rest of the stream is untouched.
\<close>

theorem frame_read_canonical:
  assumes "Frame_Read r = (Ok f, r')"
  shows "4 + length (Data f) \<le> MaxFrameSize \<and>
     (\<exists>b. sin r = b @ sin r' \<and>
        Frame_Write (SequenceNumber f) (Data f) (stream_of []) =
          (Ok (length b), (stream_of [])\<lparr>sout := b\<rparr>))"
proof -
  note ok = Frame_Read_OkE [OF assms]
  then have "Frame_Write (SequenceNumber f) (Data f) (stream_of []) =
      (Ok (8 + length (Data f)),
       (stream_of [])\<lparr>sout := sout (stream_of []) @ wire (SequenceNumber f) (Data f)\<rparr>)"
    by (intro Frame_Write_open) (simp_all add: stream_of_def)
  with ok show ?thesis
    by (auto simp: stream_of_def intro!: exI [of _ "wire (SequenceNumber f) (Data f)"])
qed

theorem frame_read_canonical_witness:
  "\<exists>f r'. Frame_Read (stream_of [0, 0, 0, 5, 0, 0, 0, 9, 42, 77]) = (Ok f, r') \<and>
     4 + length (Data f) \<le> MaxFrameSize \<and> sin r' = [77]"
proof -
  have "Frame_Read (stream_of [0, 0, 0, 5, 0, 0, 0, 9, 42, 77]) =
      (Ok \<lparr>SequenceNumber = 9, Data = [42]\<rparr>, stream_of [77])"
    by (simp add: Frame_Read_def stream_of_def ReadFull_def Let_def get_be_def MaxFrameSize_def
        FrameMinData_def)
  from this frame_read_canonical [OF this] show ?thesis
    by (auto simp: stream_of_def)
qed

section \<open>Messages in frames\<close>

text \<open>What a key needs: none for plaintext, a valid AES key and a nonce's worth of randomness
  otherwise; and how many bytes encryption adds.\<close>

definition key_ready :: "crypto \<Rightarrow> bytes option \<Rightarrow> stream \<Rightarrow> bool" where
  "key_ready C key rnd \<longleftrightarrow> (case key of None \<Rightarrow> True
     | Some k \<Rightarrow> aead_laws C \<and> aes_key_ok k \<and> NonceSize \<le> length (sin rnd))"

definition used_rnd :: "bytes option \<Rightarrow> stream \<Rightarrow> stream" where
  "used_rnd key rnd = (case key of None \<Rightarrow> rnd | Some k \<Rightarrow> rnd\<lparr>sin := drop NonceSize (sin rnd)\<rparr>)"

definition overhead :: "bytes option \<Rightarrow> nat" where
  "overhead key = (case key of None \<Rightarrow> 0 | Some k \<Rightarrow> 28)"

text \<open>
  The contract of a message type carried in frames, shared by requests and responses: how a
  good message is encoded, that its plaintext decodes to what the peer receives, and that an
  encrypted message is decrypted and then decoded like a plain one.
\<close>

locale sealed_message =
  fixes encode :: "crypto \<Rightarrow> bytes option \<Rightarrow> u32 \<Rightarrow> 'm \<Rightarrow> (stream, frame_err, bytes) io"
    and decode :: "crypto \<Rightarrow> bytes option \<Rightarrow> Frame \<Rightarrow> (frame_err, 'r) result"
    and ok :: "'m \<Rightarrow> bool" and plain :: "'m \<Rightarrow> bytes" and recv :: "u32 \<Rightarrow> 'm \<Rightarrow> 'r"
  assumes encode_ok: "ok m \<Longrightarrow> encode C key seq m rnd =
      (case key of None \<Rightarrow> (Ok (plain m), rnd) | Some k \<Rightarrow> swrap FrmEncrypt (Encrypt C k (plain m) rnd))"
    and decode_plain: "ok m \<Longrightarrow>
      decode C None \<lparr>SequenceNumber = seq, Data = plain m\<rparr> = Ok (recv seq m)"
    and decode_sealed: "Decrypt C k d = Ok p \<Longrightarrow>
      decode C (Some k) \<lparr>SequenceNumber = seq, Data = d\<rparr> =
      decode C None \<lparr>SequenceNumber = seq, Data = p\<rparr>"
begin

lemma encode_decode:
  assumes "ok m" "key_ready C key rnd"
  shows "\<exists>d rnd'. encode C key seq m rnd = (Ok d, rnd') \<and> length d = length (plain m) + overhead key \<and>
    (\<forall>n. decode C key \<lparr>SequenceNumber = n, Data = d\<rparr> = Ok (recv n m))"
proof (cases key)
  case None
  then show ?thesis using assms by (simp add: encode_ok decode_plain overhead_def)
next
  case (Some k)
  with assms have k: "aead_laws C" "aes_key_ok k" "NonceSize \<le> length (sin rnd)"
    by (simp_all add: key_ready_def)
  let ?n = "take NonceSize (sin rnd)"
  have "length ?n = NonceSize" using k(3) by simp
  note d = Decrypt_seal [OF k(1,2) this, of "plain m"]
  show ?thesis
    using Some assms(1) d(2) decode_sealed [OF d(1)]
    by (simp add: encode_ok Encrypt_seal [OF k(2,3)] overhead_def decode_plain)
qed

lemma write_read:
  assumes "ok m" "key_ready C key rnd" "4 + length (plain m) + overhead key \<le> MaxFrameSize"
    and "\<not> sclosed w" "sroom w = None"
  shows "\<exists>b rnd'. write_encoded (encode C key seq m rnd) seq w = (Ok (), rnd', w\<lparr>sout := sout w @ b\<rparr>) \<and>
    length b = length (plain m) + overhead key + 8 \<and>
    (\<forall>r rest. sin r = b @ rest \<longrightarrow>
       Frame_Read r = (Ok \<lparr>SequenceNumber = seq, Data = drop 8 b\<rparr>, r\<lparr>sin := rest\<rparr>)) \<and>
    decode C key \<lparr>SequenceNumber = seq, Data = drop 8 b\<rparr> = Ok (recv seq m)"
proof -
  obtain d rnd' where d: "encode C key seq m rnd = (Ok d, rnd')"
    "length d = length (plain m) + overhead key"
    "\<forall>n. decode C key \<lparr>SequenceNumber = n, Data = d\<rparr> = Ok (recv n m)"
    using encode_decode [OF assms(1,2)] by metis
  have fit: "4 + length d \<le> MaxFrameSize" using assms(3) d(2) by simp
  have "drop 8 (wire seq d) = d" by (simp add: wire_def)
  then show ?thesis
    using d Frame_Write_open [OF fit assms(4,5), of seq] Frame_Read_wire [OF fit, of _ seq]
    by (intro exI [of _ "wire seq d"]) (simp add: write_encoded_def)
qed

lemma write_rnd:
  assumes "ok m" "key_ready C key rnd"
  shows "fst (snd (write_encoded (encode C key seq m rnd) seq w)) = used_rnd key rnd"
  using assms
  by (auto simp: encode_ok key_ready_def used_rnd_def write_encoded_def Encrypt_seal
      split: option.splits prod.splits)

lemma write_too_large:
  assumes "ok m" "key_ready C key rnd" "4 + length (plain m) + overhead key > MaxFrameSize"
  shows "\<exists>n rnd'. write_encoded (encode C key seq m rnd) seq w = (Err (FrmWriteTooLarge n), rnd', w)"
proof -
  obtain d rnd' where d: "encode C key seq m rnd = (Ok d, rnd')"
    "length d = length (plain m) + overhead key"
    using encode_decode [OF assms(1,2)] by metis
  then show ?thesis
    using assms(3) by (simp add: write_encoded_def Frame_Write_def Let_def)
qed

end

subsection \<open>Requests and responses meet the contract\<close>

definition map_ok :: "tlv_map \<Rightarrow> bool" where
  "map_ok m \<longleftrightarrow> wf_map m \<and> fits 0 (Value TypeMap (DMap m)) \<and>
     length (enc (Value TypeMap (DMap m))) < 2 ^ 64"

definition payload_ok :: "tlv_map option \<Rightarrow> bool" where
  "payload_ok mp \<longleftrightarrow> (case mp of None \<Rightarrow> True | Some m \<Rightarrow> map_ok m)"

definition norm_map :: "tlv_map \<Rightarrow> tlv_map" where
  "norm_map m = map (\<lambda>(k, v). (k, norm v)) m"

definition enc_payload :: "tlv_map option \<Rightarrow> bytes" where
  "enc_payload mp = (case mp of None \<Rightarrow> [] | Some m \<Rightarrow> enc (Value TypeMap (DMap m)))"

definition req_plain :: "Request \<Rightarrow> bytes" where
  "req_plain r = put_be 2 (Opcode r) @ enc_payload (ReqPayload r)"

definition req_recv :: "Request \<Rightarrow> Request" where
  "req_recv r = r\<lparr>ReqPayload := map_option norm_map (ReqPayload r)\<rparr>"

definition resp_plain :: "Response \<Rightarrow> bytes" where
  "resp_plain r = Status r # enc_payload (RespPayload r)"

definition resp_recv :: "u32 \<Rightarrow> Response \<Rightarrow> Response" where
  "resp_recv seq r = r\<lparr>RespPayload := map_option norm_map (RespPayload r), Seq := seq\<rparr>"

lemma MustEncodeMap_ok: "map_ok m \<Longrightarrow> MustEncodeMap (Some m) = Ok (enc (Value TypeMap (DMap m)))"
  by (simp add: MustEncodeMap_def MustEncode_enc map_ok_def wf_map_def)

lemma DecodeMap_ok: "map_ok m \<Longrightarrow> DecodeMap (enc (Value TypeMap (DMap m))) = Ok (norm_map m)"
  using DecodeBytes_enc_iff [of "Value TypeMap (DMap m)" "[]" "norm (Value TypeMap (DMap m))"]
  by (simp add: DecodeMap_def map_ok_def wf_map_def Value_Map_def norm_map_def)

lemma enc_payload_not_Nil: "enc (Value TypeMap (DMap m)) \<noteq> []"
  by simp

interpretation req: sealed_message EncodeRequest DecryptRequest "\<lambda>r. payload_ok (ReqPayload r)"
  req_plain "\<lambda>seq. req_recv"
proof
  fix m :: Request and C key seq rnd
  assume ok: "payload_ok (ReqPayload m)"
  then show "EncodeRequest C key seq m rnd =
      (case key of None \<Rightarrow> (Ok (req_plain m), rnd)
       | Some k \<Rightarrow> swrap FrmEncrypt (Encrypt C k (req_plain m) rnd))"
    by (auto simp: EncodeRequest_def Let_def payload_ok_def req_plain_def enc_payload_def
        MustEncodeMap_ok split: option.splits)
  from ok show "DecryptRequest C None \<lparr>SequenceNumber = seq, Data = req_plain m\<rparr> = Ok (req_recv m)"
    using be16.get_put [of "Opcode m"]
    by (auto simp: DecryptRequest_def payload_ok_def req_plain_def req_recv_def enc_payload_def
        Let_def DecodeMap_ok simp del: enc.simps split: option.splits)
      (simp add: enc_payload_not_Nil)
qed (simp add: DecryptRequest_def)

interpretation resp: sealed_message EncodeResponse DecryptResponse "\<lambda>r. payload_ok (RespPayload r)"
  resp_plain resp_recv
proof
  fix m :: Response and C key seq rnd
  assume ok: "payload_ok (RespPayload m)"
  then show "EncodeResponse C key seq m rnd =
      (case key of None \<Rightarrow> (Ok (resp_plain m), rnd)
       | Some k \<Rightarrow> swrap FrmEncrypt (Encrypt C k (resp_plain m) rnd))"
    by (auto simp: EncodeResponse_def payload_ok_def resp_plain_def enc_payload_def
        MustEncodeMap_ok split: option.splits)
  from ok show "DecryptResponse C None \<lparr>SequenceNumber = seq, Data = resp_plain m\<rparr> = Ok (resp_recv seq m)"
    by (auto simp: DecryptResponse_def payload_ok_def resp_plain_def resp_recv_def enc_payload_def
        DecodeMap_ok simp del: enc.simps split: option.splits)
      (simp add: enc_payload_not_Nil)
qed (simp add: DecryptResponse_def)

subsection \<open>Properties\<close>

lemma key_ready_sample: "key_ready sample_crypto (Some (replicate 32 7)) (stream_of (replicate 12 9))"
  by (simp add: key_ready_def sample_crypto_laws aes_key_ok_def NonceSize_def stream_of_def)

text \<open>
  C5. A request written with \<^verbatim>\<open>WriteRequest\<close>, plain or encrypted, is read back by
  \<^verbatim>\<open>ReadRequest\<close> with the same key: same opcode, same payload (timestamps cut to
  milliseconds), same sequence number, and nothing else taken from the stream.
\<close>

theorem request_roundtrip:
  assumes "payload_ok (ReqPayload req)" and "key_ready C key rnd"
    and "4 + length (req_plain req) + overhead key \<le> MaxFrameSize"
    and "\<not> sclosed w" and "sroom w = None"
  shows "\<exists>b rnd'. WriteRequest C key seq req (rnd, w) = (Ok (), rnd', w\<lparr>sout := sout w @ b\<rparr>) \<and>
    (\<forall>r rest. sin r = b @ rest \<longrightarrow>
       ReadRequest C key r = (Ok (req_recv req, seq), r\<lparr>sin := rest\<rparr>))"
  using req.write_read [OF assms, of seq] by (fastforce simp: WriteRequest_def ReadRequest_def)

theorem request_roundtrip_witness:
  "\<exists>b rnd'. WriteRequest sample_crypto (Some (replicate 32 7)) 5
       \<lparr>Opcode = 0x0102, ReqPayload = Some [(''name'', VString ''world'')]\<rparr>
       (stream_of (replicate 12 9), stream_of []) = (Ok (), rnd', (stream_of [])\<lparr>sout := b\<rparr>) \<and>
     ReadRequest sample_crypto (Some (replicate 32 7)) (stream_of b) =
       (Ok (\<lparr>Opcode = 0x0102, ReqPayload = Some [(''name'', VString ''world'')]\<rparr>, 5), stream_of [])"
proof -
  let ?r = "\<lparr>Opcode = 0x0102, ReqPayload = Some [(''name'', VString ''world'')]\<rparr>"
  have 1: "payload_ok (ReqPayload ?r)"
    by (simp add: payload_ok_def map_ok_def wf_map_def VString_def small_def MaxDecodeDepth_def
        put_uvarint_short)
  have 2: "4 + length (req_plain ?r) + overhead (Some (replicate 32 7)) \<le> MaxFrameSize"
    by (simp add: req_plain_def enc_payload_def overhead_def MaxFrameSize_def VString_def put_uvarint_short)
  have 3: "\<not> sclosed (stream_of [])" "sroom (stream_of []) = None" by (simp_all add: stream_of_def)
  have "req_recv ?r = ?r" by (simp add: req_recv_def norm_map_def VString_def)
  with request_roundtrip [OF 1 key_ready_sample 2 3, of 5] show ?thesis
    by (force simp: stream_of_def)
qed

text \<open>
  A response written with \<^verbatim>\<open>WriteResponse\<close> is read back by \<^verbatim>\<open>ReadResponse\<close> with the
  same key: same status and payload, and the sequence number of the frame.
\<close>

theorem response_roundtrip:
  assumes "payload_ok (RespPayload rsp)" and "key_ready C key rnd"
    and "4 + length (resp_plain rsp) + overhead key \<le> MaxFrameSize"
    and "\<not> sclosed w" and "sroom w = None"
  shows "\<exists>b rnd'. WriteResponse C key seq rsp (rnd, w) = (Ok (), rnd', w\<lparr>sout := sout w @ b\<rparr>) \<and>
    (\<forall>r rest. sin r = b @ rest \<longrightarrow>
       ReadResponse C key r = (Ok (resp_recv seq rsp), r\<lparr>sin := rest\<rparr>))"
  using resp.write_read [OF assms, of seq] by (fastforce simp: WriteResponse_def ReadResponse_def)

theorem response_roundtrip_witness:
  "\<exists>b rnd'. WriteResponse sample_crypto None 8 \<lparr>Status = StatusNotFound, RespPayload = None, Seq = 0\<rparr>
       (stream_of [], stream_of []) = (Ok (), rnd', (stream_of [])\<lparr>sout := b\<rparr>) \<and>
     ReadResponse sample_crypto None (stream_of b) =
       (Ok \<lparr>Status = StatusNotFound, RespPayload = None, Seq = 8\<rparr>, stream_of [])"
proof -
  let ?r = "\<lparr>Status = StatusNotFound, RespPayload = None, Seq = 0\<rparr>"
  have 1: "payload_ok (RespPayload ?r)" "key_ready sample_crypto None (stream_of [])"
    by (simp_all add: payload_ok_def key_ready_def)
  have 2: "4 + length (resp_plain ?r) + overhead None \<le> MaxFrameSize"
    by (simp add: resp_plain_def enc_payload_def overhead_def MaxFrameSize_def)
  have 3: "\<not> sclosed (stream_of [])" "sroom (stream_of []) = None" by (simp_all add: stream_of_def)
  have "resp_recv 8 ?r = \<lparr>Status = StatusNotFound, RespPayload = None, Seq = 8\<rparr>"
    by (simp add: resp_recv_def)
  with response_roundtrip [OF 1 2 3, of 8] show ?thesis
    by (force simp: stream_of_def)
qed

text \<open>
  The size constants are exact: an encrypted request is written if and only if its
  plaintext has at most \<^verbatim>\<open>MaxSafePayload()\<close> bytes, and then it takes exactly
  \<^verbatim>\<open>WireOverhead()\<close> more bytes on the wire; a larger one is refused and nothing is sent.
\<close>

theorem safe_payload_exact:
  assumes "payload_ok (ReqPayload req)" and "key_ready C (Some k) rnd"
    and "\<not> sclosed w" and "sroom w = None"
  shows "if length (req_plain req) \<le> MaxSafePayload
    then \<exists>b rnd'. WriteRequest C (Some k) seq req (rnd, w) = (Ok (), rnd', w\<lparr>sout := sout w @ b\<rparr>) \<and>
           length b = length (req_plain req) + WireOverhead
    else \<exists>n rnd'. WriteRequest C (Some k) seq req (rnd, w) = (Err (FrmWriteTooLarge n), rnd', w)"
proof (cases "length (req_plain req) \<le> MaxSafePayload")
  case True
  then have "4 + length (req_plain req) + overhead (Some k) \<le> MaxFrameSize"
    by (simp add: MaxSafePayload_def FrameOverhead_def overhead_def MaxFrameSize_def)
  from req.write_read [OF assms(1,2) this assms(3,4), of seq] True show ?thesis
    by (auto simp: WriteRequest_def WireOverhead_def overhead_def)
next
  case False
  then have "4 + length (req_plain req) + overhead (Some k) > MaxFrameSize"
    by (simp add: MaxSafePayload_def FrameOverhead_def overhead_def MaxFrameSize_def)
  from req.write_too_large [OF assms(1,2) this, of seq w] False show ?thesis
    by (simp add: WriteRequest_def)
qed

theorem safe_payload_exact_witness:
  "\<exists>b rnd'. WriteRequest sample_crypto (Some (replicate 32 7)) 1 \<lparr>Opcode = 2, ReqPayload = None\<rparr>
      (stream_of (replicate 12 9), stream_of []) = (Ok (), rnd', (stream_of [])\<lparr>sout := b\<rparr>) \<and> length b = 38"
proof -
  let ?r = "\<lparr>Opcode = 2, ReqPayload = None\<rparr>"
  have 1: "payload_ok (ReqPayload ?r)" by (simp add: payload_ok_def)
  have 3: "\<not> sclosed (stream_of [])" "sroom (stream_of []) = None" by (simp_all add: stream_of_def)
  from safe_payload_exact [OF 1 key_ready_sample 3, of 1] show ?thesis
    by (simp add: req_plain_def enc_payload_def MaxSafePayload_def MaxFrameSize_def FrameOverhead_def
        WireOverhead_def stream_of_def)
qed

text \<open>
  C36. The sequence number is not authenticated: whoever can change bytes on the stream can
  replace the sequence number of a frame and the receiver accepts the same request under the
  new number, with encryption as without.
\<close>

theorem sequence_number_malleable:
  assumes "ReadRequest C key r = (Ok (req, seq), r')"
  shows "ReadRequest C key (r\<lparr>sin := take 4 (sin r) @ put_be 4 n @ drop 8 (sin r)\<rparr>) = (Ok (req, n), r')"
proof -
  obtain f where f: "Frame_Read r = (Ok f, r')" "DecryptRequest C key f = Ok req"
    using assms by (auto simp: ReadRequest_def sbind_eq_Ok_iff)
  note ok = Frame_Read_OkE [OF f(1)]
  let ?s = "r\<lparr>sin := take 4 (sin r) @ put_be 4 n @ drop 8 (sin r)\<rparr>"
  have "sin ?s = wire n (Data f) @ sin r'"
    using ok by (simp add: wire_def)
  then have "Frame_Read ?s = (Ok \<lparr>SequenceNumber = n, Data = Data f\<rparr>, ?s\<lparr>sin := sin r'\<rparr>)"
    using ok by (intro Frame_Read_wire) simp_all
  moreover have "?s\<lparr>sin := sin r'\<rparr> = r'" using ok by simp
  moreover have "DecryptRequest C key \<lparr>SequenceNumber = n, Data = Data f\<rparr> = Ok req"
    using f(2) by (simp only: DecryptRequest_def Frame.simps)
  ultimately show ?thesis by (simp add: ReadRequest_def)
qed

theorem sequence_number_malleable_witness:
  "ReadRequest sample_crypto None (stream_of [0, 0, 0, 6, 0, 0, 0, 99, 0, 7]) =
     (Ok (\<lparr>Opcode = 7, ReqPayload = None\<rparr>, 99), stream_of [])"
proof -
  have "ReadRequest sample_crypto None (stream_of [0, 0, 0, 6, 0, 0, 0, 1, 0, 7]) =
     (Ok (\<lparr>Opcode = 7, ReqPayload = None\<rparr>, 1), stream_of [])"
    by (simp add: ReadRequest_def Frame_Read_def DecryptRequest_def stream_of_def ReadFull_def Let_def
        get_be_def MaxFrameSize_def FrameMinData_def)
  moreover have "put_be 4 (99 :: u32) = [0, 0, 0, 99]" by code_simp
  ultimately show ?thesis
    using sequence_number_malleable [of sample_crypto None "stream_of [0, 0, 0, 6, 0, 0, 0, 1, 0, 7]"
        "\<lparr>Opcode = 7, ReqPayload = None\<rparr>" 1 "stream_of []" 99]
    by (simp add: stream_of_def)
qed

end
