(* ===== verification/Expiry.thy ===== *)
theory Expiry
  imports Hush_Prelude
begin

text \<open>
  The contract shared by the tables that age out: sessions (\<^verbatim>\<open>src/session/session.go\<close>) and
  media tokens (\<^verbatim>\<open>src/media/media.go\<close>). Both remember when an entry was born, and both
  sweep the entries whose age exceeds a lifetime. What follows from that alone is proved here
  once; the two stores interpret the locale.
\<close>

locale expiring_table =
  fixes inv :: "'s \<Rightarrow> bool" and lookup :: "'s \<Rightarrow> 'k \<Rightarrow> 'v option"
    and sweep :: "gotime \<Rightarrow> 's \<Rightarrow> 's" and born :: "'v \<Rightarrow> gotime" and ttl :: "'s \<Rightarrow> duration"
  assumes inv_sweep: "inv s \<Longrightarrow> inv (sweep now s)"
    and ttl_sweep: "ttl (sweep now s) = ttl s"
    and lookup_sweep: "inv s \<Longrightarrow> lookup (sweep now s) k =
      (case lookup s k of None \<Rightarrow> None
       | Some v \<Rightarrow> if time_since now (born v) > ttl s then None else Some v)"
begin

lemma sweep_Some_iff:
  "inv s \<Longrightarrow> lookup (sweep now s) k = Some v \<longleftrightarrow>
     lookup s k = Some v \<and> time_since now (born v) \<le> ttl s"
  by (auto simp: lookup_sweep split: option.splits)

lemma sweep_None: "inv s \<Longrightarrow> lookup s k = None \<Longrightarrow> lookup (sweep now s) k = None"
  by (simp add: lookup_sweep)

text \<open>Sweeping at a later time subsumes an earlier sweep.\<close>

lemma sweep_sweep:
  assumes "inv s" "now \<le> now'"
  shows "lookup (sweep now' (sweep now s)) k = lookup (sweep now' s) k"
proof -
  have "lookup (sweep now' (sweep now s)) k = Some v \<longleftrightarrow> lookup (sweep now' s) k = Some v" for v
    using time_since_mono [OF assms(2), of "born v"] assms(1)
    by (auto simp: sweep_Some_iff inv_sweep ttl_sweep)
  then show ?thesis by (metis not_None_eq)
qed

lemma sweep_bound: "inv s \<Longrightarrow> lookup (sweep now s) k = Some v \<Longrightarrow> time_since now (born v) \<le> ttl s"
  by (simp add: sweep_Some_iff)

text \<open>An entry that survives a sweep would have survived any earlier one.\<close>

lemma sweep_earlier:
  "inv s \<Longrightarrow> now \<le> now' \<Longrightarrow> lookup (sweep now' s) k = Some v \<Longrightarrow> lookup (sweep now s) k = Some v"
  using time_since_mono [of now now' "born v"] by (auto simp: sweep_Some_iff)

lemma sweep_dom: "inv s \<Longrightarrow> dom (lookup (sweep now s)) \<subseteq> dom (lookup s)"
  by (auto simp: sweep_Some_iff)

end

end
