(* ===== verification/Session_Store.thy ===== *)
theory Session_Store
  imports Expiry
begin

text \<open>
  Sessions and the session store, \<^verbatim>\<open>src/session/session.go\<close>. The store and the connection
  handlers share pointers to sessions (\<^verbatim>\<open>Touch\<close> through one is seen through the other), so
  sessions live in an explicit heap: a pointer is an index into a list of sessions, and
  allocation appends. The current time is an argument of the operations that read the clock.
  The store's mutex makes each operation atomic, so an operation is one step.
\<close>

section \<open>Sessions\<close>

definition DefaultIdleTimeout :: duration where "DefaultIdleTimeout = 5 * dur_minute"
definition DefaultMaxLifetime :: duration where "DefaultMaxLifetime = 24 * dur_hour"
definition DefaultGCInterval :: duration where "DefaultGCInterval = 1 * dur_minute"

record SessionConfig =
  IdleTimeout :: duration
  MaxLifetime :: duration
  GCInterval :: duration

definition fillDefaults :: "SessionConfig \<Rightarrow> SessionConfig" where
  "fillDefaults c =
     (let c = (if IdleTimeout c \<le> 0 then c\<lparr>IdleTimeout := DefaultIdleTimeout\<rparr> else c);
          c = (if MaxLifetime c \<le> 0 then c\<lparr>MaxLifetime := DefaultMaxLifetime\<rparr> else c);
          c = (if GCInterval c \<le> 0 then c\<lparr>GCInterval := DefaultGCInterval\<rparr> else c)
      in c)"

record Session =
  ID :: u64
  APIKeyID :: string
  Key :: "bytes option"
  CreatedAt :: gotime
  LastUsed :: gotime

type_synonym sheap = "Session list"
type_synonym sptr = nat

definition NewSession :: "gotime \<Rightarrow> u64 \<Rightarrow> string \<Rightarrow> bytes option \<Rightarrow> Session" where
  "NewSession now sid apiKeyID key =
     \<lparr>ID = sid, APIKeyID = apiKeyID, Key = key, CreatedAt = now, LastUsed = now\<rparr>"

definition alloc :: "Session \<Rightarrow> sheap \<Rightarrow> sptr \<times> sheap" where
  "alloc s H = (length H, H @ [s])"

definition Touch :: "gotime \<Rightarrow> sptr \<Rightarrow> sheap \<Rightarrow> sheap" where
  "Touch now p H = H[p := (H ! p)\<lparr>LastUsed := now\<rparr>]"

section \<open>The store\<close>

record SessionStore =
  ss_config :: SessionConfig
  ss_sessions :: "(u64, sptr) gomap"

definition NewSessionStore :: "SessionConfig \<Rightarrow> SessionStore" where
  "NewSessionStore config = \<lparr>ss_config = fillDefaults config, ss_sessions = []\<rparr>"

definition ss_Get :: "SessionStore \<Rightarrow> u64 \<Rightarrow> sptr option" where
  "ss_Get ss i = gm_get (ss_sessions ss) i"

definition ss_Set :: "sheap \<Rightarrow> sptr \<Rightarrow> SessionStore \<Rightarrow> SessionStore" where
  "ss_Set H p ss = ss\<lparr>ss_sessions := gm_set (ID (H ! p)) p (ss_sessions ss)\<rparr>"

definition ss_Delete :: "u64 \<Rightarrow> SessionStore \<Rightarrow> SessionStore" where
  "ss_Delete i ss = ss\<lparr>ss_sessions := gm_delete i (ss_sessions ss)\<rparr>"

definition IsExpired :: "gotime \<Rightarrow> SessionStore \<Rightarrow> Session \<Rightarrow> bool" where
  "IsExpired now ss s \<longleftrightarrow> time_since now (CreatedAt s) > MaxLifetime (ss_config ss)"

definition IsIdleDead :: "gotime \<Rightarrow> SessionStore \<Rightarrow> Session \<Rightarrow> bool" where
  "IsIdleDead now ss s \<longleftrightarrow> time_since now (LastUsed s) > IdleTimeout (ss_config ss)"

definition ss_GC :: "gotime \<Rightarrow> sheap \<Rightarrow> SessionStore \<Rightarrow> SessionStore" where
  "ss_GC now H ss = ss\<lparr>ss_sessions := gm_prune
     (\<lambda>i p. time_since now (CreatedAt (H ! p)) > MaxLifetime (ss_config ss)) (ss_sessions ss)\<rparr>"

definition ss_Len :: "SessionStore \<Rightarrow> nat" where
  "ss_Len ss = gm_len (ss_sessions ss)"

definition ss_Config :: "SessionStore \<Rightarrow> SessionConfig" where
  "ss_Config ss = ss_config ss"

lemmas ss_defs = ss_Get_def ss_Set_def ss_Delete_def ss_GC_def ss_Len_def ss_Config_def

section \<open>Configuration\<close>

lemma fillDefaults_pos:
  "0 < IdleTimeout (fillDefaults c) \<and> 0 < MaxLifetime (fillDefaults c) \<and> 0 < GCInterval (fillDefaults c)"
  by (simp add: fillDefaults_def Let_def DefaultIdleTimeout_def DefaultMaxLifetime_def
      DefaultGCInterval_def duration_defs)

lemma fillDefaults_idem [simp]: "fillDefaults (fillDefaults c) = fillDefaults c"
  using fillDefaults_pos [of c] unfolding fillDefaults_def [of "fillDefaults c"] by (simp add: Let_def)

section \<open>Well-formed stores\<close>

text \<open>
  A state of the store is its heap and its table. Every pointer in the table is allocated and
  is filed under the identifier of the session it points to; no session was used before it was
  created or after the present.
\<close>

type_synonym sstate = "sheap \<times> SessionStore"

definition ss_wf :: "gotime \<Rightarrow> sstate \<Rightarrow> bool" where
  "ss_wf now st \<longleftrightarrow> (case st of (H, ss) \<Rightarrow>
     gm_inv (ss_sessions ss) \<and>
     (\<forall>i p. ss_Get ss i = Some p \<longrightarrow> p < length H \<and> ID (H ! p) = i) \<and>
     (\<forall>s \<in> set H. CreatedAt s \<le> LastUsed s \<and> LastUsed s \<le> now))"

text \<open>What the table holds under an identifier, through the pointer.\<close>

definition ss_lookup :: "sstate \<Rightarrow> u64 \<Rightarrow> Session option" where
  "ss_lookup st i = (case st of (H, ss) \<Rightarrow> map_option (\<lambda>p. H ! p) (ss_Get ss i))"

definition ss_sweep :: "gotime \<Rightarrow> sstate \<Rightarrow> sstate" where
  "ss_sweep now st = (case st of (H, ss) \<Rightarrow> (H, ss_GC now H ss))"

interpretation sess: expiring_table
  "\<lambda>(H, ss). gm_inv (ss_sessions ss)" ss_lookup ss_sweep CreatedAt "\<lambda>(H, ss). MaxLifetime (ss_config ss)"
proof
  fix st :: sstate and now i
  obtain H ss where st: "st = (H, ss)" by (cases st)
  show "case ss_sweep now st of (H, ss) \<Rightarrow> gm_inv (ss_sessions ss)"
    if "case st of (H, ss) \<Rightarrow> gm_inv (ss_sessions ss)"
    using that by (simp add: st ss_sweep_def ss_GC_def gm.inv_prune)
  show "(case ss_sweep now st of (H, ss) \<Rightarrow> MaxLifetime (ss_config ss)) =
      (case st of (H, ss) \<Rightarrow> MaxLifetime (ss_config ss))"
    by (simp add: st ss_sweep_def ss_GC_def)
  show "ss_lookup (ss_sweep now st) i = (case ss_lookup st i of None \<Rightarrow> None
       | Some v \<Rightarrow> if (case st of (H, ss) \<Rightarrow> MaxLifetime (ss_config ss)) < time_since now (CreatedAt v)
           then None else Some v)"
    if "case st of (H, ss) \<Rightarrow> gm_inv (ss_sessions ss)"
    using that by (simp add: st ss_lookup_def ss_sweep_def ss_GC_def ss_Get_def gm.get_prune
        split: option.split)
qed

section \<open>The life of a store\<close>

text \<open>
  What the server does to a store, as a step relation over states and the clock: accept a
  session (\<^verbatim>\<open>NewSession\<close> then \<^verbatim>\<open>Set\<close>), \<^verbatim>\<open>Touch\<close> one through a
  pointer it holds, \<^verbatim>\<open>Delete\<close>, \<^verbatim>\<open>GC\<close>, and let time pass.
\<close>

inductive ss_step :: "gotime \<times> sstate \<Rightarrow> gotime \<times> sstate \<Rightarrow> bool" where
  accept: "alloc (NewSession now i k key) H = (p, H') \<Longrightarrow>
     ss_step (now, H, ss) (now, H', ss_Set H' p ss)"
| touch: "p < length H \<Longrightarrow> ss_step (now, H, ss) (now, Touch now p H, ss)"
| delete: "ss_step (now, H, ss) (now, H, ss_Delete i ss)"
| gc: "ss_step (now, H, ss) (now, H, ss_GC now H ss)"
| tick: "now \<le> now' \<Longrightarrow> ss_step (now, st) (now', st)"

lemma ss_wf_init: "ss_wf now ([], NewSessionStore c)"
  by (simp add: ss_wf_def NewSessionStore_def ss_Get_def gm_get_def gm_inv_def)

lemma ss_wf_accept:
  assumes "ss_wf now (H, ss)" "alloc (NewSession now i k key) H = (p, H')"
  shows "ss_wf now (H', ss_Set H' p ss)"
  using assms
  by (auto simp: ss_wf_def alloc_def ss_Set_def ss_Get_def gm.inv_put gm.get_put NewSession_def
      nth_append less_SucI split: if_splits)

lemma ss_wf_touch:
  assumes "ss_wf now (H, ss)" "p < length H"
  shows "ss_wf now (Touch now p H, ss)"
proof -
  have "ID (Touch now p H ! q) = ID (H ! q)" for q
    by (cases "q = p") (use assms(2) in \<open>auto simp: Touch_def\<close>)
  moreover have "CreatedAt s \<le> LastUsed s \<and> LastUsed s \<le> now" if "s \<in> set (Touch now p H)" for s
  proof -
    have "CreatedAt (H ! p) \<le> LastUsed (H ! p)" "LastUsed (H ! p) \<le> now"
      using assms(1) nth_mem [OF assms(2)] by (simp_all add: ss_wf_def)
    then have "CreatedAt (H ! p) \<le> now" by simp
    then show ?thesis
      using that assms(1) by (fastforce simp: Touch_def ss_wf_def dest!: set_update_subset_insert [THEN subsetD])
  qed
  ultimately show ?thesis
    using assms(1) by (simp add: ss_wf_def) (simp add: Touch_def)
qed

lemma ss_wf_delete: "ss_wf now (H, ss) \<Longrightarrow> ss_wf now (H, ss_Delete i ss)"
  by (auto simp: ss_wf_def ss_Delete_def ss_Get_def gm.inv_del gm.get_del split: if_splits)

lemma ss_wf_gc: "ss_wf now (H, ss) \<Longrightarrow> ss_wf now (H, ss_GC now' H ss)"
  by (auto simp: ss_wf_def ss_GC_def ss_Get_def gm.inv_prune gm.get_prune_Some_iff)

lemma ss_wf_tick: "ss_wf now st \<Longrightarrow> now \<le> now' \<Longrightarrow> ss_wf now' st"
  by (force simp: ss_wf_def)

lemma ss_step_wf: "ss_step (now, st) (now', st') \<Longrightarrow> ss_wf now st \<Longrightarrow> ss_wf now' st' \<and> now \<le> now'"
  by (induction "(now, st)" "(now', st')" rule: ss_step.induct)
    (auto intro: ss_wf_accept ss_wf_touch ss_wf_delete ss_wf_gc ss_wf_tick)


lemma Touch_nth:
  "p < length H \<Longrightarrow> Touch now p H ! q = (if q = p then (H ! q)\<lparr>LastUsed := now\<rparr> else H ! q)"
  by (simp add: Touch_def)

lemma length_Touch [simp]: "length (Touch now p H) = length H"
  by (simp add: Touch_def)

text \<open>What no step changes: the configuration, and of an allocated session everything but
  \<^verbatim>\<open>LastUsed\<close>, which only grows.\<close>

definition same_session :: "Session \<Rightarrow> Session \<Rightarrow> bool" where
  "same_session s s' \<longleftrightarrow> ID s' = ID s \<and> APIKeyID s' = APIKeyID s \<and> Key s' = Key s \<and>
     CreatedAt s' = CreatedAt s \<and> LastUsed s \<le> LastUsed s'"

lemma same_session_trans: "same_session s t \<Longrightarrow> same_session t u \<Longrightarrow> same_session s u"
  by (simp add: same_session_def)

lemma ss_step_frame:
  assumes "ss_step (now, H, ss) (now', H', ss')" "ss_wf now (H, ss)"
  shows "ss_config ss' = ss_config ss \<and> length H \<le> length H' \<and>
    (\<forall>p < length H. same_session (H ! p) (H' ! p))"
  using assms(1)
proof (cases rule: ss_step.cases)
  case (touch p)
  have "LastUsed (H ! p) \<le> now"
    using assms(2) nth_mem [OF touch(4)] by (auto simp: ss_wf_def)
  with touch show ?thesis by (simp add: same_session_def Touch_nth)
qed (auto simp: same_session_def alloc_def nth_append ss_Set_def ss_Delete_def ss_GC_def)

abbreviation ss_run :: "gotime \<times> sstate \<Rightarrow> gotime \<times> sstate \<Rightarrow> bool" where
  "ss_run \<equiv> ss_step\<^sup>*\<^sup>*"

lemma ss_run_invariant:
  assumes "ss_run (now, H, ss) (now', H', ss')" "ss_wf now (H, ss)"
  shows "ss_wf now' (H', ss') \<and> now \<le> now' \<and> ss_config ss' = ss_config ss \<and> length H \<le> length H' \<and>
    (\<forall>p < length H. same_session (H ! p) (H' ! p))"
  using assms
proof (induction "(now', H', ss')" arbitrary: now' H' ss' rule: rtranclp_induct)
  case base
  then show ?case by (simp add: same_session_def)
next
  case (step y)
  obtain n1 H1 ss1 where y: "y = (n1, H1, ss1)" by (metis prod.exhaust)
  note ih = step.hyps(3) [OF y step.prems]
  note st = step.hyps(2) [unfolded y]
  from ss_step_wf [OF st] ss_step_frame [OF st] ih show ?case
    by (auto intro: same_session_trans)
qed

text \<open>
  C11. The session store is sound in every state the server can bring it to: whatever
  \<^verbatim>\<open>Get(id)\<close> returns is a live pointer to a session with that very identifier, whose
  \<^verbatim>\<open>LastUsed\<close> lies between its creation and the present; \<^verbatim>\<open>Len\<close> counts the identifiers;
  and the configuration is the one given at the start with every non-positive duration
  replaced by its default.
\<close>

theorem session_store_sound:
  assumes "ss_run (t0, [], NewSessionStore c) (now, H, ss)"
  shows "(\<forall>i p. ss_Get ss i = Some p \<longrightarrow> p < length H \<and> ID (H ! p) = i \<and>
        CreatedAt (H ! p) \<le> LastUsed (H ! p) \<and> LastUsed (H ! p) \<le> now) \<and>
    ss_Len ss = card {i. ss_Get ss i \<noteq> None} \<and>
    ss_Config ss = fillDefaults c \<and>
    0 < IdleTimeout (ss_Config ss) \<and> 0 < MaxLifetime (ss_Config ss) \<and> 0 < GCInterval (ss_Config ss)"
proof -
  note r = ss_run_invariant [OF assms ss_wf_init]
  have "ss_config ss = fillDefaults c" using r by (simp add: NewSessionStore_def)
  moreover have "ss_Len ss = card {i. ss_Get ss i \<noteq> None}"
    using r by (simp add: ss_Len_def ss_Get_def ss_wf_def gm.size_of_card dom_def)
  ultimately show ?thesis
    using r fillDefaults_pos [of c] by (auto simp: ss_wf_def ss_Config_def)
qed

text \<open>
  Garbage collection is exact: in a state the server can reach, \<^verbatim>\<open>GC\<close> at time \<open>now\<close>
  keeps a session if and only if it is not expired then, unchanged and under the same
  identifier. How long a session has been idle plays no part.
\<close>

theorem session_gc_exact:
  assumes "ss_run (t0, [], NewSessionStore c) (now, H, ss)"
  shows "\<forall>i p. ss_Get (ss_GC now H ss) i = Some p \<longleftrightarrow>
      ss_Get ss i = Some p \<and> \<not> IsExpired now ss (H ! p)"
    using ss_run_invariant [OF assms ss_wf_init]
    by (auto simp: ss_wf_def ss_Get_def ss_GC_def gm.get_prune_Some_iff IsExpired_def)

text \<open>
  C28. The lifetime of a session is absolute. Whatever happens after a session was created, the
  identifier, the API key and the encryption key behind its pointer stay the same and so does
  its creation time; so once \<^verbatim>\<open>IsExpired\<close> holds it holds forever, however often the session
  is touched, while \<^verbatim>\<open>Touch\<close> does revive an idle session.
\<close>

theorem session_expiry_permanent:
  assumes "ss_run (t0, [], NewSessionStore c) (now, H, ss)"
    and "ss_run (now, H, ss) (now', H', ss')" and "p < length H"
  shows "p < length H' \<and> ID (H' ! p) = ID (H ! p) \<and> APIKeyID (H' ! p) = APIKeyID (H ! p) \<and>
    Key (H' ! p) = Key (H ! p) \<and> CreatedAt (H' ! p) = CreatedAt (H ! p) \<and>
    (IsExpired now ss (H ! p) \<longrightarrow> IsExpired now' ss' (H' ! p)) \<and>
    \<not> IsIdleDead now' ss' (Touch now' p H' ! p)"
proof -
  note r1 = ss_run_invariant [OF assms(1) ss_wf_init]
  note r2 = ss_run_invariant [OF assms(2)]
  have cfg: "ss_config ss = fillDefaults c" using r1 by (simp add: NewSessionStore_def)
  have r: "same_session (H ! p) (H' ! p)" "now \<le> now'" "ss_config ss' = ss_config ss" "p < length H'"
    using r1 r2 assms(3) by auto
  note fields = r(1) [unfolded same_session_def]
  have "IsExpired now ss (H ! p) \<longrightarrow> IsExpired now' ss' (H' ! p)"
    using fields r(3) time_since_mono [OF r(2), of "CreatedAt (H ! p)"] by (simp add: IsExpired_def)
  moreover have "\<not> IsIdleDead now' ss' (Touch now' p H' ! p)"
    using r(3,4) cfg fillDefaults_pos [of c] by (simp add: IsIdleDead_def Touch_nth)
  ultimately show ?thesis using fields r(4) by simp
qed

section \<open>Witnesses\<close>

definition sample_config :: SessionConfig where
  "sample_config = \<lparr>IdleTimeout = 0, MaxLifetime = 10, GCInterval = -5\<rparr>"

definition sample_session :: Session where
  "sample_session = NewSession 100 1 ''k'' None"

definition sample_store :: SessionStore where
  "sample_store = ss_Set [sample_session] 0 (NewSessionStore sample_config)"

lemma sample_run:
  "ss_run (100, [], NewSessionStore sample_config) (100, [sample_session], sample_store)"
  "ss_run (100, [sample_session], sample_store) (200, [sample_session], sample_store)"
proof -
  have "ss_step (100, [], NewSessionStore sample_config) (100, [sample_session], sample_store)"
    unfolding sample_store_def
    by (rule ss_step.accept [where i = 1 and k = "''k''" and key = None])
      (simp add: alloc_def sample_session_def)
  then show "ss_run (100, [], NewSessionStore sample_config) (100, [sample_session], sample_store)"
    by blast
  have "ss_step (100, [sample_session], sample_store) (200, [sample_session], sample_store)"
    by (rule ss_step.tick) simp
  then show "ss_run (100, [sample_session], sample_store) (200, [sample_session], sample_store)"
    by blast
qed

lemma sample_run_late:
  "ss_run (100, [], NewSessionStore sample_config) (200, [sample_session], sample_store)"
  using sample_run by (rule rtranclp_trans)

lemmas sample_defs = sample_store_def sample_session_def sample_config_def NewSession_def
  NewSessionStore_def fillDefaults_def Let_def ss_Set_def ss_Get_def gm_get_def gm_set_def

theorem session_store_sound_witness:
  "ss_Get sample_store 1 = Some 0 \<and> ID ([sample_session] ! 0) = 1 \<and>
   MaxLifetime (ss_Config sample_store) = 10 \<and> IdleTimeout (ss_Config sample_store) = DefaultIdleTimeout"
proof -
  have "ss_Get sample_store 1 = Some 0" by (simp add: sample_defs)
  moreover from this session_store_sound [OF sample_run(1)] have "ID ([sample_session] ! 0) = 1"
    by blast
  moreover have "ss_Config sample_store = fillDefaults sample_config"
    using session_store_sound [OF sample_run(1)] by blast
  ultimately show ?thesis
    by (simp add: sample_config_def fillDefaults_def)
qed

theorem session_gc_exact_witness:
  "ss_Get sample_store 1 = Some 0 \<and> ss_Get (ss_GC 200 [sample_session] sample_store) 1 = None"
proof -
  have "ss_Get sample_store 1 = Some 0" "IsExpired 200 sample_store sample_session"
    by (simp_all add: IsExpired_def sample_defs time_since_def max_duration_def min_duration_def)
  then show ?thesis
    using session_gc_exact [OF sample_run_late] by (metis nth_Cons_0 option.exhaust option.inject)
qed

theorem session_expiry_permanent_witness:
  "\<not> IsIdleDead 200 sample_store (Touch 200 0 [sample_session] ! 0) \<and>
   CreatedAt ([sample_session] ! 0) = 100"
  using session_expiry_permanent [OF sample_run(1) sample_run(2), of 0]
  by (simp add: sample_session_def NewSession_def)

end
