(* ===== verification/Session_Negotiate.thy ===== *)
theory Session_Negotiate
  imports Session_Crypto Session_Store
begin

text \<open>
  The session handshake of \<^verbatim>\<open>src/session/negotiate.go\<close>. The client sends the length of its
  API key identifier, the identifier and its public key; the server answers with its own
  public key and a session identifier, and both derive the session key from the Diffie-Hellman
  secret and the API key's secret (or a fixed string for an anonymous session). The server's
  \<^verbatim>\<open>nextSessionID\<close> is a function that advances a counter; the API key store is an interface
  value, possibly nil, with \<^verbatim>\<open>MapKeyStore\<close> as the implementation in the package.
\<close>

record APIKey =
  KeyID :: string
  Secret :: bytes

text \<open>\<^verbatim>\<open>copy\<close> into a zeroed buffer of \<open>n\<close> bytes, and \<^verbatim>\<open>ecdh.X25519().NewPublicKey\<close>, which
  checks the length only.\<close>

definition go_copy :: "nat \<Rightarrow> bytes \<Rightarrow> bytes" where
  "go_copy n src = take n src @ replicate (n - length src) 0"

definition NewPublicKey :: "bytes \<Rightarrow> bytes option" where
  "NewPublicKey b = (if length b = PubKeySize then Some b else None)"

definition anonymous :: "APIKey option \<Rightarrow> bool" where
  "anonymous key \<longleftrightarrow> (case key of None \<Rightarrow> True | Some k \<Rightarrow> KeyID k = [])"

definition client_hello :: "APIKey option \<Rightarrow> bytes \<Rightarrow> bytes" where
  "client_hello key clientPub =
     (case key of
        Some k \<Rightarrow>
          (if KeyID k = [] then put_be 2 (0 :: u16) @ go_copy PubKeySize clientPub
           else put_be 2 (of_nat (length (KeyID k)) :: u16) @ bytes_of_string (KeyID k) @
                go_copy PubKeySize clientPub)
      | None \<Rightarrow> put_be 2 (0 :: u16) @ go_copy PubKeySize clientPub)"

definition anonymous_secret :: bytes where
  "anonymous_secret = bytes_of_string ''hush-anonymous''"

definition client_secret :: "APIKey option \<Rightarrow> bytes" where
  "client_secret key =
     (case key of Some k \<Rightarrow> (if KeyID k = [] then anonymous_secret else Secret k)
      | None \<Rightarrow> anonymous_secret)"

definition client_key_id :: "APIKey option \<Rightarrow> string" where
  "client_key_id key = (case key of Some k \<Rightarrow> KeyID k | None \<Rightarrow> [])"

definition NegotiateClient ::
    "crypto \<Rightarrow> gotime \<Rightarrow> APIKey option \<Rightarrow> bytes \<Rightarrow> (stream, sess_err, Session) io" where
  "NegotiateClient C now key clientPriv s =
     sbind (swrap NegSendInit (stream_Write (client_hello key (x25519_PublicKey C clientPriv)) s))
       (\<lambda>_ s.
     sbind (swrap NegReadResponse (ReadFull (PubKeySize + 8) s)) (\<lambda>resp s.
       let serverPubKey = take PubKeySize resp;
           sessionID = (get_be (drop PubKeySize resp) :: u64)
       in case NewPublicKey serverPubKey of
            None \<Rightarrow> (Err NegInvalidServerPub, s)
          | Some serverPub \<Rightarrow>
              (rbind (map_err NegSharedSecret (SharedSecret C clientPriv serverPub)) (\<lambda>shared.
               rbind (map_err NegDeriveKey (DeriveSessionKey C shared (client_secret key)))
                 (\<lambda>sessionKey.
               Ok (NewSession now sessionID (client_key_id key) (Some sessionKey)))), s)))"

section \<open>The server\<close>

text \<open>
  What both branches of \<^verbatim>\<open>NegotiateServer\<close> do once they know the secret and the client's
  public key. The state is the counter of session identifiers and the stream.
\<close>

definition server_finish ::
    "crypto \<Rightarrow> gotime \<Rightarrow> bytes \<Rightarrow> ('n \<Rightarrow> u64 \<times> 'n) \<Rightarrow> string \<Rightarrow> bytes \<Rightarrow> bytes \<Rightarrow>
     ('n \<times> stream, sess_err, Session) io" where
  "server_finish C now serverPriv nextSessionID apiKeyID apiKeySecret clientPubKey ns =
     (case ns of (n, s) \<Rightarrow>
      case NewPublicKey clientPubKey of
        None \<Rightarrow> (Err NegInvalidClientPub, (n, s))
      | Some clientPub \<Rightarrow>
          (let serverPub = x25519_PublicKey C serverPriv;
               (sessionID, n) = nextSessionID n
           in case rbind (map_err NegSharedSecret (SharedSecret C serverPriv clientPub)) (\<lambda>shared.
                   map_err NegDeriveKey (DeriveSessionKey C shared apiKeySecret)) of
                Ok sessionKey \<Rightarrow>
                  (case stream_Write (go_copy PubKeySize serverPub @ put_be 8 sessionID) s of
                     (Ok _, s) \<Rightarrow> (Ok (NewSession now sessionID apiKeyID (Some sessionKey)), (n, s))
                   | (Err e, s) \<Rightarrow> (Err (NegSendResponse e), (n, s))
                   | (Panic p, s) \<Rightarrow> (Panic p, (n, s)))
              | Err e \<Rightarrow> (Err e, (n, s))
              | Panic p \<Rightarrow> (Panic p, (n, s))))"

text \<open>Running a read on the stream component of that state.\<close>

definition on_stream :: "(stream, 'e, 'a) io \<Rightarrow> ('n \<times> stream, 'e, 'a) io" where
  "on_stream f ns = (case ns of (n, s) \<Rightarrow> (case f s of (r, s') \<Rightarrow> (r, (n, s'))))"

definition NegotiateServer ::
    "crypto \<Rightarrow> gotime \<Rightarrow> bytes \<Rightarrow> (string \<Rightarrow> bytes option) option \<Rightarrow> ('n \<Rightarrow> u64 \<times> 'n) \<Rightarrow>
     ('n \<times> stream, sess_err, Session) io" where
  "NegotiateServer C now serverPriv keyStore nextSessionID ns =
     sbind (swrap NegReadHeader (on_stream (ReadFull 2) ns)) (\<lambda>header ns.
       let keyLen = (get_be header :: u16) in
       if keyLen = 0 then
         sbind (swrap NegReadClientPub (on_stream (ReadFull PubKeySize) ns)) (\<lambda>clientPubKey ns.
           server_finish C now serverPriv nextSessionID [] anonymous_secret clientPubKey ns)
       else if keyLen > 256 then (Err (NegIdTooLong (unat keyLen)), ns)
       else
         sbind (swrap NegReadKeyPub (on_stream (ReadFull (unat keyLen + PubKeySize)) ns)) (\<lambda>keyBuf ns.
           let apiKeyID = string_of_bytes (take (unat keyLen) keyBuf);
               clientPubKey = drop (unat keyLen) keyBuf
           in case keyStore of
                None \<Rightarrow> (Panic PanicNilDeref, ns)
              | Some get \<Rightarrow>
                  (case get apiKeyID of
                     None \<Rightarrow> (Err (NegUnknownKey apiKeyID), ns)
                   | Some apiKeySecret \<Rightarrow>
                       server_finish C now serverPriv nextSessionID apiKeyID apiKeySecret clientPubKey ns)))"

section \<open>Keys\<close>

text \<open>\<^verbatim>\<open>MapKeyStore\<close>: a missing key and a nil secret look the same.\<close>

type_synonym MapKeyStore = "(string, bytes option) gomap"

definition MapKeyStore_Get :: "MapKeyStore \<Rightarrow> string \<Rightarrow> bytes option" where
  "MapKeyStore_Get m i = (case gm_get m i of None \<Rightarrow> None | Some secret \<Rightarrow> secret)"

definition GenerateAPIKey :: "(stream, sess_err, APIKey) io" where
  "GenerateAPIKey rnd =
     sbind (RandomBytes 32 rnd) (\<lambda>secret rnd.
     sbind (RandomBytes 8 rnd) (\<lambda>idBytes rnd.
       (Ok \<lparr>KeyID = hex_bytes idBytes, Secret = secret\<rparr>, rnd)))"


section \<open>Lemmas\<close>

lemma go_copy_exact [simp]: "length b = n \<Longrightarrow> go_copy n b = b"
  by (simp add: go_copy_def)

lemma length_go_copy [simp]: "length (go_copy n b) = n"
  by (simp add: go_copy_def)

lemma length_public_key [simp]: "dh_laws C \<Longrightarrow> length (x25519_PublicKey C a) = PubKeySize"
  by (simp add: dh_laws_def)

lemma on_stream_ReadFull:
  "length a = k \<Longrightarrow> sin s = a @ r \<Longrightarrow> on_stream (ReadFull k) (n, s) = (Ok a, (n, s\<lparr>sin := r\<rparr>))"
  by (simp add: on_stream_def ReadFull_append)

lemma DeriveSessionKey_ok:
  assumes "hkdf_laws C"
  shows "\<exists>k. DeriveSessionKey C shared secret = Ok k \<and> length k = 32"
  using assms [unfolded hkdf_laws_def, rule_format, of KeySize secret shared "''hush-v1-key''"]
  by (auto simp: DeriveSessionKey_def KeySize_def)

lemma get_be_take_put2: "get_be (put_be 2 (w :: u16)) = w"
  by (rule be16.get_put)

lemma unat_of_nat_u16: "n < 2 ^ 16 \<Longrightarrow> unat (of_nat n :: u16) = n"
  by (simp add: unsigned_of_nat take_bit_nat_eq_self)

text \<open>How the server reads the two kinds of client message.\<close>

lemma NegotiateServer_anonymous:
  assumes "sin s = put_be 2 (0 :: u16) @ pub @ rest" "length pub = PubKeySize"
  shows "NegotiateServer C now priv ks nx (n, s) =
    server_finish C now priv nx [] anonymous_secret pub (n, s\<lparr>sin := rest\<rparr>)"
proof -
  have 1: "on_stream (ReadFull 2) (n, s) = (Ok (put_be 2 (0 :: u16)), (n, s\<lparr>sin := pub @ rest\<rparr>))"
    using assms(1) by (intro on_stream_ReadFull) simp_all
  have 2: "on_stream (ReadFull PubKeySize) (n, s\<lparr>sin := pub @ rest\<rparr>) = (Ok pub, (n, s\<lparr>sin := rest\<rparr>))"
    using on_stream_ReadFull [OF assms(2), of "s\<lparr>sin := pub @ rest\<rparr>" rest n] by simp
  show ?thesis
    unfolding NegotiateServer_def 1 using 2 by (simp add: get_be_take_put2 del: put_be.simps)
qed

lemma NegotiateServer_keyed:
  assumes "sin s = put_be 2 (of_nat (length i) :: u16) @ bytes_of_string i @ pub @ rest"
    "length pub = PubKeySize" "0 < length i" "length i \<le> 256"
  shows "NegotiateServer C now priv ks nx (n, s) =
    (case ks of None \<Rightarrow> (Panic PanicNilDeref, (n, s\<lparr>sin := rest\<rparr>))
     | Some get \<Rightarrow> (case get i of None \<Rightarrow> (Err (NegUnknownKey i), (n, s\<lparr>sin := rest\<rparr>))
         | Some secret \<Rightarrow> server_finish C now priv nx i secret pub (n, s\<lparr>sin := rest\<rparr>)))"
proof -
  let ?w = "of_nat (length i) :: u16"
  let ?s = "s\<lparr>sin := bytes_of_string i @ pub @ rest\<rparr>"
  have u: "unat ?w = length i" using assms(4) by (intro unat_of_nat_u16) simp
  have c1: "?w \<noteq> 0"
  proof
    assume "?w = 0"
    then have "unat ?w = 0" by (simp only: unsigned_0)
    with u assms(3) show False by simp
  qed
  have c2: "\<not> ?w > 256"
    unfolding word_less_nat_alt u using assms(4) by simp
  have 1: "on_stream (ReadFull 2) (n, s) = (Ok (put_be 2 ?w), (n, ?s))"
    using assms(1) by (intro on_stream_ReadFull) simp_all
  have 2: "on_stream (ReadFull (length i + PubKeySize)) (n, ?s) =
      (Ok (bytes_of_string i @ pub), (n, s\<lparr>sin := rest\<rparr>))"
    using on_stream_ReadFull [of "bytes_of_string i @ pub" "length i + PubKeySize" ?s rest n] assms(2)
    by simp
  show ?thesis
    unfolding NegotiateServer_def 1 using 2 c1 c2 u
    by (simp add: get_be_take_put2 del: put_be.simps split: option.split)
qed

lemma server_finish_ok:
  assumes "length pub = PubKeySize" "x25519_ECDH C priv pub = Some sh"
    "DeriveSessionKey C sh secret = Ok k" "\<not> sclosed s" "sroom s = None"
  shows "server_finish C now priv nx i secret pub (n, s) =
    (Ok (NewSession now (fst (nx n)) i (Some k)),
     (snd (nx n), s\<lparr>sout := sout s @ go_copy PubKeySize (x25519_PublicKey C priv) @
        put_be 8 (fst (nx n))\<rparr>))"
  using assms
  by (simp add: server_finish_def NewPublicKey_def SharedSecret_def stream_Write_open split_beta)

lemma NegotiateClient_ok:
  assumes "\<not> sclosed s" "sroom s = None" "sin s = spub @ put_be 8 i @ rest" "length spub = PubKeySize"
    "x25519_ECDH C priv spub = Some sh" "DeriveSessionKey C sh (client_secret key) = Ok k"
  shows "NegotiateClient C now key priv s =
    (Ok (NewSession now i (client_key_id key) (Some k)),
     s\<lparr>sout := sout s @ client_hello key (x25519_PublicKey C priv), sin := rest\<rparr>)"
proof -
  let ?s = "s\<lparr>sout := sout s @ client_hello key (x25519_PublicKey C priv)\<rparr>"
  have "ReadFull (PubKeySize + 8) ?s = (Ok (spub @ put_be 8 i), ?s\<lparr>sin := rest\<rparr>)"
    using assms by (intro ReadFull_append) simp_all
  then show ?thesis
    using assms by (simp add: NegotiateClient_def stream_Write_open NewPublicKey_def SharedSecret_def
        be64.get_put)
qed

section \<open>Agreement\<close>

text \<open>The client's message, its key accepted by the server's store.\<close>

definition key_accepted :: "APIKey option \<Rightarrow> (string \<Rightarrow> bytes option) option \<Rightarrow> bool" where
  "key_accepted key ks \<longleftrightarrow> anonymous key \<or>
     (\<exists>get. ks = Some get \<and> length (client_key_id key) \<le> 256 \<and>
        get (client_key_id key) = Some (client_secret key))"

lemma NegotiateServer_hello:
  assumes "key_accepted key ks" "sin s = client_hello key pub @ rest" "length pub = PubKeySize"
  shows "NegotiateServer C now priv ks nx (n, s) =
    server_finish C now priv nx (client_key_id key) (client_secret key) pub (n, s\<lparr>sin := rest\<rparr>)"
proof (cases "anonymous key")
  case True
  then have "sin s = put_be 2 (0 :: u16) @ pub @ rest" "client_key_id key = []"
      "client_secret key = anonymous_secret"
    using assms(2,3)
    by (auto simp: anonymous_def client_hello_def client_key_id_def client_secret_def split: option.splits)
  then show ?thesis using NegotiateServer_anonymous [OF _ assms(3)] by simp
next
  case False
  then obtain k where k: "key = Some k" "KeyID k \<noteq> []"
    by (auto simp: anonymous_def split: option.splits)
  from assms(1) False obtain get where g: "ks = Some get" "length (KeyID k) \<le> 256"
      "get (KeyID k) = Some (client_secret key)"
    by (auto simp: key_accepted_def client_key_id_def k)
  have "sin s = put_be 2 (of_nat (length (KeyID k)) :: u16) @ bytes_of_string (KeyID k) @ pub @ rest"
    using assms(2,3) k by (simp add: client_hello_def)
  from NegotiateServer_keyed [OF this assms(3), where C = C and now = now and priv = priv
      and ks = ks and nx = nx and n = n] k g show ?thesis
    by (simp add: client_key_id_def)
qed

lemma handshake_runs:
  assumes "dh_laws C" "hkdf_laws C" "key_accepted key ks" "x25519_ECDH C cpriv (x25519_PublicKey C spriv) \<noteq> None"
  obtains k where "length k = 32"
    "\<And>s rest n. sin s = client_hello key (x25519_PublicKey C cpriv) @ rest \<Longrightarrow> \<not> sclosed s \<Longrightarrow> sroom s = None \<Longrightarrow>
       NegotiateServer C snow spriv ks nx (n, s) =
         (Ok (NewSession snow (fst (nx n)) (client_key_id key) (Some k)),
          (snd (nx n), s\<lparr>sin := rest, sout := sout s @ x25519_PublicKey C spriv @ put_be 8 (fst (nx n))\<rparr>))"
    "\<And>s rest i. sin s = (x25519_PublicKey C spriv @ put_be 8 i) @ rest \<Longrightarrow> \<not> sclosed s \<Longrightarrow> sroom s = None \<Longrightarrow>
       NegotiateClient C cnow key cpriv s =
         (Ok (NewSession cnow i (client_key_id key) (Some k)),
          s\<lparr>sin := rest, sout := sout s @ client_hello key (x25519_PublicKey C cpriv)\<rparr>)"
proof -
  let ?cpub = "x25519_PublicKey C cpriv" and ?spub = "x25519_PublicKey C spriv"
  obtain sh where sh: "x25519_ECDH C cpriv ?spub = Some sh" "x25519_ECDH C spriv ?cpub = Some sh"
    using assms(1,4) by (auto simp: dh_laws_def)
  obtain k where k: "DeriveSessionKey C sh (client_secret key) = Ok k" "length k = 32"
    using DeriveSessionKey_ok [OF assms(2)] by blast
  have srv: "NegotiateServer C snow spriv ks nx (n, s) =
      (Ok (NewSession snow (fst (nx n)) (client_key_id key) (Some k)),
       (snd (nx n), s\<lparr>sin := rest, sout := sout s @ ?spub @ put_be 8 (fst (nx n))\<rparr>))"
    if "sin s = client_hello key ?cpub @ rest" "\<not> sclosed s" "sroom s = None" for s rest n
    using NegotiateServer_hello [OF assms(3) that(1), where C = C and now = snow and priv = spriv
        and nx = nx and n = n]
      server_finish_ok [OF _ sh(2) k(1), where s = "s\<lparr>sin := rest\<rparr>" and now = snow
        and nx = nx and n = n and i = "client_key_id key"] that(2,3) assms(1)
    by simp
  have cli: "NegotiateClient C cnow key cpriv s =
      (Ok (NewSession cnow i (client_key_id key) (Some k)),
       s\<lparr>sin := rest, sout := sout s @ client_hello key ?cpub\<rparr>)"
    if "sin s = (?spub @ put_be 8 i) @ rest" "\<not> sclosed s" "sroom s = None" for s rest i
    using NegotiateClient_ok [OF that(2,3) _ _ sh(1) k(1), of i rest] that(1) assms(1) by simp
  show thesis by (rule that [OF k(2) srv cli])
qed

text \<open>
  C6. Handshake agreement. When client and server run the handshake against each other, with an
  API key the server knows or anonymously, and the Diffie-Hellman exchange is defined, both
  succeed and end with the same session identifier (the nx one of the server), the same API
  key identifier and the same 32-byte key; each consumes exactly the other's message.
\<close>

theorem handshake_agreement:
  assumes "dh_laws C" and "hkdf_laws C" and "key_accepted key ks"
    and "x25519_ECDH C cpriv (x25519_PublicKey C spriv) \<noteq> None"
  shows "let hello = client_hello key (x25519_PublicKey C cpriv);
      resp = (\<lambda>i. x25519_PublicKey C spriv @ put_be 8 (i :: u64))
    in \<exists>k. length k = 32 \<and>
     (\<forall>s rest n. sin s = hello @ rest \<and> \<not> sclosed s \<and> sroom s = None \<longrightarrow>
        NegotiateServer C snow spriv ks nx (n, s) =
          (Ok (NewSession snow (fst (nx n)) (client_key_id key) (Some k)),
           (snd (nx n), s\<lparr>sin := rest, sout := sout s @ resp (fst (nx n))\<rparr>))) \<and>
     (\<forall>s rest i. sin s = resp i @ rest \<and> \<not> sclosed s \<and> sroom s = None \<longrightarrow>
        NegotiateClient C cnow key cpriv s =
          (Ok (NewSession cnow i (client_key_id key) (Some k)),
           s\<lparr>sin := rest, sout := sout s @ hello\<rparr>))"
  unfolding Let_def
  by (rule handshake_runs [OF assms, of snow nx cnow]) (intro exI conjI, auto)

lemma stream_of_simps:
  "sin (stream_of b) = b" "sout (stream_of b) = []" "sclosed (stream_of b) = False"
  "sroom (stream_of b) = None" "(stream_of b)\<lparr>sin := c, sout := d\<rparr> = (stream_of c)\<lparr>sout := d\<rparr>"
  by (simp_all add: stream_of_def)

theorem handshake_agreement_witness:
  "\<exists>k. NegotiateServer sample_crypto 50 (replicate 32 3) (Some (\<lambda>i. if i = ''svc'' then Some [9] else None))
        (\<lambda>n. (n + 1, n + 1)) (4 :: u64, (stream_of
          (client_hello (Some \<lparr>KeyID = ''svc'', Secret = [9]\<rparr>) (replicate 32 5)))) =
      (Ok (NewSession 50 5 ''svc'' (Some k)),
       (5, (stream_of [])\<lparr>sout := replicate 32 3 @ put_be 8 (5 :: u64)\<rparr>)) \<and>
     NegotiateClient sample_crypto 60 (Some \<lparr>KeyID = ''svc'', Secret = [9]\<rparr>) (replicate 32 5)
        (stream_of (replicate 32 3 @ put_be 8 (5 :: u64))) =
      (Ok (NewSession 60 5 ''svc'' (Some k)),
       (stream_of [])\<lparr>sout := client_hello (Some \<lparr>KeyID = ''svc'', Secret = [9]\<rparr>) (replicate 32 5)\<rparr>) \<and>
     length k = 32"
proof -
  let ?key = "Some \<lparr>KeyID = ''svc'', Secret = [9]\<rparr>"
  let ?ks = "Some (\<lambda>i. if i = ''svc'' then Some [9 :: byte] else None)"
  let ?nx = "\<lambda>n. (n + 1, n + 1) :: u64 \<times> u64"
  have a: "key_accepted ?key ?ks"
    by (simp add: key_accepted_def client_key_id_def client_secret_def)
  have e: "x25519_ECDH sample_crypto (replicate 32 5) (x25519_PublicKey sample_crypto (replicate 32 3)) \<noteq> None"
    by (simp add: sample_crypto_def)
  have p: "x25519_PublicKey sample_crypto (replicate 32 3) = replicate 32 3"
      "x25519_PublicKey sample_crypto (replicate 32 5) = replicate 32 5"
    by (simp_all add: sample_crypto_def pad32_def)
  have l: "client_key_id ?key = ''svc''" by (simp add: client_key_id_def)
  from handshake_agreement [OF sample_crypto_laws(2,3) a e, of 50 ?nx 60, unfolded Let_def p l]
  obtain k where k: "length k = 32"
      "\<forall>s rest n. sin s = client_hello ?key (replicate 32 5) @ rest \<and> \<not> sclosed s \<and> sroom s = None \<longrightarrow>
        NegotiateServer sample_crypto 50 (replicate 32 3) ?ks ?nx (n, s) =
          (Ok (NewSession 50 (fst (?nx n)) ''svc'' (Some k)),
           (snd (?nx n), s\<lparr>sin := rest, sout := sout s @ replicate 32 3 @ put_be 8 (fst (?nx n))\<rparr>))"
      "\<forall>s rest i. sin s = (replicate 32 3 @ put_be 8 i) @ rest \<and> \<not> sclosed s \<and> sroom s = None \<longrightarrow>
        NegotiateClient sample_crypto 60 ?key (replicate 32 5) s =
          (Ok (NewSession 60 i ''svc'' (Some k)),
           s\<lparr>sin := rest, sout := sout s @ client_hello ?key (replicate 32 5)\<rparr>)"
    by (elim exE conjE)
  have five: "(4 :: u64) + 1 = 5" by simp
  show ?thesis
    using k(1) k(2) [rule_format, of "stream_of (client_hello ?key (replicate 32 5))" "[]" 4]
      k(3) [rule_format, of "stream_of (replicate 32 3 @ put_be 8 (5 :: u64))" 5 "[]"]
    by (intro exI [of _ k]) (simp only: stream_of_simps fst_conv snd_conv append_Nil append_Nil2
        append.assoc not_False_eq_True simp_thms five)
qed

section \<open>What the server accepts and refuses\<close>

lemma server_finish_Ok:
  assumes "server_finish C now priv nx i secret cpub (n, s) = (Ok sess, (n', s'))"
  shows "\<exists>sh k. length cpub = PubKeySize \<and> x25519_ECDH C priv cpub = Some sh \<and>
     DeriveSessionKey C sh secret = Ok k \<and> sess = NewSession now (fst (nx n)) i (Some k) \<and>
     n' = snd (nx n) \<and> sout s' = sout s @ go_copy PubKeySize (x25519_PublicKey C priv) @ put_be 8 (fst (nx n)) \<and>
     sin s' = sin s"
  using assms
  by (auto simp: server_finish_def NewPublicKey_def SharedSecret_def stream_Write_def split_beta Let_def
      split: if_splits option.splits result.splits)

lemma server_finish_Err:
  assumes "server_finish C now priv nx i secret cpub (n, s) = (Err e, (n', s'))"
  shows "((\<forall>w. e \<noteq> NegSendResponse w) \<longrightarrow> sout s' = sout s) \<and>
    (n' = n \<or> (\<exists>f. e = NegSharedSecret f) \<or> (\<exists>f. e = NegDeriveKey f) \<or> (\<exists>w. e = NegSendResponse w))"
  using assms
  by (auto simp: server_finish_def NewPublicKey_def SharedSecret_def DeriveSessionKey_def split_beta Let_def
      split: if_splits option.splits result.splits prod.splits)

lemma SharedSecret_no_panic [simp]: "SharedSecret C a b \<noteq> Panic p"
  by (simp add: SharedSecret_def split: option.splits)

lemma DeriveSessionKey_no_panic [simp]: "DeriveSessionKey C a b \<noteq> Panic p"
  by (simp add: DeriveSessionKey_def split: option.splits)

lemma server_finish_no_panic: "server_finish C now priv nx i secret cpub (n, s) \<noteq> (Panic p, ns')"
proof -
  have "fst (stream_Write b s) \<noteq> Panic q" for b q
    by (metis prod.collapse stream_Write_no_panic)
  then show ?thesis
    by (simp add: server_finish_def split_beta Let_def split: option.splits result.splits prod.splits)
qed


text \<open>How a run continues once the two header bytes are read.\<close>

lemma NegotiateServer_header:
  assumes "ReadFull 2 s = (Ok hdr, s1)"
  shows "NegotiateServer C now priv ks nx (n, s) =
    (let k = get_be hdr :: u16 in
     if k = 0 then
       (case ReadFull PubKeySize s1 of
          (Ok cpub, s2) \<Rightarrow> server_finish C now priv nx [] anonymous_secret cpub (n, s2)
        | (Err e, s2) \<Rightarrow> (Err (NegReadClientPub e), (n, s2))
        | (Panic p, s2) \<Rightarrow> (Panic p, (n, s2)))
     else if k > 256 then (Err (NegIdTooLong (unat k)), (n, s1))
     else (case ReadFull (unat k + PubKeySize) s1 of
          (Ok buf, s2) \<Rightarrow>
            (case ks of None \<Rightarrow> (Panic PanicNilDeref, (n, s2))
             | Some get \<Rightarrow> (case get (string_of_bytes (take (unat k) buf)) of
                 None \<Rightarrow> (Err (NegUnknownKey (string_of_bytes (take (unat k) buf))), (n, s2))
               | Some secret \<Rightarrow> server_finish C now priv nx (string_of_bytes (take (unat k) buf)) secret
                   (drop (unat k) buf) (n, s2)))
        | (Err e, s2) \<Rightarrow> (Err (NegReadKeyPub e), (n, s2))
        | (Panic p, s2) \<Rightarrow> (Panic p, (n, s2))))"
  using assms by (simp add: NegotiateServer_def on_stream_def Let_def split: prod.split result.split)

lemma key_id_bounds:
  assumes "ReadFull (unat k + PubKeySize) s = (Ok buf, s')" "(k :: u16) \<noteq> 0" "\<not> k > 256"
  shows "string_of_bytes (take (unat k) buf) \<noteq> []" "length (string_of_bytes (take (unat k) buf)) \<le> 256"
proof -
  have "length buf = unat k + PubKeySize" "unat k \<noteq> 0" "unat k \<le> 256"
    using assms by (auto simp: ReadFull_def word_less_nat_alt unat_eq_zero split: if_splits)
  then show "string_of_bytes (take (unat k) buf) \<noteq> []" "length (string_of_bytes (take (unat k) buf)) \<le> 256"
    by (auto simp flip: length_0_conv)
qed

text \<open>The ways a run of the server can end, as one elimination rule.\<close>

lemma NegotiateServer_cases:
  assumes "NegotiateServer C now priv ks nx (n, s) = (r, (n', s'))"
  obtains
    (Anonymous) cpub s1 where "sout s1 = sout s"
      "server_finish C now priv nx [] anonymous_secret cpub (n, s1) = (r, (n', s'))"
  | (Keyed) i get secret cpub s1 where "sout s1 = sout s" "ks = Some get" "i \<noteq> []" "length i \<le> 256"
      "get i = Some secret" "server_finish C now priv nx i secret cpub (n, s1) = (r, (n', s'))"
  | (NoStore) "ks = None" "r = Panic PanicNilDeref"
  | (Refused) e where "r = Err e" "n' = n" "sout s' = sout s"
      "(\<exists>w. e = NegReadHeader w) \<or> (\<exists>w. e = NegReadClientPub w) \<or> (\<exists>w. e = NegReadKeyPub w) \<or>
       (\<exists>l. e = NegIdTooLong l) \<or> (\<exists>i. e = NegUnknownKey i)"
proof (cases "ReadFull 2 s")
  case (Pair h s1)
  have o1: "sout s1 = sout s" using Pair ReadFull_fields(1) [of 2 s] by simp
  show thesis
  proof (cases h)
    case (Err e)
    with assms Pair o1 show thesis
      by (intro Refused [of "NegReadHeader e"]) (auto simp: NegotiateServer_def on_stream_def)
  next
    case (Ok hdr)
    let ?k = "get_be hdr :: u16"
    note run = assms [unfolded NegotiateServer_header [OF Pair [unfolded Ok]] Let_def]
    consider "?k = 0" | "?k \<noteq> 0" "?k > 256" | "?k \<noteq> 0" "\<not> ?k > 256" by blast
    then show thesis
    proof cases
      case 1
      obtain b s2 where b: "ReadFull PubKeySize s1 = (b, s2)" by fastforce
      have "sout s2 = sout s" using b o1 ReadFull_fields(1) [of PubKeySize s1] by simp
      with 1 run b show thesis
        by (auto split: result.splits intro: Anonymous Refused)
    next
      case 2
      with run o1 show thesis by (auto intro: Refused)
    next
      case 3
      obtain b s2 where b: "ReadFull (unat ?k + PubKeySize) s1 = (b, s2)" by fastforce
      have "sout s2 = sout s" using b o1 ReadFull_fields(1) [of "unat ?k + PubKeySize" s1] by simp
      with 3 run b key_id_bounds [of ?k s1 _ s2] show thesis
        by (auto split: prod.splits result.splits option.splits intro: Keyed Refused NoStore)
    qed
  qed (use Pair in simp)
qed

text \<open>
  C10. Every session the server establishes is authentic: it carries the next session
  identifier, its key was derived from a Diffie-Hellman exchange with the public key the client
  sent, and its API key identifier is either empty, with the key derived from the public
  anonymous constant, or one the key store knows, with the key derived from that identifier's
  secret. The client is told the server's public key and that identifier and nothing else.
\<close>

theorem server_session_authentic:
  assumes "NegotiateServer C now priv ks nx (n, s) = (Ok sess, (n', s'))"
  shows "ID sess = fst (nx n) \<and> n' = snd (nx n) \<and> CreatedAt sess = now \<and> LastUsed sess = now \<and>
    sout s' = sout s @ go_copy PubKeySize (x25519_PublicKey C priv) @ put_be 8 (ID sess) \<and>
    (\<exists>cpub sh secret k. length cpub = PubKeySize \<and> x25519_ECDH C priv cpub = Some sh \<and>
       DeriveSessionKey C sh secret = Ok k \<and> Key sess = Some k \<and>
       (if APIKeyID sess = [] then secret = anonymous_secret
        else length (APIKeyID sess) \<le> 256 \<and> (\<exists>get. ks = Some get \<and> get (APIKeyID sess) = Some secret)))"
  using assms
proof (cases rule: NegotiateServer_cases)
  case (Anonymous cpub s1)
  from server_finish_Ok [OF Anonymous(2)] Anonymous(1) show ?thesis by (auto simp: NewSession_def)
next
  case (Keyed i get secret cpub s1)
  from server_finish_Ok [OF Keyed(6)] Keyed(1-5) show ?thesis by (auto simp: NewSession_def)
qed simp_all

text \<open>
  C29. What a failed handshake leaves behind. The server sends nothing unless it is the sending
  itself that failed. A client refused while its message is read and its API key looked up (a
  truncated message, an identifier over 256 bytes, an unknown API key) does not use up a session
  identifier; one refused later does, because the shared secret (a client key that X25519 rejects,
  say), the key derivation or the sending of the response fails. With a key store present no input
  makes the server panic.
\<close>

theorem server_refuses_quietly:
  "(\<forall>e n' s'. NegotiateServer C now priv ks nx (n, s) = (Err e, (n', s')) \<longrightarrow>
      ((\<forall>w. e \<noteq> NegSendResponse w) \<longrightarrow> sout s' = sout s) \<and>
      (n' = n \<or> (\<exists>f. e = NegSharedSecret f) \<or> (\<exists>f. e = NegDeriveKey f) \<or> (\<exists>w. e = NegSendResponse w))) \<and>
   (ks \<noteq> None \<longrightarrow> \<not> is_panic (fst (NegotiateServer C now priv ks nx (n, s))))"
proof (intro conjI allI impI)
  fix e n' s'
  assume a: "NegotiateServer C now priv ks nx (n, s) = (Err e, (n', s'))"
  then have "((\<forall>w. e \<noteq> NegSendResponse w) \<longrightarrow> sout s' = sout s) \<and>
      (n' = n \<or> (\<exists>f. e = NegSharedSecret f) \<or> (\<exists>f. e = NegDeriveKey f) \<or> (\<exists>w. e = NegSendResponse w))"
  proof (cases rule: NegotiateServer_cases)
    case (Anonymous cpub s1)
    then show ?thesis using server_finish_Err [OF Anonymous(2)] by auto
  next
    case (Keyed i get secret cpub s1)
    then show ?thesis using server_finish_Err [OF Keyed(6)] by auto
  qed auto
  then show "(\<forall>w. e \<noteq> NegSendResponse w) \<Longrightarrow> sout s' = sout s"
    and "n' = n \<or> (\<exists>f. e = NegSharedSecret f) \<or> (\<exists>f. e = NegDeriveKey f) \<or> (\<exists>w. e = NegSendResponse w)"
    by blast+
next
  assume ks: "ks \<noteq> None"
  obtain r n' s' where a: "NegotiateServer C now priv ks nx (n, s) = (r, (n', s'))"
    by (metis prod.exhaust)
  then show "\<not> is_panic (fst (NegotiateServer C now priv ks nx (n, s)))"
    by (cases rule: NegotiateServer_cases)
      (use ks a in \<open>auto simp: is_panic_iff server_finish_no_panic\<close>)
qed


lemma sample_server_anonymous:
  assumes "sin s = put_be 2 (0 :: u16) @ pub @ rest" "length pub = PubKeySize"
    "\<not> sclosed s" "sroom s = None"
  shows "\<exists>sess n' s'. NegotiateServer sample_crypto now priv ks nx (n, s) = (Ok sess, (n', s')) \<and>
    APIKeyID sess = []"
proof -
  obtain sh where sh: "x25519_ECDH sample_crypto priv pub = Some sh" by (simp add: sample_crypto_def)
  obtain k where k: "DeriveSessionKey sample_crypto sh anonymous_secret = Ok k"
    using DeriveSessionKey_ok [OF sample_crypto_laws(3)] by blast
  have "\<not> sclosed (s\<lparr>sin := rest\<rparr>)" "sroom (s\<lparr>sin := rest\<rparr>) = None" using assms(3,4) by simp_all
  then show ?thesis
    by (simp add: NewSession_def server_finish_ok [OF assms(2) sh k] NegotiateServer_anonymous [OF assms(1,2)])
qed

theorem server_session_authentic_witness:
  "\<exists>sess n' s'. NegotiateServer sample_crypto 50 (replicate 32 3) None (\<lambda>n. (n + 1, n + 1))
      (4 :: u64, stream_of (put_be 2 (0 :: u16) @ replicate 32 5)) = (Ok sess, (n', s')) \<and>
     ID sess = 5 \<and> n' = 5 \<and> APIKeyID sess = []"
proof -
  let ?nx = "\<lambda>n. (n + 1, n + 1) :: u64 \<times> u64"
  let ?s = "stream_of (put_be 2 (0 :: u16) @ replicate 32 5)"
  obtain sess n' s' where ok: "APIKeyID sess = []"
      "NegotiateServer sample_crypto 50 (replicate 32 3) None ?nx (4, ?s) = (Ok sess, (n', s'))"
    using sample_server_anonymous [of ?s "replicate 32 5" "[]" 50 "replicate 32 3" None ?nx 4]
    by (auto simp: stream_of_simps PubKeySize_def)
  from ok(1) server_session_authentic [OF ok(2)] ok(2) show ?thesis by auto
qed

theorem server_refuses_quietly_witness:
  "\<exists>n' s'. NegotiateServer sample_crypto 50 [] (Some (\<lambda>i. None)) (\<lambda>n. (n + 1, n + 1))
      (4 :: u64, stream_of [1, 1]) = (Err (NegIdTooLong 257), (n', s')) \<and> n' = 4 \<and> sout s' = []"
proof -
  let ?nx = "\<lambda>n. (n + 1, n + 1) :: u64 \<times> u64"
  obtain n' s' where e: "NegotiateServer sample_crypto 50 [] (Some (\<lambda>i. None)) ?nx (4, stream_of [1, 1]) =
      (Err (NegIdTooLong 257), (n', s'))"
    by (simp add: NegotiateServer_def on_stream_def ReadFull_def stream_of_def get_be_def)
  with server_refuses_quietly [of sample_crypto 50 "[]" "Some (\<lambda>i. None)" ?nx 4 "stream_of [1, 1]"]
  show ?thesis by (auto simp: stream_of_simps)
qed

text \<open>
  The client writes the length of its key identifier as 16 bits without checking it. An
  identifier whose length is a multiple of 65536 is therefore announced as empty, and the
  server takes the client for an anonymous one: if the handshake succeeds at all, the session
  has no API key, and its key comes from the first 32 bytes of the identifier in the place of
  a public key.
\<close>

theorem long_key_id_truncated:
  assumes "KeyID k \<noteq> []" and "65536 dvd length (KeyID k)"
    and "sin s = client_hello (Some k) cpub"
    and "NegotiateServer C now priv ks nx (n, s) = (Ok sess, (n', s'))"
  shows "APIKeyID sess = [] \<and>
    (\<exists>sh sk. x25519_ECDH C priv (take 32 (bytes_of_string (KeyID k))) = Some sh \<and>
       DeriveSessionKey C sh anonymous_secret = Ok sk \<and> Key sess = Some sk)"
proof -
  let ?id = "bytes_of_string (KeyID k)"
  have "(of_nat (length (KeyID k)) :: u16) = 0"
    using assms(2) by (simp add: word_of_nat_eq_0_iff)
  then have "sin s = put_be 2 (0 :: u16) @ take 32 ?id @ drop 32 ?id @ go_copy PubKeySize cpub"
    using assms(1,3) by (simp add: client_hello_def)
  moreover have "65536 \<le> length (KeyID k)"
    using assms(1,2) by (intro dvd_imp_le) auto
  then have "length (take 32 ?id) = PubKeySize"
    by (simp add: PubKeySize_def)
  ultimately have "server_finish C now priv nx [] anonymous_secret (take 32 ?id)
      (n, s\<lparr>sin := drop 32 ?id @ go_copy PubKeySize cpub\<rparr>) = (Ok sess, (n', s'))"
    using assms(4) NegotiateServer_anonymous by metis
  from server_finish_Ok [OF this] show ?thesis by (auto simp: NewSession_def)
qed

lemma GenerateAPIKey_Ok:
  assumes "GenerateAPIKey rnd = (Ok key, rnd')"
  shows "length (KeyID key) = 16 \<and> length (Secret key) = 32"
  using assms by (auto simp: GenerateAPIKey_def RandomBytes_def ReadFull_def sbind_eq_Ok_iff split: if_splits)

lemma generated_accepted:
  assumes "length (KeyID key) = 16" "length (Secret key) = 32"
  shows "key_accepted (Some key) (Some (MapKeyStore_Get (gm_set (KeyID key) (Some (Secret key)) m)))"
proof -
  have "KeyID key \<noteq> []" using assms(1) by (metis length_0_conv zero_neq_numeral)
  then show ?thesis
    using assms by (simp add: key_accepted_def client_key_id_def client_secret_def MapKeyStore_Get_def)
qed

text \<open>
  A generated API key works: given 40 random bytes, \<^verbatim>\<open>GenerateAPIKey\<close> returns a key with a
  16-character identifier and a 32-byte secret, and any \<^verbatim>\<open>MapKeyStore\<close> it is put into
  accepts it in the handshake.
\<close>

theorem generated_key_accepted:
  assumes "40 \<le> length (sin rnd)"
  shows "\<exists>key. GenerateAPIKey rnd = (Ok key, rnd\<lparr>sin := drop 40 (sin rnd)\<rparr>) \<and>
    length (KeyID key) = 16 \<and> length (Secret key) = 32 \<and>
    (\<forall>m. key_accepted (Some key)
      (Some (MapKeyStore_Get (gm_set (KeyID key) (Some (Secret key)) m))))"
proof -
  let ?key = "\<lparr>KeyID = hex_bytes (take 8 (drop 32 (sin rnd))), Secret = take 32 (sin rnd)\<rparr>"
  have l: "length (KeyID ?key) = 16" "length (Secret ?key) = 32"
    using assms by simp_all
  note generated_accepted [OF l]
  moreover have "GenerateAPIKey rnd = (Ok ?key, rnd\<lparr>sin := drop 40 (sin rnd)\<rparr>)"
    using assms by (simp add: GenerateAPIKey_def RandomBytes_def ReadFull_def)
  ultimately show ?thesis using l by blast
qed

theorem generated_key_accepted_witness:
  "\<exists>key. GenerateAPIKey (stream_of (replicate 50 7)) = (Ok key, stream_of (replicate 10 7)) \<and>
    key_accepted (Some key) (Some (MapKeyStore_Get (gm_set (KeyID key) (Some (Secret key)) [])))"
proof -
  have "40 \<le> length (sin (stream_of (replicate 50 7)))" by (simp add: stream_of_simps)
  from generated_key_accepted [OF this] show ?thesis by (auto simp: stream_of_def)
qed

theorem long_key_id_truncated_witness:
  "\<exists>sess ns'. NegotiateServer sample_crypto 50 (replicate 32 3) None (\<lambda>n. (n + 1, n + 1)) (4 :: u64,
      stream_of (client_hello (Some \<lparr>KeyID = replicate 65536 CHR ''a'', Secret = [1]\<rparr>) (replicate 32 5))) =
      (Ok sess, ns') \<and> APIKeyID sess = []"
proof -
  let ?nx = "\<lambda>n. (n + 1, n + 1) :: u64 \<times> u64"
  let ?k = "\<lparr>KeyID = replicate 65536 CHR ''a'', Secret = [1 :: byte]\<rparr>"
  let ?id = "bytes_of_string (KeyID ?k)"
  let ?s = "stream_of (client_hello (Some ?k) (replicate 32 5))"
  have d: "KeyID ?k \<noteq> []" "65536 dvd length (KeyID ?k)" by simp_all
  then have "(of_nat (length (KeyID ?k)) :: u16) = 0"
    by (simp)
  then have "client_hello (Some ?k) (replicate 32 5) =
      put_be 2 (0 :: u16) @ take 32 ?id @ drop 32 ?id @ go_copy PubKeySize (replicate 32 5)"
    using d(1) by (simp only: client_hello_def option.case if_False append_take_drop_id flip: append.assoc)
  moreover have "length (take 32 ?id) = PubKeySize" by (simp add: PubKeySize_def)
  ultimately obtain sess n' s' where ok:
      "NegotiateServer sample_crypto 50 (replicate 32 3) None ?nx (4, ?s) = (Ok sess, (n', s'))"
    using sample_server_anonymous [of ?s "take 32 ?id" "drop 32 ?id @ go_copy PubKeySize (replicate 32 5)"
        50 "replicate 32 3" None ?nx 4]
    unfolding stream_of_simps by blast
  with long_key_id_truncated [OF d _ ok] show ?thesis
    unfolding stream_of_simps by blast
qed

end
