(* ===== verification/Media_Tokens.thy ===== *)
theory Media_Tokens
  imports Expiry Go_IO
begin

text \<open>
  Media tokens, \<^verbatim>\<open>src/media/media.go\<close>. A token is filed under 16 random bytes; it is valid
  while its absolute lifetime lasts and, when the store was given a session callback, while its
  session lives. The callback is arbitrary code that depends on the state of the program at the
  time of the call, so it takes that state (of type \<open>'w\<close>) as an argument. The clock is read
  once per operation and passed as an argument; the store's mutex makes operations atomic.
\<close>

section \<open>The store\<close>

definition DefaultMaxTokenTTL :: duration where "DefaultMaxTokenTTL = 2 * dur_hour"

record Token =
  TokID :: bytes
  TrackID :: string
  HLSURL :: string
  TokCreatedAt :: gotime
  IssuedAt :: gotime
  TokSessionID :: u64

record 'w TokenStore =
  ValidateSession :: "('w \<Rightarrow> u64 \<Rightarrow> bool) option"
  tokens :: "(bytes, Token) gomap"
  MaxTokenTTL :: duration

datatype media_err = MediaGenerate io_err

definition NewTokenStore :: "('w \<Rightarrow> u64 \<Rightarrow> bool) option \<Rightarrow> 'w TokenStore" where
  "NewTokenStore validateSession =
     \<lparr>ValidateSession = validateSession, tokens = [], MaxTokenTTL = DefaultMaxTokenTTL\<rparr>"

definition IssueWithHLS ::
    "gotime \<Rightarrow> u64 \<Rightarrow> string \<Rightarrow> string \<Rightarrow> (stream \<times> 'w TokenStore, media_err, Token) io" where
  "IssueWithHLS now sessionID trackID hlsURL st =
     (case st of (rnd, ts) \<Rightarrow>
      case ReadFull 16 rnd of
        (Ok i, rnd) \<Rightarrow>
          (let tok = \<lparr>TokID = i, TrackID = trackID, HLSURL = hlsURL, TokCreatedAt = now,
                      IssuedAt = now, TokSessionID = sessionID\<rparr>
           in (Ok tok, (rnd, ts\<lparr>tokens := gm_set i tok (tokens ts)\<rparr>)))
      | (Err e, rnd) \<Rightarrow> (Err (MediaGenerate e), (rnd, ts))
      | (Panic p, rnd) \<Rightarrow> (Panic p, (rnd, ts)))"

definition Issue :: "gotime \<Rightarrow> u64 \<Rightarrow> string \<Rightarrow> (stream \<times> 'w TokenStore, media_err, Token) io" where
  "Issue now sessionID trackID st = IssueWithHLS now sessionID trackID [] st"

definition LookupHLS :: "'w TokenStore \<Rightarrow> bytes \<Rightarrow> string" where
  "LookupHLS ts tokenID = (case gm_get (tokens ts) tokenID of None \<Rightarrow> [] | Some tok \<Rightarrow> HLSURL tok)"

definition Validate :: "'w \<Rightarrow> gotime \<Rightarrow> bytes \<Rightarrow> 'w TokenStore \<Rightarrow> bool \<times> 'w TokenStore" where
  "Validate w now tokenID ts =
     (case gm_get (tokens ts) tokenID of
        None \<Rightarrow> (False, ts)
      | Some tok \<Rightarrow>
          (if time_since now (IssuedAt tok) > MaxTokenTTL ts
           then (False, ts\<lparr>tokens := gm_delete tokenID (tokens ts)\<rparr>)
           else if (case ValidateSession ts of None \<Rightarrow> False | Some f \<Rightarrow> \<not> f w (TokSessionID tok))
           then (False, ts\<lparr>tokens := gm_delete tokenID (tokens ts)\<rparr>)
           else (True, ts\<lparr>tokens := gm_set tokenID (tok\<lparr>TokCreatedAt := now\<rparr>) (tokens ts)\<rparr>)))"

definition Exists :: "'w TokenStore \<Rightarrow> bytes \<Rightarrow> bool" where
  "Exists ts tokenID \<longleftrightarrow> gm_get (tokens ts) tokenID \<noteq> None"

definition RevokeBySession :: "u64 \<Rightarrow> 'w TokenStore \<Rightarrow> 'w TokenStore" where
  "RevokeBySession sessionID ts =
     ts\<lparr>tokens := gm_prune (\<lambda>i tok. TokSessionID tok = sessionID) (tokens ts)\<rparr>"

definition token_GC :: "gotime \<Rightarrow> 'w TokenStore \<Rightarrow> 'w TokenStore" where
  "token_GC now ts =
     ts\<lparr>tokens := gm_prune (\<lambda>i tok. time_since now (IssuedAt tok) > MaxTokenTTL ts) (tokens ts)\<rparr>"

section \<open>URLs\<close>

record 'w MediaURLBuilder =
  BaseURL :: string
  URLTokenStore :: "'w TokenStore option"

definition NewMediaURLBuilder :: "string \<Rightarrow> 'w TokenStore option \<Rightarrow> 'w MediaURLBuilder" where
  "NewMediaURLBuilder baseURL ts = \<lparr>BaseURL = baseURL, URLTokenStore = ts\<rparr>"

definition BuildURL :: "'w MediaURLBuilder \<Rightarrow> bytes \<Rightarrow> string \<Rightarrow> string" where
  "BuildURL b tokenID trackID = BaseURL b @ ''/media/'' @ hex_bytes tokenID @ ''/'' @ trackID"

section \<open>Expiry\<close>

definition ts_inv :: "'w TokenStore \<Rightarrow> bool" where
  "ts_inv ts \<longleftrightarrow> gm_inv (tokens ts)"

definition token_at :: "'w TokenStore \<Rightarrow> bytes \<Rightarrow> Token option" where
  "token_at ts i = gm_get (tokens ts) i"

interpretation tok: expiring_table ts_inv token_at token_GC IssuedAt MaxTokenTTL
  by unfold_locales (simp_all add: ts_inv_def token_at_def token_GC_def gm.inv_prune gm.get_prune)

lemma ts_inv_init: "ts_inv (NewTokenStore v)"
  by (simp add: ts_inv_def NewTokenStore_def gm_inv_def)

lemma ts_inv_ops:
  assumes "ts_inv ts"
  shows "ts_inv (snd (snd (IssueWithHLS now sid track url (rnd, ts))))"
    "ts_inv (snd (Validate w now i ts))" "ts_inv (RevokeBySession sid ts)" "ts_inv (token_GC now ts)"
  using assms
  by (simp_all add: ts_inv_def IssueWithHLS_def Validate_def RevokeBySession_def token_GC_def Let_def
      gm.inv_put gm.inv_del gm.inv_prune split: prod.split result.split option.split)

text \<open>Whether the session of a token is alive, as the store sees it.\<close>

definition session_alive :: "'w TokenStore \<Rightarrow> 'w \<Rightarrow> u64 \<Rightarrow> bool" where
  "session_alive ts w sid \<longleftrightarrow> (case ValidateSession ts of None \<Rightarrow> True | Some f \<Rightarrow> f w sid)"

lemma Validate_iff:
  "fst (Validate w now i ts) \<longleftrightarrow>
      (\<exists>t. token_at ts i = Some t \<and> time_since now (IssuedAt t) \<le> MaxTokenTTL ts \<and>
         session_alive ts w (TokSessionID t))"
  by (auto simp: Validate_def token_at_def session_alive_def split: option.splits if_splits)

lemma token_at_Validate:
  "token_at (snd (Validate w now i ts)) j =
     (if j \<noteq> i then token_at ts j
      else if fst (Validate w now i ts) then map_option (\<lambda>t. t\<lparr>TokCreatedAt := now\<rparr>) (token_at ts i)
      else None)"
  by (auto simp: Validate_def token_at_def gm.get_put gm.get_del split: option.splits if_splits)

lemma Validate_config [simp]:
  "MaxTokenTTL (snd (Validate w now i ts)) = MaxTokenTTL ts"
  "ValidateSession (snd (Validate w now i ts)) = ValidateSession ts"
  by (simp_all add: Validate_def split: option.splits)

lemma token_at_Revoke:
  "ts_inv ts \<Longrightarrow> token_at (RevokeBySession sid ts) i =
     (case token_at ts i of None \<Rightarrow> None | Some t \<Rightarrow> if TokSessionID t = sid then None else Some t)"
  by (simp add: token_at_def RevokeBySession_def ts_inv_def gm.get_prune)

text \<open>
  Validation is exact. \<^verbatim>\<open>Validate\<close> says yes exactly to a token that is in the store, not
  older than the maximum lifetime since it was issued, and whose session is alive when a
  callback is set. On yes the token stays with everything but \<^verbatim>\<open>CreatedAt\<close> as it was (in
  particular the issuance time, so validating never prolongs the lifetime); on no it is gone;
  other tokens are untouched.
\<close>

theorem validate_exact:
  "(fst (Validate w now i ts) \<longleftrightarrow>
      (\<exists>t. token_at ts i = Some t \<and> time_since now (IssuedAt t) \<le> MaxTokenTTL ts \<and>
         session_alive ts w (TokSessionID t))) \<and>
   (let ts' = snd (Validate w now i ts) in
      token_at ts' i = (if fst (Validate w now i ts)
         then map_option (\<lambda>t. t\<lparr>TokCreatedAt := now\<rparr>) (token_at ts i) else None) \<and>
      (\<forall>j. j = i \<or> token_at ts' j = token_at ts j) \<and>
      MaxTokenTTL ts' = MaxTokenTTL ts \<and> ValidateSession ts' = ValidateSession ts)"
  by (simp only: Validate_iff Let_def token_at_Validate Validate_config) simp

text \<open>
  The sweeps are exact: \<^verbatim>\<open>RevokeBySession\<close> removes the tokens of that session and no
  others, \<^verbatim>\<open>GC\<close> removes the tokens past the maximum lifetime and no others, and a later
  \<^verbatim>\<open>GC\<close> leaves the same store whether or not an earlier one ran.
\<close>

theorem token_sweeps_exact:
  assumes "ts_inv ts"
  shows "(token_at (RevokeBySession sid ts) i = Some t \<longleftrightarrow> token_at ts i = Some t \<and> TokSessionID t \<noteq> sid) \<and>
    (token_at (token_GC now ts) i = Some t \<longleftrightarrow>
       token_at ts i = Some t \<and> time_since now (IssuedAt t) \<le> MaxTokenTTL ts) \<and>
    (now \<le> now' \<longrightarrow> token_at (token_GC now' (token_GC now ts)) i = token_at (token_GC now' ts) i)"
proof (intro conjI impI)
  show "token_at (RevokeBySession sid ts) i = Some t \<longleftrightarrow> token_at ts i = Some t \<and> TokSessionID t \<noteq> sid"
    using assms by (auto simp: token_at_Revoke split: option.splits)
qed (simp_all only: tok.sweep_Some_iff [OF assms] tok.sweep_sweep [OF assms])


section \<open>The life of a token\<close>

text \<open>Everything that can happen to a store, as events with the time they happen at.\<close>

datatype 'w token_event =
    EvIssue stream u64 string string
  | EvValidate 'w bytes
  | EvRevoke u64
  | EvGC

fun token_exec :: "gotime \<times> 'w token_event \<Rightarrow> 'w TokenStore \<Rightarrow> 'w TokenStore" where
  "token_exec (now, EvIssue rnd sid track url) ts = snd (snd (IssueWithHLS now sid track url (rnd, ts)))"
| "token_exec (now, EvValidate w i) ts = snd (Validate w now i ts)"
| "token_exec (now, EvRevoke sid) ts = RevokeBySession sid ts"
| "token_exec (now, EvGC) ts = token_GC now ts"

definition token_run :: "(gotime \<times> 'w token_event) list \<Rightarrow> 'w TokenStore \<Rightarrow> 'w TokenStore" where
  "token_run evs ts = fold token_exec evs ts"

text \<open>An event that issues a token under a given identifier again, and an event that ends the
  life of a token of session \<open>sid\<close> issued at \<open>born\<close>.\<close>

fun reissues :: "bytes \<Rightarrow> gotime \<times> 'w token_event \<Rightarrow> bool" where
  "reissues i (now, EvIssue rnd sid track url) \<longleftrightarrow> 16 \<le> length (sin rnd) \<and> take 16 (sin rnd) = i"
| "reissues i (now, ev) \<longleftrightarrow> False"

fun kills :: "'w TokenStore \<Rightarrow> bytes \<Rightarrow> u64 \<Rightarrow> gotime \<Rightarrow> gotime \<times> 'w token_event \<Rightarrow> bool" where
  "kills ts i sid born (now, EvValidate w j) \<longleftrightarrow>
     j = i \<and> (time_since now born > MaxTokenTTL ts \<or> \<not> session_alive ts w sid)"
| "kills ts i sid born (now, EvRevoke sid') \<longleftrightarrow> sid' = sid"
| "kills ts i sid born (now, EvGC) \<longleftrightarrow> time_since now born > MaxTokenTTL ts"
| "kills ts i sid born (now, EvIssue rnd sid' track url) \<longleftrightarrow> False"

lemma token_exec_config [simp]:
  "MaxTokenTTL (token_exec e ts) = MaxTokenTTL ts" "ValidateSession (token_exec e ts) = ValidateSession ts"
  by (cases "(e, ts)" rule: token_exec.cases;
      simp add: IssueWithHLS_def Validate_def RevokeBySession_def token_GC_def Let_def
        split: prod.split result.split option.split)+

lemma token_exec_inv: "ts_inv ts \<Longrightarrow> ts_inv (token_exec e ts)"
  by (cases "(e, ts)" rule: token_exec.cases) (simp_all add: ts_inv_ops)

lemma token_at_issue:
  "token_at (snd (snd (IssueWithHLS now sid track url (rnd, ts)))) i =
    (if 16 \<le> length (sin rnd) \<and> take 16 (sin rnd) = i
     then Some \<lparr>TokID = i, TrackID = track, HLSURL = url, TokCreatedAt = now, IssuedAt = now,
                TokSessionID = sid\<rparr>
     else token_at ts i)"
  by (simp add: IssueWithHLS_def ReadFull_def token_at_def Let_def gm.get_put)

text \<open>One event, on a token it does not issue: the token is there afterwards if and only if it
  was there before and the event does not kill it, and then it is the same token.\<close>

lemma token_exec_token:
  assumes "ts_inv ts" "\<not> reissues i e" "token_at ts i = Some t"
  shows "\<exists>c. token_at (token_exec e ts) i =
    (if kills ts i (TokSessionID t) (IssuedAt t) e then None else Some (t\<lparr>TokCreatedAt := c\<rparr>))"
proof (cases "(e, ts)" rule: token_exec.cases)
  case (1 now rnd sid track url ts)
  with assms show ?thesis
    by (auto simp: token_at_issue intro!: exI [of _ "TokCreatedAt t"])
next
  case (2 now w j ts)
  with assms(3) show ?thesis
    by (cases "j = i") (auto simp: token_at_Validate Validate_iff intro: exI [of _ "TokCreatedAt t"])
next
  case (3 now sid ts)
  with assms show ?thesis
    by (auto simp: token_at_Revoke intro: exI [of _ "TokCreatedAt t"])
next
  case (4 now ts)
  with assms tok.lookup_sweep [of ts now i] show ?thesis
    by (auto intro: exI [of _ "TokCreatedAt t"])
qed


lemma token_run_absent:
  "ts_inv ts \<Longrightarrow> \<forall>e \<in> set evs. \<not> reissues i e \<Longrightarrow> token_at ts i = None \<Longrightarrow>
   token_at (token_run evs ts) i = None"
proof (induction evs arbitrary: ts)
  case (Cons e evs)
  have "token_at (token_exec e ts) i = None"
    using Cons.prems
    by (cases "(e, ts)" rule: token_exec.cases)
      (auto simp: token_at_issue token_at_Validate Validate_iff token_at_Revoke tok.sweep_None)
  with Cons show ?case by (simp add: token_run_def token_exec_inv)
qed (simp add: token_run_def)

lemma kills_cong:
  "MaxTokenTTL ts' = MaxTokenTTL ts \<Longrightarrow> ValidateSession ts' = ValidateSession ts \<Longrightarrow>
   kills ts' i sid born e = kills ts i sid born e"
  by (cases e; cases "snd e") (auto simp: session_alive_def)

lemma token_run_life:
  assumes "ts_inv ts" "\<forall>e \<in> set evs. \<not> reissues i e" "token_at ts i = Some t"
  shows "\<exists>c. token_at (token_run evs ts) i =
    (if \<exists>e \<in> set evs. kills ts i (TokSessionID t) (IssuedAt t) e then None
     else Some (t\<lparr>TokCreatedAt := c\<rparr>))"
  using assms
proof (induction evs arbitrary: ts t)
  case Nil
  then show ?case by (auto simp: token_run_def intro: exI [of _ "TokCreatedAt t"])
next
  case (Cons e evs)
  let ?ts = "token_exec e ts"
  obtain c where c: "token_at ?ts i =
      (if kills ts i (TokSessionID t) (IssuedAt t) e then None else Some (t\<lparr>TokCreatedAt := c\<rparr>))"
    using token_exec_token [of ts i e t] Cons.prems by auto
  have run: "token_run (e # evs) ts = token_run evs ?ts" by (simp add: token_run_def)
  show ?case
  proof (cases "kills ts i (TokSessionID t) (IssuedAt t) e")
    case True
    with c Cons.prems show ?thesis by (simp add: run token_run_absent token_exec_inv)
  next
    case False
    with c have "token_at ?ts i = Some (t\<lparr>TokCreatedAt := c\<rparr>)" by simp
    from Cons.IH [OF token_exec_inv [OF Cons.prems(1)] _ this] Cons.prems(2)
    obtain d where "token_at (token_run evs ?ts) i =
        (if \<exists>e \<in> set evs. kills ts i (TokSessionID t) (IssuedAt t) e then None
         else Some (t\<lparr>TokCreatedAt := d\<rparr>))"
      by (auto simp: kills_cong [of ?ts ts] cong: if_cong)
    with False show ?thesis by (intro exI [of _ d]) (simp add: run)
  qed
qed

text \<open>
  C9. The exact life of a token. Let a token be issued at time \<open>born\<close> and let anything happen
  to the store afterwards short of the same 16 random bytes being drawn again. The token is
  then still in the store if and only if no event killed it: a revocation of its session, a
  \<^verbatim>\<open>GC\<close> after its lifetime, or a \<^verbatim>\<open>Validate\<close> of it after its lifetime or with its session
  dead. In particular no amount of validating keeps a token past its lifetime, and a token that
  is gone stays gone.
\<close>

theorem token_life_exact:
  assumes "ts_inv ts" and "16 \<le> length (sin rnd)" and "i = take 16 (sin rnd)"
    and "\<forall>e \<in> set evs. \<not> reissues i e"
  shows "let ts0 = snd (snd (IssueWithHLS born sid track url (rnd, ts)));
             ts1 = token_run evs ts0
    in (Exists ts1 i \<longleftrightarrow> (\<forall>e \<in> set evs. \<not> kills ts i sid born e)) \<and>
       (Exists ts1 i \<longrightarrow> LookupHLS ts1 i = url) \<and>
       (\<forall>w now. fst (Validate w now i ts1) \<longleftrightarrow> Exists ts1 i \<and>
          time_since now born \<le> MaxTokenTTL ts \<and> session_alive ts w sid)"
proof -
  let ?ts0 = "snd (snd (IssueWithHLS born sid track url (rnd, ts)))"
  let ?t = "\<lparr>TokID = i, TrackID = track, HLSURL = url, TokCreatedAt = born, IssuedAt = born,
    TokSessionID = sid\<rparr>"
  have t0: "token_at ?ts0 i = Some ?t" "ts_inv ?ts0"
    using assms by (simp_all add: token_at_issue ts_inv_ops)
  have cfg: "MaxTokenTTL (token_run evs s) = MaxTokenTTL s"
      "ValidateSession (token_run evs s) = ValidateSession s" for s
    by (induction evs arbitrary: s) (simp_all add: token_run_def)
  have cfg0: "MaxTokenTTL ?ts0 = MaxTokenTTL ts" "ValidateSession ?ts0 = ValidateSession ts"
    using token_exec_config [of "(born, EvIssue rnd sid track url)" ts] by simp_all
  obtain c where c: "token_at (token_run evs ?ts0) i =
      (if \<exists>e \<in> set evs. kills ts i sid born e then None else Some (?t\<lparr>TokCreatedAt := c\<rparr>))"
    using token_run_life [OF t0(2) assms(4) t0(1)] by (auto simp: kills_cong [OF cfg0])
  then show ?thesis
    by (auto simp: Let_def Exists_def LookupHLS_def Validate_iff session_alive_def cfg cfg0
        simp flip: token_at_def split: option.splits)
qed

text \<open>
  A maximum lifetime of 0 does not mean the default of two hours, as the field's comment
  says: with it a freshly issued token is refused, and removed, by the first \<^verbatim>\<open>Validate\<close> that
  happens any time later than issuance.
\<close>

theorem zero_ttl_rejects:
  assumes "MaxTokenTTL ts = 0" and "16 \<le> length (sin rnd)" and "born < now"
  shows "let ts0 = snd (snd (Issue born sid track (rnd, ts)))
    in Exists ts0 (take 16 (sin rnd)) \<and> \<not> fst (Validate w now (take 16 (sin rnd)) ts0) \<and>
       \<not> Exists (snd (Validate w now (take 16 (sin rnd)) ts0)) (take 16 (sin rnd))"
proof -
  let ?ts0 = "snd (snd (IssueWithHLS born sid track [] (rnd, ts)))"
  have "MaxTokenTTL ?ts0 = 0"
    using token_exec_config(1) [of "(born, EvIssue rnd sid track [])" ts] assms(1) by simp
  moreover have "time_since now born > 0"
    using assms(3) by (simp add: time_since_def max_duration_def min_duration_def)
  ultimately show ?thesis
    using assms(2)
    by (simp add: Let_def Issue_def Exists_def Validate_iff token_at_Validate token_at_issue
        flip: token_at_def)
qed

text \<open>
  Media URLs identify their token: for tokens of 16 bytes, two URLs built from the same base
  are equal only if token and track are.
\<close>

theorem build_url_inject:
  assumes "length i = 16" and "length j = 16"
  shows "BuildURL b i t = BuildURL b j u \<longleftrightarrow> i = j \<and> t = u"
  using assms by (auto simp: BuildURL_def hex_bytes_inject)


section \<open>Witnesses\<close>

definition sample_tokens :: "bool TokenStore" where
  "sample_tokens = (NewTokenStore (Some (\<lambda>w sid. w)))\<lparr>MaxTokenTTL := 10\<rparr>"

lemma sample_tokens_inv: "ts_inv sample_tokens"
  by (simp add: sample_tokens_def ts_inv_def NewTokenStore_def gm_inv_def)

theorem token_sweeps_exact_witness:
  "token_at (RevokeBySession 7 (snd (snd (Issue 5 7 ''t'' (stream_of (replicate 16 1), sample_tokens)))))
     (replicate 16 1) \<noteq>
   Some \<lparr>TokID = replicate 16 1, TrackID = ''t'', HLSURL = [], TokCreatedAt = 5, IssuedAt = 5, TokSessionID = 7\<rparr>"
  using token_sweeps_exact [OF ts_inv_ops(1) [OF sample_tokens_inv]] by (simp add: Issue_def)

theorem token_life_exact_witness:
  "let ts0 = snd (snd (IssueWithHLS 5 7 ''t'' ''u'' (stream_of (replicate 16 1), sample_tokens)));
       ts1 = token_run [(8, EvValidate True (replicate 16 1)), (9, EvGC), (9, EvRevoke 3)] ts0
   in Exists ts1 (replicate 16 1) \<and> LookupHLS ts1 (replicate 16 1) = ''u'' \<and>
      fst (Validate True 15 (replicate 16 1) ts1) \<and> \<not> fst (Validate True 16 (replicate 16 1) ts1) \<and>
      \<not> fst (Validate False 9 (replicate 16 1) ts1)"
proof -
  have "16 \<le> length (sin (stream_of (replicate 16 1)))" "replicate 16 1 = take 16 (sin (stream_of (replicate 16 1)))"
    by (simp_all add: stream_of_def)
  from token_life_exact [OF sample_tokens_inv this, of
      "[(8, EvValidate True (replicate 16 1)), (9, EvGC), (9, EvRevoke 3)]" 5 7 "''t''" "''u''"]
  show ?thesis
    by (simp add: Let_def sample_tokens_def NewTokenStore_def session_alive_def time_since_def
        max_duration_def min_duration_def)
qed

theorem zero_ttl_rejects_witness:
  "\<not> fst (Validate True 6 (replicate 16 1)
      (snd (snd (Issue 5 7 ''t'' (stream_of (replicate 16 1), sample_tokens\<lparr>MaxTokenTTL := 0\<rparr>)))))"
proof -
  have "MaxTokenTTL (sample_tokens\<lparr>MaxTokenTTL := 0\<rparr>) = 0"
      "16 \<le> length (sin (stream_of (replicate 16 1)))" "(5 :: gotime) < 6"
    by (simp_all add: stream_of_def)
  from zero_ttl_rejects [OF this, of 7 "''t''" True] show ?thesis
    by (simp add: Let_def stream_of_def)
qed

theorem build_url_inject_witness:
  "BuildURL (NewMediaURLBuilder ''https://m'' (None :: unit TokenStore option)) (replicate 16 1) ''a'' \<noteq>
   BuildURL (NewMediaURLBuilder ''https://m'' (None :: unit TokenStore option)) (replicate 16 1) ''b''"
  by (simp add: build_url_inject)

end
