(* ===== verification/Rate_Limit.thy ===== *)
theory Rate_Limit
  imports Hush_Prelude
begin

text \<open>
  The sliding-window rate limiter, \<^verbatim>\<open>src/server/ratelimit.go\<close>. The limiter keeps for every
  key the times of the requests it let through, oldest first, and prunes those that left the
  window. The clock is an argument of the operations; the mutex makes \<^verbatim>\<open>Allow\<close> and \<^verbatim>\<open>gc\<close>
  atomic. The background cleanup (\<^verbatim>\<open>CleanupEvery\<close>, \<^verbatim>\<open>Stop\<close>) is a state machine over the
  stop channels, with the two halves of \<^verbatim>\<open>Stop\<close> (the locked part and the \<^verbatim>\<open>close\<close> after it) as
  separate steps.
\<close>

section \<open>The limiter\<close>

record SlidingWindowLimiter =
  limit :: int
  window :: duration
  entries :: "(string, gotime list) gomap"
  stopCh :: "nat option"

definition NewSlidingWindowLimiter :: "int \<Rightarrow> duration \<Rightarrow> SlidingWindowLimiter" where
  "NewSlidingWindowLimiter lim win = \<lparr>limit = lim, window = win, entries = [], stopCh = None\<rparr>"

text \<open>The scan for the first timestamp after the cutoff, as the loop over the slice does it:
  \<open>i\<close> is the loop index and \<open>firstValid\<close> the variable of that name.\<close>

fun first_valid :: "gotime \<Rightarrow> nat \<Rightarrow> nat \<Rightarrow> gotime list \<Rightarrow> nat" where
  "first_valid cutoff i firstValid [] = firstValid"
| "first_valid cutoff i firstValid (t # ts) =
     (if t > cutoff then i else first_valid cutoff (Suc i) (i + 1) ts)"

definition Allow :: "gotime \<Rightarrow> string \<Rightarrow> SlidingWindowLimiter \<Rightarrow> bool \<times> SlidingWindowLimiter" where
  "Allow now key l =
     (let cutoff = now + dur_neg (window l);
          timestamps = (case gm_get (entries l) key of None \<Rightarrow> [] | Some ts \<Rightarrow> ts);
          firstValid = first_valid cutoff 0 0 timestamps;
          timestamps = (if firstValid > 0 then drop firstValid timestamps else timestamps)
      in if int (length timestamps) \<ge> limit l
         then (False, l\<lparr>entries := gm_set key timestamps (entries l)\<rparr>)
         else (True, l\<lparr>entries := gm_set key (timestamps @ [now]) (entries l)\<rparr>))"

text \<open>\<^verbatim>\<open>gc\<close> visits every key once; deleting or updating the visited key does not disturb the
  iteration over the others.\<close>

definition limiter_gc :: "gotime \<Rightarrow> SlidingWindowLimiter \<Rightarrow> SlidingWindowLimiter" where
  "limiter_gc now l =
     (let cutoff = now + dur_neg (window l) in
      l\<lparr>entries := fold (\<lambda>(key, timestamps) m.
          let firstValid = first_valid cutoff 0 0 timestamps in
          if firstValid \<ge> length timestamps then gm_delete key m
          else gm_set key (drop firstValid timestamps) m) (entries l) (entries l)\<rparr>)"

section \<open>Configurations\<close>

record LimiterConfig =
  RequestsPerSecondPerKey :: int
  RequestsPerMinutePerKey :: int
  BurstSize :: int
  CleanupInterval :: duration

definition DefaultLimiterConfig :: LimiterConfig where
  "DefaultLimiterConfig =
     \<lparr>RequestsPerSecondPerKey = 10, RequestsPerMinutePerKey = 600, BurstSize = 20,
      CleanupInterval = 5 * dur_minute\<rparr>"

text \<open>Go's \<^verbatim>\<open>int\<close> has 64 bits; addition wraps around.\<close>

definition int_add :: "int \<Rightarrow> int \<Rightarrow> int" where
  "int_add a b = signed_take_bit 63 (a + b)"

section \<open>The scan\<close>

lemma first_valid_takeWhile:
  "first_valid cutoff i j ts = (if ts = [] then j else i + length (takeWhile (\<lambda>t. t \<le> cutoff) ts))"
  by (induction cutoff i j ts rule: first_valid.induct) auto

lemma drop_first_valid: "drop (first_valid cutoff 0 0 ts) ts = dropWhile (\<lambda>t. t \<le> cutoff) ts"
  by (simp add: first_valid_takeWhile dropWhile_eq_drop)

lemma dropWhile_sorted: "sorted ts \<Longrightarrow> dropWhile (\<lambda>t. t \<le> c) ts = filter (\<lambda>t. c < t) (ts :: int list)"
proof (induction ts)
  case (Cons t ts)
  show ?case
  proof (cases "t \<le> c")
    case False
    then have "filter (\<lambda>t. c < t) ts = ts"
      using Cons.prems by (intro filter_True) auto
    with False show ?thesis by simp
  qed (use Cons in simp)
qed simp

definition granted_times :: "SlidingWindowLimiter \<Rightarrow> string \<Rightarrow> gotime list" where
  "granted_times l key = (case gm_get (entries l) key of None \<Rightarrow> [] | Some ts \<Rightarrow> ts)"

definition limiter_inv :: "gotime \<Rightarrow> SlidingWindowLimiter \<Rightarrow> bool" where
  "limiter_inv now l \<longleftrightarrow> gm_inv (entries l) \<and> (\<forall>key. sorted (granted_times l key) \<and> (\<forall>t \<in> set (granted_times l key). t \<le> now))"

definition cutoff :: "gotime \<Rightarrow> SlidingWindowLimiter \<Rightarrow> gotime" where
  "cutoff now l = now + dur_neg (window l)"

text \<open>\<^verbatim>\<open>Allow\<close> as a function of the recent times.\<close>

lemma Allow_recent:
  assumes "sorted (granted_times l key)"
  shows "Allow now key l =
    (let recent = filter (\<lambda>t. cutoff now l < t) (granted_times l key);
         ok = int (length recent) < limit l
     in (ok, l\<lparr>entries := gm_set key (if ok then recent @ [now] else recent) (entries l)\<rparr>))"
proof -
  let ?fv = "first_valid (now + dur_neg (window l)) 0 0 (granted_times l key)"
  have "(if 0 < ?fv then drop ?fv (granted_times l key) else granted_times l key) = drop ?fv (granted_times l key)"
    by simp
  then show ?thesis
    using dropWhile_sorted [OF assms, of "cutoff now l"]
    by (simp add: Allow_def Let_def cutoff_def drop_first_valid flip: granted_times_def)
qed

lemma times_Allow:
  assumes "sorted (granted_times l key)"
  shows "granted_times (snd (Allow now key l)) k =
    (if k \<noteq> key then granted_times l k
     else let recent = filter (\<lambda>t. cutoff now l < t) (granted_times l key)
          in if fst (Allow now key l) then recent @ [now] else recent)"
  by (simp add: Allow_recent [OF assms] Let_def granted_times_def gm.get_put)


section \<open>Garbage collection\<close>

text \<open>What \<^verbatim>\<open>gc\<close> makes of one key's times; \<open>None\<close> stands for a deleted key.\<close>

definition prune_times :: "gotime \<Rightarrow> gotime list \<Rightarrow> gotime list option" where
  "prune_times c ts = (let r = dropWhile (\<lambda>t. t \<le> c) ts in if r = [] then None else Some r)"

definition gc_key :: "gotime \<Rightarrow> string \<times> gotime list \<Rightarrow> (string, gotime list) gomap \<Rightarrow> (string, gotime list) gomap" where
  "gc_key c = (\<lambda>(key, timestamps) m.
     let firstValid = first_valid c 0 0 timestamps in
     if firstValid \<ge> length timestamps then gm_delete key m
     else gm_set key (drop firstValid timestamps) m)"

lemma gc_key_get:
  "gm_get (gc_key c (key, ts) m) k = (if k = key then prune_times c ts else gm_get m k)"
proof -
  have "first_valid c 0 0 ts \<ge> length ts \<longleftrightarrow> dropWhile (\<lambda>t. t \<le> c) ts = []"
    using drop_first_valid [of c ts] by (metis drop_eq_Nil)
  then show ?thesis
    by (simp add: gc_key_def prune_times_def Let_def gm.get_put gm.get_del drop_first_valid)
qed

lemma gc_key_inv: "gm_inv m \<Longrightarrow> gm_inv (gc_key c e m)"
  by (cases e) (simp add: gc_key_def Let_def gm.inv_put gm.inv_del)

lemma fold_gc_key:
  assumes "distinct (map fst es)"
  shows "gm_get (fold (gc_key c) es m) k =
    (case map_of es k of None \<Rightarrow> gm_get m k | Some ts \<Rightarrow> prune_times c ts)"
  using assms
proof (induction es arbitrary: m)
  case (Cons e es)
  obtain key ts where e: "e = (key, ts)" by (cases e)
  have "map_of es key = None" using Cons.prems by (simp add: e map_of_eq_None_iff)
  with Cons show ?case by (auto simp: e gc_key_get split: option.split)
qed simp

lemma limiter_gc_fold: "limiter_gc now l = l\<lparr>entries := fold (gc_key (cutoff now l)) (entries l) (entries l)\<rparr>"
  by (simp add: limiter_gc_def gc_key_def cutoff_def Let_def)

lemma limiter_gc_get:
  assumes "gm_inv (entries l)"
  shows "gm_get (entries (limiter_gc now l)) k =
    (case gm_get (entries l) k of None \<Rightarrow> None | Some ts \<Rightarrow> prune_times (cutoff now l) ts)"
  using fold_gc_key [of "entries l" "cutoff now l" "entries l" k] assms
  by (simp add: limiter_gc_fold gm_inv_def gm_get_def split: option.splits)

lemma limiter_gc_inv: "gm_inv (entries l) \<Longrightarrow> gm_inv (entries (limiter_gc now l))"
proof -
  have "gm_inv m \<Longrightarrow> gm_inv (fold (gc_key c) es m)" for c es m
    by (induction es arbitrary: m) (simp_all add: gc_key_inv)
  then show "gm_inv (entries l) \<Longrightarrow> gm_inv (entries (limiter_gc now l))"
    by (simp add: limiter_gc_fold)
qed

lemma limiter_gc_config [simp]: "limit (limiter_gc now l) = limit l" "window (limiter_gc now l) = window l"
    "stopCh (limiter_gc now l) = stopCh l"
  by (simp_all add: limiter_gc_fold)

lemma Allow_config [simp]: "limit (snd (Allow now key l)) = limit l"
    "window (snd (Allow now key l)) = window l" "stopCh (snd (Allow now key l)) = stopCh l"
  by (simp_all add: Allow_def Let_def)

lemma Allow_inv: "gm_inv (entries l) \<Longrightarrow> gm_inv (entries (snd (Allow now key l)))"
  by (simp add: Allow_def Let_def gm.inv_put)

lemma times_gc:
  assumes "gm_inv (entries l)" "sorted (granted_times l k)"
  shows "granted_times (limiter_gc now l) k = filter (\<lambda>t. cutoff now l < t) (granted_times l k)"
proof -
  have "granted_times (limiter_gc now l) k = dropWhile (\<lambda>t. t \<le> cutoff now l) (granted_times l k)"
    by (simp add: granted_times_def limiter_gc_get [OF assms(1)] prune_times_def Let_def split: option.split
        del: dropWhile_eq_Nil_conv)
  with dropWhile_sorted [OF assms(2), of "cutoff now l"] show ?thesis by simp
qed

lemma limiter_gc_no_empty:
  "gm_inv (entries l) \<Longrightarrow> gm_get (entries (limiter_gc now l)) k \<noteq> Some []"
  by (auto simp: limiter_gc_get prune_times_def Let_def split: option.splits)

section \<open>Refinement: the limiter remembers enough\<close>

text \<open>
  The specification keeps the whole history of granted requests and counts those of the key
  that are younger than the window. The implementation forgets what it prunes and runs \<^verbatim>\<open>gc\<close>
  at any time.
\<close>

datatype limiter_event = ReqAt gotime string | GcAt gotime

fun ev_time :: "limiter_event \<Rightarrow> gotime" where
  "ev_time (ReqAt now key) = now"
| "ev_time (GcAt now) = now"

fun limiter_run :: "limiter_event list \<Rightarrow> SlidingWindowLimiter \<Rightarrow> (string \<times> gotime) list \<times> SlidingWindowLimiter" where
  "limiter_run [] l = ([], l)"
| "limiter_run (GcAt now # evs) l = limiter_run evs (limiter_gc now l)"
| "limiter_run (ReqAt now key # evs) l =
     (case Allow now key l of (ok, l) \<Rightarrow>
      case limiter_run evs l of (granted, l) \<Rightarrow>
        (if ok then (key, now) # granted else granted, l))"

definition recent :: "gotime \<Rightarrow> string \<Rightarrow> (string \<times> gotime) list \<Rightarrow> nat" where
  "recent c key h = length (filter (\<lambda>(k, t). k = key \<and> c < t) h)"

fun spec_run :: "int \<Rightarrow> duration \<Rightarrow> limiter_event list \<Rightarrow> (string \<times> gotime) list \<Rightarrow> (string \<times> gotime) list" where
  "spec_run lim win [] h = h"
| "spec_run lim win (GcAt now # evs) h = spec_run lim win evs h"
| "spec_run lim win (ReqAt now key # evs) h =
     spec_run lim win evs
       (if int (recent (now + dur_neg win) key h) < lim then h @ [(key, now)] else h)"

definition key_times :: "string \<Rightarrow> (string \<times> gotime) list \<Rightarrow> gotime list" where
  "key_times key h = map snd (filter (\<lambda>(k, t). k = key) h)"

lemma recent_key_times: "recent c key h = length (filter (\<lambda>t. c < t) (key_times key h))"
  by (induction h) (auto simp: recent_def key_times_def)

lemma key_times_snoc: "key_times key (h @ [(k, t)]) = key_times key h @ (if k = key then [t] else [])"
  by (simp add: key_times_def)

text \<open>The simulation relation: beyond the cutoff, the limiter has the same times as the history.\<close>

definition sim :: "gotime \<Rightarrow> SlidingWindowLimiter \<Rightarrow> (string \<times> gotime) list \<Rightarrow> bool" where
  "sim now l h \<longleftrightarrow> limiter_inv now l \<and>
     (\<forall>key c. cutoff now l \<le> c \<longrightarrow> filter (\<lambda>t. c < t) (granted_times l key) = filter (\<lambda>t. c < t) (key_times key h))"

lemma sim_mono: "sim now l h \<Longrightarrow> now \<le> now' \<Longrightarrow> sim now' l h"
  by (fastforce simp: sim_def limiter_inv_def cutoff_def)

lemma limiter_inv_gc: "limiter_inv now l \<Longrightarrow> limiter_inv now (limiter_gc now l)"
  by (auto simp: limiter_inv_def limiter_gc_inv times_gc sorted_wrt_filter)

lemma limiter_inv_Allow: "limiter_inv now l \<Longrightarrow> limiter_inv now (snd (Allow now key l))"
  by (auto simp: limiter_inv_def Allow_inv times_Allow Let_def sorted_append sorted_wrt_filter)

lemma filter_above: "c \<le> d \<Longrightarrow> filter (\<lambda>t. d < t) (filter (\<lambda>t. c < t) ts) = filter (\<lambda>t. d < t) (ts :: gotime list)"
  by (induction ts) auto

lemma sim_gc:
  assumes "sim now l h"
  shows "sim now (limiter_gc now l) h"
proof -
  have i: "limiter_inv now l" and
      f: "cutoff now l \<le> c \<Longrightarrow> filter (\<lambda>t. c < t) (granted_times l k) = filter (\<lambda>t. c < t) (key_times k h)" for k c
    using assms by (simp_all add: sim_def)
  have "granted_times (limiter_gc now l) k = filter (\<lambda>t. cutoff now l < t) (granted_times l k)" for k
    using i by (intro times_gc) (simp_all add: limiter_inv_def)
  moreover have "cutoff now (limiter_gc now l) = cutoff now l" by (simp add: cutoff_def)
  ultimately show ?thesis
    using f limiter_inv_gc [OF i] by (simp add: sim_def filter_above del: filter_filter)
qed

lemma sim_Allow:
  assumes "sim now l h"
  shows "(fst (Allow now key l) \<longleftrightarrow> int (recent (cutoff now l) key h) < limit l) \<and>
    sim now (snd (Allow now key l)) (if fst (Allow now key l) then h @ [(key, now)] else h)"
proof -
  have s: "sorted (granted_times l k)" "\<forall>t \<in> set (granted_times l k). t \<le> now" for k
    using assms by (auto simp: sim_def limiter_inv_def)
  have f: "cutoff now l \<le> c \<Longrightarrow> filter (\<lambda>t. c < t) (granted_times l k) = filter (\<lambda>t. c < t) (key_times k h)" for k c
    using assms by (simp add: sim_def)
  have a: "fst (Allow now key l) \<longleftrightarrow> int (recent (cutoff now l) key h) < limit l"
    using f [of "cutoff now l" key] by (simp add: Allow_recent [OF s(1)] Let_def recent_key_times)
  let ?l = "snd (Allow now key l)"
  have t: "granted_times ?l k = (if k \<noteq> key then granted_times l k
      else filter (\<lambda>t. cutoff now l < t) (granted_times l key) @ (if fst (Allow now key l) then [now] else []))" for k
    by (simp add: times_Allow [OF s(1)] Let_def)
  have "limiter_inv now ?l"
    using assms by (simp add: sim_def limiter_inv_Allow)
  moreover have "filter (\<lambda>t. c < t) (granted_times ?l k) =
      filter (\<lambda>t. c < t) (key_times k (if fst (Allow now key l) then h @ [(key, now)] else h))"
    if "cutoff now l \<le> c" for k c
    using f [OF that, of k] filter_above [OF that, of "granted_times l key"]
    by (auto simp: t key_times_snoc simp del: filter_filter)
  ultimately show ?thesis using a by (simp add: sim_def cutoff_def)
qed

lemma limiter_run_spec:
  assumes "sim now l h" "\<forall>e \<in> set evs. now \<le> ev_time e" "sorted (map ev_time evs)"
  shows "h @ fst (limiter_run evs l) = spec_run (limit l) (window l) evs h"
  using assms
proof (induction evs l arbitrary: now h rule: limiter_run.induct)
  case (2 t evs l)
  have "sim t (limiter_gc t l) h"
    using 2(2,3) sim_gc sim_mono by auto
  from 2(1) [OF this] 2(4) show ?case by simp
next
  case (3 t key evs l)
  obtain ok l' where A: "Allow t key l = (ok, l')" by fastforce
  have "sim t l h" using 3(2,3) sim_mono by auto
  note step = sim_Allow [OF this, of key, unfolded A fst_conv snd_conv]
  have cfg: "limit l' = limit l" "window l' = window l"
    using Allow_config [of t key l] A by simp_all
  have "(if ok then h @ [(key, t)] else h) @ fst (limiter_run evs l') =
      spec_run (limit l) (window l) evs (if ok then h @ [(key, t)] else h)"
    using 3(1) [OF A [symmetric] conjunct2 [OF step]] 3(4) by (simp add: cfg)
  with step A show ?case by (auto simp: cutoff_def split: prod.split)
qed simp

lemma sim_init: "sim now (NewSlidingWindowLimiter lim win) []"
  by (simp add: sim_def limiter_inv_def granted_times_def NewSlidingWindowLimiter_def gm_get_def gm_inv_def key_times_def)

lemma limiter_run_new:
  assumes "sorted (map ev_time evs)"
  shows "fst (limiter_run evs (NewSlidingWindowLimiter lim win)) = spec_run lim win evs []"
proof (cases evs)
  case (Cons e es)
  have "\<forall>e' \<in> set evs. ev_time e \<le> ev_time e'" using assms Cons by auto
  from limiter_run_spec [OF sim_init this assms] show ?thesis
    by (simp add: NewSlidingWindowLimiter_def)
qed simp

text \<open>
  C7. The limiter is the sliding window it claims to be. For requests and background \<^verbatim>\<open>gc\<close> runs
  in any order, at non-decreasing times, the requests it grants are exactly those that the
  specification grants, which remembers every granted request forever and grants a request if
  and only if fewer than \<^verbatim>\<open>limit\<close> requests of the same key were granted within the window.
  Pruning and garbage collection never change an answer.
\<close>

theorem limiter_refines_history:
  assumes "sorted (map ev_time evs)"
  shows "fst (limiter_run evs (NewSlidingWindowLimiter lim win)) = spec_run lim win evs []"
  using assms by (rule limiter_run_new)

text \<open>The bound on any window, first for the specification.\<close>

lemma recent_window:
  "now \<le> T \<Longrightarrow> length (filter (\<lambda>(k, t). k = key \<and> T - win < t \<and> t \<le> T) h) \<le> recent (now - win) key h"
  unfolding recent_def by (induction h) auto

lemma spec_run_bound:
  assumes "sorted (map ev_time evs)" "\<forall>e \<in> set evs. \<forall>(k, t) \<in> set h. t \<le> ev_time e"
    "win \<noteq> min_duration"
    "\<And>T. length (filter (\<lambda>(k, t). k = key \<and> T - win < t \<and> t \<le> T) h) \<le> nat lim"
  shows "length (filter (\<lambda>(k, t). k = key \<and> T - win < t \<and> t \<le> T) (spec_run lim win evs h)) \<le> nat lim"
  using assms
proof (induction lim win evs h rule: spec_run.induct)
  case (3 lim win now k evs h)
  let ?w = "\<lambda>T (k, t). k = key \<and> T - win < t \<and> t \<le> T"
  let ?ok = "int (recent (now + dur_neg win) k h) < lim"
  have "length (filter (?w T) (if ?ok then h @ [(k, now)] else h)) \<le> nat lim" for T
  proof (cases "?ok \<and> k = key \<and> T - win < now \<and> now \<le> T")
    case True
    have "length (filter (?w T) h) \<le> recent (now - win) k h"
      using True recent_window [of now T key win h] by simp
    moreover have "now + dur_neg win = now - win" using 3(4) by (simp add: dur_neg_def)
    ultimately show ?thesis using True by auto
  next
    case False
    with 3(5) [of T] show ?thesis by auto
  qed
  moreover have "\<forall>e \<in> set evs. \<forall>(k', t) \<in> set (if ?ok then h @ [(k, now)] else h). t \<le> ev_time e"
    using 3(2,3) by (auto split: prod.splits)
  ultimately show ?case using 3(1) 3(2,4) by simp
qed simp_all

lemma limiter_run_bound:
  assumes "sorted (map ev_time evs)" and "win \<noteq> min_duration"
  shows "length (filter (\<lambda>(k, t). k = key \<and> T - win < t \<and> t \<le> T)
      (fst (limiter_run evs (NewSlidingWindowLimiter lim win)))) \<le> nat lim"
  using spec_run_bound [OF assms(1) _ assms(2), of "[]" key lim T] limiter_run_new [OF assms(1)]
  by simp

text \<open>
  C23. At most \<^verbatim>\<open>limit\<close> requests of a key are granted in any window of time, wherever the window
  is placed: for every instant \<open>T\<close> the number of requests granted in the half-open interval
  from \<open>T - window\<close> to \<open>T\<close> is at most \<^verbatim>\<open>limit\<close> (and is 0 for a limit that is not positive).
\<close>

theorem limiter_window_bound:
  assumes "sorted (map ev_time evs)" and "win \<noteq> min_duration"
  shows "length (filter (\<lambda>(k, t). k = key \<and> T - win < t \<and> t \<le> T)
      (fst (limiter_run evs (NewSlidingWindowLimiter lim win)))) \<le> nat lim"
  using assms by (rule limiter_run_bound)


section \<open>Background cleanup\<close>

text \<open>
  The run-time state around one limiter: the stop channels are numbered as they are made,
  \<open>rt_closing\<close> are the channels a \<^verbatim>\<open>Stop\<close> has taken under the lock and not closed yet,
  \<open>rt_closed\<close> the closed ones, \<open>rt_starting\<close> the goroutines that have not made their
  ticker yet and \<open>rt_cleaners\<close> those in their loop. \<open>rt_panicked\<close> holds once a goroutine
  panicked: a ticker with a non-positive interval, or \<^verbatim>\<open>close\<close> of a closed channel.
\<close>

record limiter_rt =
  rt_limiter :: SlidingWindowLimiter
  rt_next :: nat
  rt_closing :: "nat list"
  rt_closed :: "nat list"
  rt_starting :: "(nat \<times> duration) list"
  rt_cleaners :: "nat list"
  rt_panicked :: bool

definition rt_new :: "SlidingWindowLimiter \<Rightarrow> limiter_rt" where
  "rt_new l = \<lparr>rt_limiter = l, rt_next = 0, rt_closing = [], rt_closed = [], rt_starting = [],
     rt_cleaners = [], rt_panicked = False\<rparr>"

definition CleanupEvery :: "duration \<Rightarrow> limiter_rt \<Rightarrow> limiter_rt" where
  "CleanupEvery interval r =
     (if stopCh (rt_limiter r) \<noteq> None then r
      else let ch = rt_next r in
        r\<lparr>rt_limiter := (rt_limiter r)\<lparr>stopCh := Some ch\<rparr>, rt_next := Suc ch,
          rt_starting := rt_starting r @ [(ch, interval)]\<rparr>)"

text \<open>The goroutine: make the ticker, then loop over ticks and the stop channel.\<close>

definition cleaner_start :: "nat \<times> duration \<Rightarrow> limiter_rt \<Rightarrow> limiter_rt" where
  "cleaner_start g r =
     (let r = r\<lparr>rt_starting := remove1 g (rt_starting r)\<rparr> in
      if snd g \<le> 0 then r\<lparr>rt_panicked := True\<rparr>
      else r\<lparr>rt_cleaners := rt_cleaners r @ [fst g]\<rparr>)"

definition cleaner_tick :: "gotime \<Rightarrow> limiter_rt \<Rightarrow> limiter_rt" where
  "cleaner_tick now r = r\<lparr>rt_limiter := limiter_gc now (rt_limiter r)\<rparr>"

definition cleaner_exit :: "nat \<Rightarrow> limiter_rt \<Rightarrow> limiter_rt" where
  "cleaner_exit ch r = r\<lparr>rt_cleaners := remove1 ch (rt_cleaners r)\<rparr>"

text \<open>\<^verbatim>\<open>Stop\<close>: the locked half takes the channel, the other half closes it.\<close>

definition Stop_take :: "limiter_rt \<Rightarrow> limiter_rt" where
  "Stop_take r =
     r\<lparr>rt_limiter := (rt_limiter r)\<lparr>stopCh := None\<rparr>,
       rt_closing := rt_closing r @ (case stopCh (rt_limiter r) of None \<Rightarrow> [] | Some ch \<Rightarrow> [ch])\<rparr>"

definition Stop_close :: "nat \<Rightarrow> limiter_rt \<Rightarrow> limiter_rt" where
  "Stop_close ch r =
     (let r = r\<lparr>rt_closing := remove1 ch (rt_closing r)\<rparr> in
      if ch \<in> set (rt_closed r) then r\<lparr>rt_panicked := True\<rparr>
      else r\<lparr>rt_closed := ch # rt_closed r\<rparr>)"

inductive rt_step :: "limiter_rt \<Rightarrow> limiter_rt \<Rightarrow> bool" where
  allow: "rt_step r (r\<lparr>rt_limiter := snd (Allow now key (rt_limiter r))\<rparr>)"
| cleanup: "0 < interval \<Longrightarrow> rt_step r (CleanupEvery interval r)"
| start: "g \<in> set (rt_starting r) \<Longrightarrow> rt_step r (cleaner_start g r)"
| tick: "ch \<in> set (rt_cleaners r) \<Longrightarrow> rt_step r (cleaner_tick now r)"
| exit: "ch \<in> set (rt_cleaners r) \<Longrightarrow> ch \<in> set (rt_closed r) \<Longrightarrow> rt_step r (cleaner_exit ch r)"
| take: "rt_step r (Stop_take r)"
| close: "ch \<in> set (rt_closing r) \<Longrightarrow> rt_step r (Stop_close ch r)"

text \<open>Every channel made so far is the current one, being closed, or closed, and only one of
  these; every goroutine has its own channel.\<close>

definition rt_inv :: "limiter_rt \<Rightarrow> bool" where
  "rt_inv r \<longleftrightarrow>
     (let cur = (case stopCh (rt_limiter r) of None \<Rightarrow> [] | Some ch \<Rightarrow> [ch]);
          gs = map fst (rt_starting r) @ rt_cleaners r
      in distinct (cur @ rt_closing r @ rt_closed r) \<and>
         set (cur @ rt_closing r @ rt_closed r) = {..<rt_next r} \<and>
         distinct gs \<and> set gs \<subseteq> {..<rt_next r} \<and> set (cur @ rt_closing r) \<subseteq> set gs \<and>
         (\<forall>g \<in> set (rt_starting r). 0 < snd g) \<and> \<not> rt_panicked r)"


lemma rt_inv_frame:
  "stopCh l = stopCh (rt_limiter r) \<Longrightarrow> rt_inv (r\<lparr>rt_limiter := l\<rparr>) = rt_inv r"
  by (simp add: rt_inv_def)

lemma rt_inv_cleanup: "rt_inv r \<Longrightarrow> 0 < interval \<Longrightarrow> rt_inv (CleanupEvery interval r)"
  by (auto simp: rt_inv_def CleanupEvery_def Let_def lessThan_Suc split: option.splits)

lemma rt_inv_start:
  assumes "rt_inv r" "g \<in> set (rt_starting r)"
  shows "rt_inv (cleaner_start g r)"
proof -
  obtain ys zs where x: "rt_starting r = ys @ g # zs" "g \<notin> set ys"
    using split_list_first [OF assms(2)] by blast
  have "0 < snd g" using assms by (simp add: rt_inv_def Let_def)
  with assms(1) show ?thesis
    by (auto simp: rt_inv_def cleaner_start_def Let_def x remove1_append)
qed

lemma rt_inv_exit:
  assumes "rt_inv r" "ch \<in> set (rt_cleaners r)" "ch \<in> set (rt_closed r)"
  shows "rt_inv (cleaner_exit ch r)"
  using assms by (auto simp: rt_inv_def cleaner_exit_def Let_def set_remove1_eq split: option.splits)

lemma rt_inv_take: "rt_inv r \<Longrightarrow> rt_inv (Stop_take r)"
  by (auto simp: rt_inv_def Stop_take_def Let_def split: option.splits)

lemma rt_inv_close:
  assumes "rt_inv r" "ch \<in> set (rt_closing r)"
  shows "rt_inv (Stop_close ch r)"
  using assms by (auto simp: rt_inv_def Stop_close_def Let_def set_remove1_eq split: option.splits)

lemma rt_step_inv: "rt_step r r' \<Longrightarrow> rt_inv r \<Longrightarrow> rt_inv r'"
  by (induction rule: rt_step.induct)
    (simp_all add: rt_inv_cleanup rt_inv_start rt_inv_exit rt_inv_take rt_inv_close rt_inv_frame
      cleaner_tick_def)

interpretation rt: step_system rt_step rt_inv
  by unfold_locales (rule rt_step_inv)

lemma rt_run_inv: "rt_step\<^sup>*\<^sup>* (rt_new (NewSlidingWindowLimiter lim win)) r \<Longrightarrow> rt_inv r"
  by (erule rt.reach_inv) (simp add: rt_inv_def rt_new_def NewSlidingWindowLimiter_def)

text \<open>
  C24. Starting and stopping the background cleanup is safe under every interleaving of
  \<^verbatim>\<open>Allow\<close>, \<^verbatim>\<open>CleanupEvery\<close> with positive intervals, the two halves of concurrent \<^verbatim>\<open>Stop\<close>
  calls and the cleanup goroutines: no channel is ever closed twice, nothing panics, and the
  goroutines that nobody has told to stop are exactly the one that belongs to the current stop
  channel, none if there is no such channel.
\<close>

theorem cleanup_lifecycle_safe:
  assumes "rt_step\<^sup>*\<^sup>* (rt_new (NewSlidingWindowLimiter lim win)) r"
  shows "\<not> rt_panicked r \<and> distinct (rt_closing r @ rt_closed r) \<and>
    {g \<in> set (map fst (rt_starting r) @ rt_cleaners r). g \<notin> set (rt_closing r @ rt_closed r)} =
      set_option (stopCh (rt_limiter r))"
  using rt_run_inv [OF assms] by (auto simp: rt_inv_def Let_def split: option.splits)

theorem cleanup_lifecycle_safe_witness:
  "\<exists>r. rt_step\<^sup>*\<^sup>* (rt_new (NewSlidingWindowLimiter 5 dur_second)) r \<and>
     stopCh (rt_limiter r) = Some 1 \<and> rt_closing r = [0] \<and> rt_cleaners r = [0] \<and> \<not> rt_panicked r"
proof -
  let ?r0 = "rt_new (NewSlidingWindowLimiter 5 dur_second)"
  let ?r1 = "CleanupEvery 7 ?r0"
  let ?r2 = "cleaner_start (0, 7) ?r1"
  let ?r3 = "Stop_take ?r2"
  let ?r4 = "CleanupEvery 7 ?r3"
  note defs = rt_new_def NewSlidingWindowLimiter_def CleanupEvery_def cleaner_start_def Stop_take_def
  have a: "rt_step ?r0 ?r1" and d: "rt_step ?r3 ?r4" by (rule rt_step.cleanup, simp)+
  have b: "rt_step ?r1 ?r2" by (rule rt_step.start) (simp add: defs)
  have c: "rt_step ?r2 ?r3" by (rule rt_step.take)
  note run = converse_rtranclp_into_rtranclp [OF a converse_rtranclp_into_rtranclp [OF b
        converse_rtranclp_into_rtranclp [where r = rt_step, OF c r_into_rtranclp [where r = rt_step, OF d]]]]
  have cls: "stopCh (rt_limiter ?r4) = Some 1" "rt_closing ?r4 = [0]" "rt_cleaners ?r4 = [0]"
    by (simp_all add: defs)
  from cleanup_lifecycle_safe [OF run] have "\<not> rt_panicked ?r4" by (rule conjunct1)
  with run cls show ?thesis by blast
qed

section \<open>Prebuilt limiters\<close>

definition NewDefaultLimiter :: "LimiterConfig \<Rightarrow> limiter_rt \<times> limiter_rt" where
  "NewDefaultLimiter cfg =
     (let second = rt_new (NewSlidingWindowLimiter
            (int_add (RequestsPerSecondPerKey cfg) (BurstSize cfg)) dur_second);
          minute = rt_new (NewSlidingWindowLimiter
            (int_add (RequestsPerMinutePerKey cfg) (BurstSize cfg)) dur_minute)
      in (CleanupEvery (CleanupInterval cfg) second, CleanupEvery (CleanupInterval cfg) minute))"

lemma Allow_nonpositive: "limit l \<le> 0 \<Longrightarrow> \<not> fst (Allow now key l)"
  by (simp add: Allow_def Let_def)

text \<open>
  Zero values in a \<^verbatim>\<open>LimiterConfig\<close> do not disable a level, as its comment says. With no
  burst allowance a level configured with 0 refuses every request, and a cleanup interval of 0
  makes the background goroutine of both limiters panic as soon as it starts.
\<close>

theorem limiter_config_zero:
  assumes "BurstSize cfg = 0"
  shows "(RequestsPerSecondPerKey cfg = 0 \<longrightarrow>
       \<not> fst (Allow now key (rt_limiter (fst (NewDefaultLimiter cfg))))) \<and>
    (RequestsPerMinutePerKey cfg = 0 \<longrightarrow>
       \<not> fst (Allow now key (rt_limiter (snd (NewDefaultLimiter cfg))))) \<and>
    (CleanupInterval cfg = 0 \<longrightarrow>
       (\<forall>r \<in> {fst (NewDefaultLimiter cfg), snd (NewDefaultLimiter cfg)}.
          \<exists>g. rt_starting r = [g] \<and> rt_panicked (cleaner_start g r)))"
  using assms
  by (auto simp: NewDefaultLimiter_def Let_def CleanupEvery_def rt_new_def NewSlidingWindowLimiter_def
      int_add_def cleaner_start_def intro!: Allow_nonpositive)

theorem limiter_config_zero_witness:
  "\<not> fst (Allow 1 ''k'' (rt_limiter (fst (NewDefaultLimiter
      \<lparr>RequestsPerSecondPerKey = 0, RequestsPerMinutePerKey = 0, BurstSize = 0, CleanupInterval = 0\<rparr>))))"
  using limiter_config_zero [of "\<lparr>RequestsPerSecondPerKey = 0, RequestsPerMinutePerKey = 0,
      BurstSize = 0, CleanupInterval = 0\<rparr>" 1 "''k''"]
  by simp

theorem limiter_refines_history_witness:
  "fst (limiter_run [ReqAt 1 ''a'', ReqAt 2 ''a'', ReqAt 3 ''a'', GcAt 11, ReqAt 12 ''a'']
      (NewSlidingWindowLimiter 2 10)) = [(''a'', 1), (''a'', 2), (''a'', 12)]"
proof -
  have "sorted (map ev_time [ReqAt 1 ''a'', ReqAt 2 ''a'', ReqAt 3 ''a'', GcAt 11, ReqAt 12 ''a''])" by simp
  from limiter_refines_history [OF this, of 2 10] show ?thesis
    by (simp add: recent_def dur_neg_def min_duration_def)
qed

theorem limiter_window_bound_witness:
  "length (filter (\<lambda>(k, t). k = ''a'' \<and> 5 - 10 < t \<and> t \<le> 5)
      (fst (limiter_run [ReqAt 1 ''a'', ReqAt 2 ''a'', ReqAt 3 ''a''] (NewSlidingWindowLimiter 2 10)))) \<le> 2"
  using limiter_window_bound [of "[ReqAt 1 ''a'', ReqAt 2 ''a'', ReqAt 3 ''a'']" 10 "''a''" 5 2]
  by (simp add: min_duration_def)

end
