(* ===== verification/Server_Handlers.thy ===== *)
theory Server_Handlers
  imports Frame_Wire Session_Store Rate_Limit Media_Tokens
begin

text \<open>
  Handlers, contexts and middleware: \<^verbatim>\<open>src/server/handler.go\<close> and
  \<^verbatim>\<open>src/server/middleware.go\<close>. Handlers are arbitrary application code, so they are functions
  on the state of the program, which they may change in any way: the world below holds the
  clock, the random source, the session heap and store, the media tokens, the limiters (a limiter pointer is an
  index into their list), the log of the middleware and a component for the application. A
  handler returns a response (possibly nil) or an error, or panics.
\<close>

section \<open>The world\<close>

datatype handler_err = HandlerErr string

datatype mw_log =
    MwError u16 duration handler_err
  | MwStatus u16 duration byte
  | MwNil u16 duration
  | MwPanic u16 u64 panic

record 'a world =
  w_now :: gotime
  w_rnd :: stream
  w_heap :: sheap
  w_sessions :: SessionStore
  w_nextID :: u64
  w_media :: "SessionStore TokenStore option"
  w_limiters :: "SlidingWindowLimiter list"
  w_log :: "mw_log list"
  w_app :: 'a

section \<open>Contexts\<close>

text \<open>
  \<^verbatim>\<open>context.Context\<close> as the stack of its values. The package's keys have an unexported type,
  so no other key equals one of them.
\<close>

datatype ctx_key = ctxSessionID | ctxAPIKeyID | ctxRemoteAddr | ctxOther nat
datatype ctx_val = CtxUint64 u64 | CtxString string | CtxAny nat

type_synonym ctx = "(ctx_key \<times> ctx_val) list"

definition WithValue :: "ctx \<Rightarrow> ctx_key \<Rightarrow> ctx_val \<Rightarrow> ctx" where
  "WithValue c k v = (k, v) # c"

definition ctx_Value :: "ctx \<Rightarrow> ctx_key \<Rightarrow> ctx_val option" where
  "ctx_Value c k = map_of c k"

definition SessionIDFromContext :: "ctx \<Rightarrow> u64 \<times> bool" where
  "SessionIDFromContext c = (case ctx_Value c ctxSessionID of
     None \<Rightarrow> (0, False) | Some (CtxUint64 i) \<Rightarrow> (i, True) | Some _ \<Rightarrow> (0, False))"

definition APIKeyIDFromContext :: "ctx \<Rightarrow> string \<times> bool" where
  "APIKeyIDFromContext c = (case ctx_Value c ctxAPIKeyID of
     None \<Rightarrow> ([], False) | Some (CtxString s) \<Rightarrow> (s, True) | Some _ \<Rightarrow> ([], False))"

definition RemoteAddrFromContext :: "ctx \<Rightarrow> string \<times> bool" where
  "RemoteAddrFromContext c = (case ctx_Value c ctxRemoteAddr of
     None \<Rightarrow> ([], False) | Some (CtxString s) \<Rightarrow> (s, True) | Some _ \<Rightarrow> ([], False))"

section \<open>Handlers\<close>

text \<open>A server request: the frame's request with the session's data.\<close>

record SrvRequest =
  SrvReq :: Request
  SrvSessionID :: u64
  SrvAPIKeyID :: string

type_synonym 'a hfun = "ctx \<Rightarrow> SrvRequest \<Rightarrow> ('a world, handler_err, Response option) io"
type_synonym 'a sfun = "ctx \<Rightarrow> SrvRequest \<Rightarrow> bytes option \<Rightarrow> ('a world \<times> stream, handler_err, unit) io"

text \<open>
  A value of the interface \<^verbatim>\<open>Handler\<close>: its method \<^verbatim>\<open>HandleHush\<close> and, when its dynamic type
  also implements \<^verbatim>\<open>StreamHandler\<close>, its method \<^verbatim>\<open>HandleHushStream\<close>.
\<close>

datatype 'a handler = Handler (HandleHush: "'a hfun") (HandleHushStream: "'a sfun option")

definition HandlerFunc :: "'a hfun \<Rightarrow> 'a handler" where
  "HandlerFunc f = Handler f None"

definition StreamHandlerFunc :: "'a sfun \<Rightarrow> 'a handler" where
  "StreamHandlerFunc f =
     Handler (\<lambda>c req w. (Err (HandlerErr ''stream handler registered as regular handler''), w)) (Some f)"

definition NewResponse :: "tlv_map option \<Rightarrow> Response" where
  "NewResponse payload = \<lparr>Status = StatusSuccess, RespPayload = payload, Seq = 0\<rparr>"

definition ErrorResponse :: "byte \<Rightarrow> string \<Rightarrow> Response" where
  "ErrorResponse code message =
     \<lparr>Status = code, RespPayload = Some (map_set NewMap ''error'' (VString message)), Seq = 0\<rparr>"

section \<open>Middleware\<close>

type_synonym 'a Middleware = "'a handler \<Rightarrow> 'a handler"

definition add_log :: "mw_log \<Rightarrow> 'a world \<Rightarrow> 'a world" where
  "add_log e w = w\<lparr>w_log := w_log w @ [e]\<rparr>"

definition LoggingMiddleware :: "'a Middleware" where
  "LoggingMiddleware nxt = HandlerFunc (\<lambda>c req w.
     let start = w_now w; op = Opcode (SrvReq req) in
     case HandleHush nxt c req w of
       (Err e, w) \<Rightarrow> (Err e, add_log (MwError op (time_since (w_now w) start) e) w)
     | (Ok (Some resp), w) \<Rightarrow> (Ok (Some resp), add_log (MwStatus op (time_since (w_now w) start) (Status resp)) w)
     | (Ok None, w) \<Rightarrow> (Ok None, add_log (MwNil op (time_since (w_now w) start)) w)
     | (Panic p, w) \<Rightarrow> (Panic p, w))"

text \<open>The callback of \<^verbatim>\<open>RecoveryMiddleware\<close>: application code, which may panic itself; nil
  selects one that logs. A recovered handler returns the zero values, a nil response and a nil
  error.\<close>

type_synonym 'a on_panic = "SrvRequest \<Rightarrow> panic \<Rightarrow> 'a world \<Rightarrow> panic option \<times> 'a world"

definition default_on_panic :: "'a on_panic" where
  "default_on_panic req p w = (None, add_log (MwPanic (Opcode (SrvReq req)) (SrvSessionID req) p) w)"

definition RecoveryMiddleware :: "'a on_panic option \<Rightarrow> 'a Middleware" where
  "RecoveryMiddleware onPanic nxt = HandlerFunc (\<lambda>c req w.
     case HandleHush nxt c req w of
       (Panic p, w) \<Rightarrow>
         (case (case onPanic of None \<Rightarrow> default_on_panic | Some f \<Rightarrow> f) req p w of
            (None, w) \<Rightarrow> (Ok None, w)
          | (Some q, w) \<Rightarrow> (Panic q, w))
     | r \<Rightarrow> r)"

definition ContextMiddleware :: "ctx_key \<Rightarrow> ctx_val \<Rightarrow> 'a Middleware" where
  "ContextMiddleware key val nxt = HandlerFunc (\<lambda>c req w. HandleHush nxt (WithValue c key val) req w)"

text \<open>\<^verbatim>\<open>limiter.Allow(key)\<close> on the limiter a pointer refers to.\<close>

definition allow_at :: "nat \<Rightarrow> string \<Rightarrow> 'a world \<Rightarrow> bool \<times> 'a world" where
  "allow_at i key w =
     (case Allow (w_now w) key (w_limiters w ! i) of
        (ok, l) \<Rightarrow> (ok, w\<lparr>w_limiters := (w_limiters w)[i := l]\<rparr>))"

definition rate_limited :: Response where
  "rate_limited = ErrorResponse StatusRateLimited ''rate limit exceeded''"

definition RateLimitMiddleware :: "nat \<Rightarrow> (SrvRequest \<Rightarrow> string) \<Rightarrow> 'a Middleware" where
  "RateLimitMiddleware limiter keyFn nxt = HandlerFunc (\<lambda>c req w.
     case allow_at limiter (keyFn req) w of
       (ok, w) \<Rightarrow> if \<not> ok then (Ok (Some rate_limited), w) else HandleHush nxt c req w)"

definition session_key :: "SrvRequest \<Rightarrow> string" where
  "session_key req = ''session:'' @ dec (unat (SrvSessionID req))"

definition RateLimitBySession :: "nat \<Rightarrow> 'a Middleware" where
  "RateLimitBySession limiter = RateLimitMiddleware limiter session_key"

definition RateLimitByAPIKey :: "nat \<Rightarrow> 'a Middleware" where
  "RateLimitByAPIKey limiter = RateLimitMiddleware limiter (\<lambda>req.
     if SrvAPIKeyID req = [] then ''key:anonymous'' else ''key:'' @ SrvAPIKeyID req)"

definition RateLimitByRemoteAddr :: "nat \<Rightarrow> 'a Middleware" where
  "RateLimitByRemoteAddr limiter nxt = HandlerFunc (\<lambda>c req w.
     let addr = fst (RemoteAddrFromContext c);
         addr = (if addr = [] then ''unknown'' else addr)
     in case allow_at limiter (''ip:'' @ addr) w of
       (ok, w) \<Rightarrow> if \<not> ok then (Ok (Some rate_limited), w) else HandleHush nxt c req w)"

fun allow_all :: "nat list \<Rightarrow> string \<Rightarrow> 'a world \<Rightarrow> bool \<times> 'a world" where
  "allow_all [] key w = (True, w)"
| "allow_all (l # ls) key w =
     (case allow_at l key w of (ok, w) \<Rightarrow> if \<not> ok then (False, w) else allow_all ls key w)"

definition MultiRateLimitMiddleware :: "nat list \<Rightarrow> 'a Middleware" where
  "MultiRateLimitMiddleware limiters nxt = HandlerFunc (\<lambda>c req w.
     case allow_all limiters (session_key req) w of
       (ok, w) \<Rightarrow> if \<not> ok then (Ok (Some rate_limited), w) else HandleHush nxt c req w)"

definition RequireAPIKeyID :: "string list \<Rightarrow> 'a Middleware" where
  "RequireAPIKeyID allowed nxt = HandlerFunc (\<lambda>c req w.
     if SrvAPIKeyID req \<notin> set allowed
     then (Ok (Some (ErrorResponse StatusUnauthenticated ''api key not authorized'')), w)
     else HandleHush nxt c req w)"


section \<open>Gates\<close>

text \<open>
  The contract of a middleware that guards the next handler: it checks the request, perhaps
  changing the world, and then either hands the same request on or answers itself.
\<close>

locale gate =
  fixes mw :: "'a Middleware"
    and check :: "ctx \<Rightarrow> SrvRequest \<Rightarrow> 'a world \<Rightarrow> bool \<times> 'a world"
    and deny :: Response
  assumes gate: "HandleHush (mw h) c req w =
      (case check c req w of (ok, w') \<Rightarrow> if ok then HandleHush h c req w' else (Ok (Some deny), w'))"
begin

lemma denied: "check c req w = (False, w') \<Longrightarrow> HandleHush (mw h) c req w = (Ok (Some deny), w')"
  by (simp add: gate)

lemma passed: "check c req w = (True, w') \<Longrightarrow> HandleHush (mw h) c req w = HandleHush h c req w'"
  by (simp add: gate)

lemma denied_indep:
  "\<not> fst (check c req w) \<Longrightarrow> HandleHush (mw h) c req w = HandleHush (mw h') c req w"
  by (auto simp: gate split: prod.splits)

lemma local:
  "(\<And>c w. HandleHush h c req w = HandleHush h' c req w) \<Longrightarrow>
   HandleHush (mw h) c req w = HandleHush (mw h') c req w"
  by (simp add: gate split: prod.split)

end

interpretation rl: gate "RateLimitMiddleware l keyFn" "\<lambda>c req. allow_at l (keyFn req)" rate_limited
  for l keyFn by unfold_locales (simp add: RateLimitMiddleware_def HandlerFunc_def split: prod.split)

interpretation ra: gate "RateLimitByRemoteAddr l"
  "\<lambda>c req. allow_at l (''ip:'' @ (let a = fst (RemoteAddrFromContext c) in if a = [] then ''unknown'' else a))"
  rate_limited
  for l by unfold_locales (simp add: RateLimitByRemoteAddr_def HandlerFunc_def Let_def split: prod.split)

interpretation rm: gate "MultiRateLimitMiddleware ls" "\<lambda>c req. allow_all ls (session_key req)" rate_limited
  for ls by unfold_locales (simp add: MultiRateLimitMiddleware_def HandlerFunc_def split: prod.split)

interpretation ak: gate "RequireAPIKeyID allowed" "\<lambda>c req w. (SrvAPIKeyID req \<in> set allowed, w)"
    "ErrorResponse StatusUnauthenticated ''api key not authorized''"
  for allowed by unfold_locales (simp add: RequireAPIKeyID_def HandlerFunc_def)

text \<open>The middleware the package offers.\<close>

inductive builtin_mw :: "'a Middleware \<Rightarrow> bool" where
  logging: "builtin_mw LoggingMiddleware"
| recovery: "builtin_mw (RecoveryMiddleware onPanic)"
| ctx_value: "builtin_mw (ContextMiddleware k v)"
| rate_limit: "builtin_mw (RateLimitMiddleware l keyFn)"
| by_session: "builtin_mw (RateLimitBySession l)"
| by_key: "builtin_mw (RateLimitByAPIKey l)"
| by_addr: "builtin_mw (RateLimitByRemoteAddr l)"
| multi: "builtin_mw (MultiRateLimitMiddleware ls)"
| require: "builtin_mw (RequireAPIKeyID allowed)"

text \<open>It only ever hands on the request it was given: what it does with a request depends on
  the next handler only through what that does with the same request.\<close>

lemma builtin_mw_local:
  assumes "builtin_mw mw" "\<And>c w. HandleHush h c req w = HandleHush h' c req w"
  shows "HandleHush (mw h) c req w = HandleHush (mw h') c req w"
  using assms
  by (cases rule: builtin_mw.cases)
    (simp_all add: LoggingMiddleware_def RecoveryMiddleware_def ContextMiddleware_def HandlerFunc_def
      RateLimitBySession_def RateLimitByAPIKey_def rl.gate ra.gate rm.gate ak.gate split: prod.split)

lemma builtin_mw_plain: "builtin_mw mw \<Longrightarrow> HandleHushStream (mw h) = None"
  by (induction rule: builtin_mw.induct)
    (simp_all add: LoggingMiddleware_def RecoveryMiddleware_def ContextMiddleware_def HandlerFunc_def
      RateLimitBySession_def RateLimitByAPIKey_def RateLimitMiddleware_def RateLimitByRemoteAddr_def
      MultiRateLimitMiddleware_def RequireAPIKeyID_def)


section \<open>Rate limiting in front of a handler\<close>

text \<open>
  Requests that arrive one after the other at given times, and a handler that notes every
  request that reaches it.
\<close>

fun serve :: "'a handler \<Rightarrow> (gotime \<times> ctx \<times> SrvRequest) list \<Rightarrow> 'a world \<Rightarrow> 'a world" where
  "serve h [] w = w"
| "serve h ((t, c, req) # rs) w = serve h rs (snd (HandleHush h c req (w\<lparr>w_now := t\<rparr>)))"

definition probe :: "(gotime \<times> SrvRequest) list handler" where
  "probe = HandlerFunc (\<lambda>c req w. (Ok None, w\<lparr>w_app := w_app w @ [(w_now w, req)]\<rparr>))"

lemma serve_rate_limited:
  assumes "i < length (w_limiters w)"
  shows "map (\<lambda>(t, req). (keyFn req, t)) (w_app (serve (RateLimitMiddleware i keyFn probe) rs w)) =
    map (\<lambda>(t, req). (keyFn req, t)) (w_app w) @
    fst (limiter_run (map (\<lambda>(t, c, req). ReqAt t (keyFn req)) rs) (w_limiters w ! i))"
  using assms
proof (induction rs arbitrary: w)
  case (Cons r rs)
  obtain t c req where r: "r = (t, c, req)" by (metis prod.exhaust)
  obtain ok l where A: "Allow t (keyFn req) (w_limiters w ! i) = (ok, l)" by fastforce
  let ?w1 = "w\<lparr>w_now := t, w_limiters := (w_limiters w)[i := l]\<rparr>"
  let ?w2 = "if ok then ?w1\<lparr>w_app := w_app w @ [(t, req)]\<rparr> else ?w1"
  have "snd (HandleHush (RateLimitMiddleware i keyFn probe) c req (w\<lparr>w_now := t\<rparr>)) = ?w2"
    by (simp add: rl.gate allow_at_def A probe_def HandlerFunc_def)
  moreover have "w_limiters ?w2 ! i = l" "i < length (w_limiters ?w2)" using Cons.prems by simp_all
  ultimately show ?case
    using Cons.IH [of ?w2] A by (simp add: r split: prod.split)
qed simp

text \<open>
  Behind a rate limiter a handler is not overrun. With \<^verbatim>\<open>RateLimitMiddleware\<close> on a fresh
  limiter in front, whatever the requests and their keys, at most \<^verbatim>\<open>limit\<close> requests of a key
  reach the next handler in any window of time; the others are answered by the middleware.
\<close>

theorem rate_limited_handler_bound:
  assumes "i < length (w_limiters w)" and "w_limiters w ! i = NewSlidingWindowLimiter lim win"
    and "win \<noteq> min_duration" and "w_app w = []" and "sorted (map fst rs)"
  shows "length (filter (\<lambda>(t, req). keyFn req = key \<and> T - win < t \<and> t \<le> T)
      (w_app (serve (RateLimitMiddleware i keyFn probe) rs w))) \<le> nat lim"
proof -
  let ?evs = "map (\<lambda>(t, c, req). ReqAt t (keyFn req)) rs"
  let ?reached = "w_app (serve (RateLimitMiddleware i keyFn probe) rs w)"
  have ev: "map ev_time ?evs = map fst rs" by auto
  have "length (filter (\<lambda>(k, t). k = key \<and> T - win < t \<and> t \<le> T)
      (fst (limiter_run ?evs (NewSlidingWindowLimiter lim win)))) \<le> nat lim"
    using limiter_run_bound [of ?evs win key T lim, unfolded ev, OF assms(5,3)] .
  moreover have "fst (limiter_run ?evs (NewSlidingWindowLimiter lim win)) =
      map (\<lambda>(t, req). (keyFn req, t)) ?reached"
    using serve_rate_limited [OF assms(1), of keyFn rs] assms(2,4) by simp
  ultimately show ?thesis
    by (simp add: filter_map comp_def case_prod_unfold)
qed

text \<open>
  C20. Access control by API key cannot be bypassed by the rest of the chain. If
  \<^verbatim>\<open>RequireAPIKeyID\<close> stands anywhere in a chain of middleware, behind any built-in middleware
  and in front of any other, then for a request whose API key is not listed the outcome and the
  changes to the world are the same whatever handler is registered and whatever follows in the
  chain: neither is consulted.
\<close>

theorem require_key_guards:
  assumes "\<forall>mw \<in> set outer. builtin_mw mw" and "SrvAPIKeyID req \<notin> set allowed"
  shows "HandleHush (foldr (\<lambda>mw. mw) (outer @ RequireAPIKeyID allowed # inner) h) c req w =
    HandleHush (foldr (\<lambda>mw. mw) (outer @ [RequireAPIKeyID allowed]) h') c req w"
  using assms(1)
proof (induction outer arbitrary: c w)
  case Nil
  then show ?case using ak.denied_indep [of req allowed] assms(2) by simp
next
  case (Cons mw outer)
  then show ?case by (auto intro: builtin_mw_local)
qed


section \<open>Witnesses\<close>

definition sample_world :: "'a \<Rightarrow> 'a world" where
  "sample_world a = \<lparr>w_now = 0, w_rnd = stream_of (replicate 100 9), w_heap = [sample_session],
     w_sessions = sample_store, w_nextID = 1, w_media = None,
     w_limiters = [NewSlidingWindowLimiter 1 10], w_log = [], w_app = a\<rparr>"

definition sample_req :: SrvRequest where
  "sample_req = \<lparr>SrvReq = \<lparr>Opcode = 7, ReqPayload = None\<rparr>, SrvSessionID = 1, SrvAPIKeyID = ''k''\<rparr>"

theorem rate_limited_handler_bound_witness:
  "length (filter (\<lambda>(t, req). session_key req = ''session:1'' \<and> 5 - 10 < t \<and> t \<le> 5)
      (w_app (serve (RateLimitMiddleware 0 session_key probe)
         [(1, [], sample_req), (2, [], sample_req)] (sample_world [])))) \<le> 1"
  using rate_limited_handler_bound [of 0 "sample_world []" 1 10 "[(1, [], sample_req), (2, [], sample_req)]"
      session_key "''session:1''" 5]
  by (simp add: sample_world_def min_duration_def)

theorem require_key_guards_witness:
  "HandleHush (foldr (\<lambda>mw. mw) ([LoggingMiddleware] @ RequireAPIKeyID [''admin''] # []) probe) [] sample_req
      (sample_world []) =
    HandleHush (foldr (\<lambda>mw. mw) ([LoggingMiddleware] @ [RequireAPIKeyID [''admin'']])
      (HandlerFunc (\<lambda>c req w. (Panic (PanicUser 0), w)))) [] sample_req (sample_world [])"
  by (rule require_key_guards) (simp_all add: builtin_mw.intros sample_req_def)

end
