(* ===== verification/Transport.thy ===== *)
theory Transport
  imports Go_IO
begin

text \<open>
  The transports, \<^verbatim>\<open>src/transport/dial.go\<close> and \<^verbatim>\<open>src/transport/tcp.go\<close>: TLS configuration with a
  default protocol name, and the order in which sockets are opened and released. The operating
  system, quic-go and \<^verbatim>\<open>crypto/tls\<close> are the record \<open>network\<close> of functions that succeed with a
  handle or fail; the state is the list of open handles.
\<close>

section \<open>Configuration\<close>

text \<open>Of a \<^verbatim>\<open>tls.Config\<close> the program looks at \<^verbatim>\<open>NextProtos\<close> only; \<open>TLSRest\<close> names the rest.\<close>

record tls_config =
  NextProtos :: "string list"
  TLSRest :: nat

definition empty_config :: tls_config where
  "empty_config = \<lparr>NextProtos = [], TLSRest = 0\<rparr>"

text \<open>\<^verbatim>\<open>DefaultALPN\<close> is a variable, and an argument \<open>dflt\<close> of the operations; this is its initial value
  and the constant \<^verbatim>\<open>ALPN\<close>.\<close>

definition DefaultALPN :: string where "DefaultALPN = ''hush/1''"
definition ALPN :: string where "ALPN = ''hush/1''"

definition default_protos :: "string \<Rightarrow> tls_config \<Rightarrow> tls_config" where
  "default_protos dflt c = (if length (NextProtos c) = 0 then c\<lparr>NextProtos := [dflt]\<rparr> else c)"

section \<open>Network\<close>

type_synonym handle = nat

record network =
  quic_DialAddr :: "string \<Rightarrow> tls_config \<Rightarrow> (io_err, handle) result"
  net_ResolveUDPAddr :: "string \<Rightarrow> (io_err, string) result"
  net_ListenUDP :: "string \<Rightarrow> (io_err, handle) result"
  quic_Listen :: "handle \<Rightarrow> tls_config \<Rightarrow> (io_err, handle) result"
  net_DialTCP :: "string \<Rightarrow> (io_err, handle) result"
  tls_Handshake :: "handle \<Rightarrow> tls_config \<Rightarrow> (io_err, unit) result"
  tls_Listen :: "string \<Rightarrow> tls_config \<Rightarrow> (io_err, handle) result"

datatype transport_err =
    TrDial string io_err
  | TrResolve string io_err
  | TrListenUDP string io_err
  | TrListenQUIC io_err
  | TrDialTCP string io_err
  | TrHandshake string io_err
  | TrConfigRequired
  | TrListenTCP string io_err

text \<open>A call that opens a handle when it succeeds; closing a handle.\<close>

definition acquire :: "(io_err, handle) result \<Rightarrow> (io_err \<Rightarrow> transport_err) \<Rightarrow> (handle list, transport_err, handle) io" where
  "acquire r f op = (case r of Ok h \<Rightarrow> (Ok h, h # op) | Err e \<Rightarrow> (Err (f e), op) | Panic q \<Rightarrow> (Panic q, op))"

definition release :: "handle \<Rightarrow> handle list \<Rightarrow> handle list" where
  "release h op = remove1 h op"

section \<open>Operations\<close>

definition tr_Dial :: "network \<Rightarrow> string \<Rightarrow> string \<Rightarrow> tls_config option \<Rightarrow> (handle list, transport_err, handle) io" where
  "tr_Dial N dflt a conf op =
     (let conf = (case conf of None \<Rightarrow> empty_config | Some c \<Rightarrow> c);
          conf = default_protos dflt conf
      in acquire (quic_DialAddr N a conf) (TrDial a) op)"

text \<open>\<^verbatim>\<open>Clone\<close> of a nil configuration is nil, and looking at its \<^verbatim>\<open>NextProtos\<close> then panics.\<close>

definition tr_Listen :: "network \<Rightarrow> string \<Rightarrow> string \<Rightarrow> tls_config option \<Rightarrow> (handle list, transport_err, handle) io" where
  "tr_Listen N dflt a conf op =
     (case net_ResolveUDPAddr N a of
        Err e \<Rightarrow> (Err (TrResolve a e), op)
      | Panic q \<Rightarrow> (Panic q, op)
      | Ok udpAddr \<Rightarrow>
          sbind (acquire (net_ListenUDP N udpAddr) (TrListenUDP a) op) (\<lambda>udpConn op.
            case conf of
              None \<Rightarrow> (Panic PanicNilDeref, op)
            | Some c \<Rightarrow> acquire (quic_Listen N udpConn (default_protos dflt c)) TrListenQUIC op))"

definition tr_DialTCP :: "network \<Rightarrow> string \<Rightarrow> string \<Rightarrow> tls_config option \<Rightarrow> (handle list, transport_err, handle) io" where
  "tr_DialTCP N dflt a conf op =
     (let conf = (case conf of None \<Rightarrow> empty_config | Some c \<Rightarrow> c);
          conf = default_protos dflt conf
      in sbind (acquire (net_DialTCP N a) (TrDialTCP a) op) (\<lambda>rawConn op.
           case tls_Handshake N rawConn conf of
             Err e \<Rightarrow> (Err (TrHandshake a e), release rawConn op)
           | Panic q \<Rightarrow> (Panic q, op)
           | Ok _ \<Rightarrow> (Ok rawConn, op)))"

definition tr_ListenTCP :: "network \<Rightarrow> string \<Rightarrow> string \<Rightarrow> tls_config option \<Rightarrow> (handle list, transport_err, handle) io" where
  "tr_ListenTCP N dflt a conf op =
     (case conf of
        None \<Rightarrow> (Err TrConfigRequired, op)
      | Some c \<Rightarrow> acquire (tls_Listen N a (default_protos dflt c)) (TrListenTCP a) op)"

lemmas transport_ops = tr_Dial_def tr_Listen_def tr_DialTCP_def tr_ListenTCP_def

section \<open>Properties\<close>

lemma default_protos_not_Nil [simp]: "NextProtos (default_protos dflt c) \<noteq> []"
  by (simp add: default_protos_def)

lemma acquire_Err: "acquire r f op = (Err e, op') \<Longrightarrow> op' = op"
  by (auto simp: acquire_def split: result.splits)

lemma acquire_Ok: "acquire r f op = (Ok h, op') \<Longrightarrow> r = Ok h \<and> op' = h # op"
  by (auto simp: acquire_def split: result.splits)

lemma sbind_eq_Err_iff:
  "sbind m f = (Err e, s') \<longleftrightarrow> m = (Err e, s') \<or> (\<exists>x s. m = (Ok x, s) \<and> f x s = (Err e, s'))"
  by (cases m; cases "fst m") auto

lemma tr_Dial_Err: "tr_Dial N dflt a conf op = (Err e, op') \<Longrightarrow> op' = op"
  by (auto simp: tr_Dial_def Let_def dest: acquire_Err)

lemma tr_ListenTCP_Err: "tr_ListenTCP N dflt a conf op = (Err e, op') \<Longrightarrow> op' = op"
  by (auto simp: tr_ListenTCP_def dest: acquire_Err split: option.splits)

lemma tr_DialTCP_Err:
  assumes "tr_DialTCP N dflt a conf op = (Err e, op')"
  shows "op' = op"
proof -
  define c where "c = default_protos dflt (case conf of None \<Rightarrow> empty_config | Some c \<Rightarrow> c)"
  from assms consider "acquire (net_DialTCP N a) (TrDialTCP a) op = (Err e, op')"
    | h op1 where "acquire (net_DialTCP N a) (TrDialTCP a) op = (Ok h, op1)"
        "(case tls_Handshake N h c of Err e \<Rightarrow> (Err (TrHandshake a e), release h op1)
          | Panic q \<Rightarrow> (Panic q, op1) | Ok _ \<Rightarrow> (Ok h, op1)) = (Err e, op')"
    unfolding tr_DialTCP_def Let_def sbind_eq_Err_iff c_def by blast
  then show ?thesis
  proof cases
    case 1
    then show ?thesis by (rule acquire_Err)
  next
    case (2 h op1)
    then show ?thesis
      using acquire_Ok [OF 2(1)] by (cases "tls_Handshake N h c") (auto simp: release_def)
  qed
qed

lemma tr_Listen_Err:
  assumes "tr_Listen N dflt a conf op = (Err e, op')"
  shows "op' = op \<or> (\<exists>err udpAddr s. e = TrListenQUIC err \<and> net_ResolveUDPAddr N a = Ok udpAddr \<and>
    net_ListenUDP N udpAddr = Ok s \<and> op' = s # op)"
proof (cases "net_ResolveUDPAddr N a")
  case (Ok udpAddr)
  then have "sbind (acquire (net_ListenUDP N udpAddr) (TrListenUDP a) op) (\<lambda>udpConn op.
      case conf of None \<Rightarrow> (Panic PanicNilDeref, op)
      | Some c \<Rightarrow> acquire (quic_Listen N udpConn (default_protos dflt c)) TrListenQUIC op) = (Err e, op')"
    using assms by (simp add: tr_Listen_def)
  then show ?thesis
    using Ok by (cases "net_ListenUDP N udpAddr"; cases conf)
      (auto simp: acquire_def split: result.splits)
qed (use assms in \<open>auto simp: tr_Listen_def\<close>)

text \<open>
  Failed dials and listens release what they opened, with one exception. \<^verbatim>\<open>Dial\<close>, \<^verbatim>\<open>DialTCP\<close> and
  \<^verbatim>\<open>ListenTCP\<close> leave the open sockets as they were whenever they return an error, on every path;
  \<^verbatim>\<open>Listen\<close> does so too except when quic-go refuses to listen: then the UDP socket it opened
  stays open and no one holds it.
\<close>

theorem transport_errors_release:
  "(tr_Dial N dflt a conf op = (Err ea, opa) \<longrightarrow> opa = op) \<and>
   (tr_DialTCP N dflt a conf op = (Err eb, opb) \<longrightarrow> opb = op) \<and>
   (tr_ListenTCP N dflt a conf op = (Err ec, opc) \<longrightarrow> opc = op) \<and>
   (tr_Listen N dflt a conf op = (Err ed, opd) \<longrightarrow>
      opd = op \<or> (\<exists>err udpAddr s. ed = TrListenQUIC err \<and> net_ResolveUDPAddr N a = Ok udpAddr \<and>
        net_ListenUDP N udpAddr = Ok s \<and> opd = s # op))"
  by (intro conjI impI)
    (erule tr_Dial_Err, erule tr_DialTCP_Err, erule tr_ListenTCP_Err, erule tr_Listen_Err)

definition sample_network :: network where
  "sample_network =
     \<lparr>quic_DialAddr = (\<lambda>a c. Ok 1), net_ResolveUDPAddr = (\<lambda>a. Ok a), net_ListenUDP = (\<lambda>a. Ok 2),
      quic_Listen = (\<lambda>h c. if TLSRest c = 0 then Err ErrClosed else Ok 3), net_DialTCP = (\<lambda>a. Ok 4),
      tls_Handshake = (\<lambda>h c. if TLSRest c = 0 then Err EOF else Ok ()), tls_Listen = (\<lambda>a c. Ok 5)\<rparr>"

theorem transport_errors_release_witness:
  "tr_DialTCP sample_network DefaultALPN ''h:1'' None [9] = (Err (TrHandshake ''h:1'' EOF), [9]) \<and>
   tr_Listen sample_network DefaultALPN '':1'' (Some empty_config) [9] = (Err (TrListenQUIC ErrClosed), [2, 9])"
proof -
  obtain op2 op4 where o:
    "tr_DialTCP sample_network DefaultALPN ''h:1'' None [9] = (Err (TrHandshake ''h:1'' EOF), op2)"
    "tr_Listen sample_network DefaultALPN '':1'' (Some empty_config) [9] = (Err (TrListenQUIC ErrClosed), op4)"
    "op4 \<noteq> [9]"
    by (simp add: transport_ops sample_network_def acquire_def empty_config_def default_protos_def)
  have n: "net_ListenUDP sample_network x = Ok 2" for x by (simp add: sample_network_def)
  have "op2 = [9]"
    using transport_errors_release [of sample_network DefaultALPN "''h:1''" None "[9]"] o(1) by blast
  moreover have "op4 = [2, 9]"
    using transport_errors_release [where N = sample_network and op = "[9]" and ed = "TrListenQUIC ErrClosed"
        and opd = op4 and dflt = DefaultALPN and a = "'':1''" and conf = "Some empty_config"] o(2,3) n
    by auto
  ultimately show ?thesis using o by simp
qed

text \<open>
  Every connection is offered under a protocol name: the configuration that reaches quic-go or
  \<^verbatim>\<open>crypto/tls\<close> has the names the caller set, or the default when there are none, and never an
  empty list, so what the network does with configurations without protocol names cannot matter;
  and client and server that both leave the names open offer the same one.
\<close>

lemma transport_protocol_set:
  assumes "\<And>a c. NextProtos c \<noteq> [] \<Longrightarrow> quic_DialAddr N a c = quic_DialAddr M a c"
    and "\<And>h c. NextProtos c \<noteq> [] \<Longrightarrow> quic_Listen N h c = quic_Listen M h c"
    and "\<And>h c. NextProtos c \<noteq> [] \<Longrightarrow> tls_Handshake N h c = tls_Handshake M h c"
    and "\<And>a c. NextProtos c \<noteq> [] \<Longrightarrow> tls_Listen N a c = tls_Listen M a c"
    and "net_ResolveUDPAddr N = net_ResolveUDPAddr M" and "net_ListenUDP N = net_ListenUDP M"
    and "net_DialTCP N = net_DialTCP M"
  shows "tr_Dial N dflt a conf op = tr_Dial M dflt a conf op \<and>
    tr_Listen N dflt a conf op = tr_Listen M dflt a conf op \<and>
    tr_DialTCP N dflt a conf op = tr_DialTCP M dflt a conf op \<and>
    tr_ListenTCP N dflt a conf op = tr_ListenTCP M dflt a conf op \<and>
    NextProtos (default_protos dflt c) = (if NextProtos c = [] then [dflt] else NextProtos c)"
  using assms by (auto simp: transport_ops Let_def default_protos_def split: option.splits result.splits)

end
