(* ===== verification/Logger.thy ===== *)
theory Logger
  imports Go_IO
begin

text \<open>
  The coloured logger, \<^verbatim>\<open>src/server/logger.go\<close>, and the server's \<^verbatim>\<open>logf\<close>
  (\<^verbatim>\<open>src/server/server.go\<close>). A log line is parsed for a level in brackets and written with
  terminal colours. The clock's text and the formatted message are arguments; \<^verbatim>\<open>[]byte\<close> and
  \<^verbatim>\<open>string\<close> are both strings of bytes here.
\<close>

section \<open>Colours and levels\<close>

definition ansi_reset :: string where "ansi_reset = CHR 0x1B # ''[0m''"
definition ansi_dim :: string where "ansi_dim = CHR 0x1B # ''[90m''"
definition ansi_blue :: string where "ansi_blue = CHR 0x1B # ''[34m''"
definition ansi_yellow :: string where "ansi_yellow = CHR 0x1B # ''[33m''"
definition ansi_red :: string where "ansi_red = CHR 0x1B # ''[31m''"

definition LevelInfo :: string where "LevelInfo = ''INF''"
definition LevelWarn :: string where "LevelWarn = ''WRN''"
definition LevelError :: string where "LevelError = ''ERR''"

lemmas level_defs = LevelInfo_def LevelWarn_def LevelError_def

definition colorForLevel :: "string \<Rightarrow> string" where
  "colorForLevel level =
     (if level = ''INF'' then ansi_blue
      else if level = ''WRN'' then ansi_yellow
      else if level = ''ERR'' \<or> level = ''FTL'' then ansi_red
      else ansi_reset)"

text \<open>The loop that looks for the closing bracket.\<close>

function find_bracket :: "string \<Rightarrow> nat \<Rightarrow> nat option" where
  "find_bracket p i =
     (if i < length p then (if p ! i = CHR '']'' then Some i else find_bracket p (Suc i)) else None)"
  by pat_completeness auto
termination
  by (relation "measure (\<lambda>(p, i). length p - i)") auto

declare find_bracket.simps [simp del]

definition parseLevel :: "string \<Rightarrow> string \<times> string" where
  "parseLevel p =
     (if length p < 6 \<or> p ! 0 \<noteq> CHR ''['' then ([], p)
      else case find_bracket p 1 of
        None \<Rightarrow> ([], p)
      | Some e \<Rightarrow> if e + 2 \<ge> length p then ([], p) else (take (e - 1) (drop 1 p), drop (e + 2) p))"

section \<open>Writing\<close>

record colorWriter =
  cw_w :: stream
  cw_tag :: string

definition log_text :: "string \<Rightarrow> string \<Rightarrow> string \<Rightarrow> string \<Rightarrow> string" where
  "log_text ts tag level msg =
     ansi_dim @ ts @ ansi_reset @
     (if tag \<noteq> [] then '' ['' @ ansi_dim @ tag @ ansi_reset @ '']'' else []) @
     '' '' @ colorForLevel level @ ''['' @ level @ '']'' @ ansi_reset @ '' '' @ msg"

text \<open>\<^verbatim>\<open>Write\<close> ignores the error of \<^verbatim>\<open>Fprintf\<close> and reports all bytes as written.\<close>

definition colorWriter_Write :: "string \<Rightarrow> string \<Rightarrow> (colorWriter, io_err, nat) io" where
  "colorWriter_Write ts p cw =
     (case parseLevel p of (level, msg) \<Rightarrow>
       (Ok (length p),
        cw\<lparr>cw_w := snd (stream_Write (bytes_of_string (log_text ts (cw_tag cw) level msg)) (cw_w cw))\<rparr>))"

definition NewLogger :: "stream \<Rightarrow> string \<Rightarrow> colorWriter" where
  "NewLogger stderr tag = \<lparr>cw_w = stderr, cw_tag = tag\<rparr>"

text \<open>\<^verbatim>\<open>log.Logger\<close> without prefix and flags: it ends the message with a newline unless it has one.\<close>

definition log_line :: "string \<Rightarrow> string" where
  "log_line s = (if s = [] \<or> last s \<noteq> CHR 0x0A then s @ [CHR 0x0A] else s)"

definition log_Printf :: "string \<Rightarrow> string \<Rightarrow> colorWriter \<Rightarrow> colorWriter" where
  "log_Printf ts s cw = snd (colorWriter_Write ts (log_line s) cw)"

definition logf :: "string \<Rightarrow> string \<Rightarrow> string \<Rightarrow> colorWriter option \<Rightarrow> colorWriter option" where
  "logf ts level msg lg =
     (case lg of None \<Rightarrow> None | Some cw \<Rightarrow> Some (log_Printf ts (''['' @ level @ ''] '' @ msg) cw))"

section \<open>Properties\<close>

lemma find_bracket_Some_iff:
  "find_bracket p i = Some j \<longleftrightarrow>
     i \<le> j \<and> j < length p \<and> p ! j = CHR '']'' \<and> (\<forall>k. i \<le> k \<and> k < j \<longrightarrow> p ! k \<noteq> CHR '']'')"
proof (induction p i rule: find_bracket.induct)
  case (1 p i)
  show ?case
  proof (cases "i < length p \<and> p ! i \<noteq> CHR '']''")
    case True
    then have "find_bracket p i = find_bracket p (Suc i)" by (simp add: find_bracket.simps [of p i])
    with 1 True show ?thesis by (auto simp: Suc_le_eq) (metis le_neq_implies_less)
  next
    case False
    then show ?thesis by (auto simp: find_bracket.simps [of p i] not_less)
  qed
qed

text \<open>A level line: a bracketed level, one more character, and a message.\<close>

definition level_line :: "string \<Rightarrow> string \<Rightarrow> char \<Rightarrow> string \<Rightarrow> bool" where
  "level_line p l c m \<longleftrightarrow>
     p = CHR ''['' # l @ CHR '']'' # c # m \<and> CHR '']'' \<notin> set l \<and> m \<noteq> [] \<and> 6 \<le> length p"

lemma find_bracket_level:
  assumes "CHR '']'' \<notin> set l"
  shows "find_bracket (CHR ''['' # l @ CHR '']'' # r) (Suc 0) = Some (Suc (length l))"
  using assms by (auto simp: find_bracket_Some_iff nth_append nth_Cons' in_set_conv_nth)

lemma parseLevel_level: "level_line p l c m \<Longrightarrow> parseLevel p = (l, m)"
  by (auto simp: level_line_def parseLevel_def find_bracket_level)

lemma parseLevel_other:
  assumes "\<nexists>l c m. level_line p l c m"
  shows "parseLevel p = ([], p)"
proof (rule ccontr)
  assume neq: "parseLevel p \<noteq> ([], p)"
  then obtain e where e: "6 \<le> length p" "p ! 0 = CHR ''[''" "find_bracket p 1 = Some e" "e + 2 < length p"
    by (auto simp: parseLevel_def not_less not_le split: if_splits option.splits)
  have b: "1 \<le> e" "e < length p" "p ! e = CHR '']''" "\<forall>k. 1 \<le> k \<and> k < e \<longrightarrow> p ! k \<noteq> CHR '']''"
    using e(3) by (simp_all add: find_bracket_Some_iff)
  let ?l = "take (e - 1) (drop 1 p)"
  have "p = take 1 p @ ?l @ drop e p"
    using b(1) by (metis append_take_drop_id add_diff_cancel_left' drop_drop le_add_diff_inverse2 take_add)
  moreover have "take 1 p = [CHR ''['']" using e(1,2) by (cases p) auto
  moreover have "drop e p = CHR '']'' # p ! Suc e # drop (e + 2) p"
    using b(2,3) e(4) by (metis Cons_nth_drop_Suc Suc_lessD add_2_eq_Suc')
  ultimately have "p = CHR ''['' # ?l @ CHR '']'' # p ! Suc e # drop (e + 2) p" by simp
  moreover have "CHR '']'' \<notin> set ?l"
    using b(1,2,4) by (auto simp: in_set_conv_nth)
  ultimately have "level_line p ?l (p ! Suc e) (drop (e + 2) p)"
    using e(1,4) by (simp add: level_line_def)
  with assms show False by blast
qed

lemma log_line_append: "s \<noteq> [] \<Longrightarrow> last s \<noteq> CHR 0x0A \<Longrightarrow> log_line (s @ m) = s @ log_line m"
  by (auto simp: log_line_def last_append)

lemma log_line_not_Nil [simp]: "log_line s \<noteq> []"
  by (simp add: log_line_def)

text \<open>
  Every line the server logs is shown whole and under its level. For each level of \<^verbatim>\<open>logf\<close> and
  every message, brackets and newlines in it included, what reaches the terminal is the time,
  the tag if there is one, the level in its colour, and the whole message, ended by a newline;
  without a logger nothing is written.
\<close>

theorem logf_line:
  assumes "level \<in> {LevelInfo, LevelWarn, LevelError}" and "\<not> sclosed (cw_w cw)" and "sroom (cw_w cw) = None"
  shows "logf ts level msg (Some cw) =
      Some (cw\<lparr>cw_w := (cw_w cw)\<lparr>sout := sout (cw_w cw) @
        bytes_of_string (log_text ts (cw_tag cw) level (log_line msg))\<rparr>\<rparr>) \<and>
    colorForLevel level =
      (if level = LevelInfo then ansi_blue else if level = LevelWarn then ansi_yellow else ansi_red) \<and>
    logf ts level msg None = None"
proof -
  have l: "length level = 3" "CHR '']'' \<notin> set level" "level \<noteq> []"
    using assms(1) by (auto simp: level_defs)
  have "log_line (''['' @ level @ ''] '' @ msg) = ''['' @ level @ ''] '' @ log_line msg"
    using log_line_append [of "''['' @ level @ ''] ''" msg] by simp
  moreover have "level_line (''['' @ level @ ''] '' @ log_line msg) level (CHR '' '') (log_line msg)"
    using l by (simp add: level_line_def)
  ultimately have "parseLevel (log_line (''['' @ level @ ''] '' @ msg)) = (level, log_line msg)"
    using parseLevel_level by metis
  then have "logf ts level msg (Some cw) =
      Some (cw\<lparr>cw_w := (cw_w cw)\<lparr>sout := sout (cw_w cw) @
        bytes_of_string (log_text ts (cw_tag cw) level (log_line msg))\<rparr>\<rparr>)"
    by (simp add: logf_def log_Printf_def colorWriter_Write_def stream_Write_open assms(2,3))
  then show ?thesis using assms(1) by (auto simp: logf_def colorForLevel_def level_defs)
qed

theorem logf_line_witness:
  "logf ''21:30:01'' LevelWarn ''accept: [eof]'' (Some (NewLogger (stream_of []) ''chat'')) =
     Some (NewLogger ((stream_of [])\<lparr>sout := bytes_of_string
       (log_text ''21:30:01'' ''chat'' ''WRN'' (''accept: [eof]'' @ [CHR 0x0A]))\<rparr>) ''chat'')"
  using logf_line [of LevelWarn "NewLogger (stream_of []) ''chat''" "''21:30:01''" "''accept: [eof]''"]
  by (simp add: NewLogger_def stream_of_def level_defs log_line_def)

text \<open>
  What counts as a level is exact: \<^verbatim>\<open>parseLevel\<close> splits a line of at least six bytes that starts
  with a bracketed level, followed by one byte, whatever it is, and a message that is not empty,
  into level and message; every other line keeps its text and has no level. So the byte after
  the bracket is lost even where it belongs to the message.
\<close>

lemma parseLevel_exact:
  "(\<exists>l c m. level_line p l c m \<and> parseLevel p = (l, m)) \<or>
   ((\<nexists>l c m. level_line p l c m) \<and> parseLevel p = ([], p))"
  using parseLevel_level parseLevel_other by blast

end
