(* ===== verification/Server_Run.thy ===== *)
theory Server_Run
  imports Server_Handlers Session_Negotiate Transport Logger
begin

text \<open>
  The server, \<^verbatim>\<open>src/server/server.go\<close>: construction, registration of handlers behind the
  middleware chain, and what it does with a QUIC stream and with a TCP connection. The mutable
  state is the world of the handlers together with the stream being served. A connection that
  waits for a request lets the rest of the program run: the parameter \<open>env\<close> is what that does
  to the world meanwhile (time passes, other connections are served). The calls of \<^verbatim>\<open>logf\<close> are left
  out (\<open>Logger\<close> has the function itself), except that evaluating their arguments can panic.
\<close>

section \<open>Construction and registration\<close>

record 'a Server =
  srv_handlers :: "(u16, 'a handler) gomap"
  middlewares :: "'a Middleware list"
  streamMiddlewares :: "'a Middleware list"
  keyStore :: "(string \<Rightarrow> bytes option) option"
  serverPriv :: bytes
  tlsConf :: "tls_config option"
  mediaURL :: "SessionStore MediaURLBuilder option"
  sessionCfg :: SessionConfig
  srv_logger :: "colorWriter option"

type_synonym 'a Option = "'a Server \<times> 'a world \<Rightarrow> 'a Server \<times> 'a world"

definition WithTLSConfig :: "tls_config option \<Rightarrow> 'a Option" where
  "WithTLSConfig cfg sw = (case sw of (srv, w) \<Rightarrow> (srv\<lparr>tlsConf := cfg\<rparr>, w))"

definition WithMediaSupport :: "string \<Rightarrow> 'a Option" where
  "WithMediaSupport baseURL sw = (case sw of (srv, w) \<Rightarrow>
     let ts = NewTokenStore (Some (\<lambda>sessions sid. ss_Get sessions sid \<noteq> None)) in
     (srv\<lparr>mediaURL := Some (NewMediaURLBuilder baseURL (Some ts))\<rparr>, w\<lparr>w_media := Some ts\<rparr>))"

definition WithSessionConfig :: "SessionConfig \<Rightarrow> 'a Option" where
  "WithSessionConfig cfg sw = (case sw of (srv, w) \<Rightarrow> (srv\<lparr>sessionCfg := cfg\<rparr>, w))"

definition WithLogger :: "colorWriter option \<Rightarrow> 'a Option" where
  "WithLogger l sw = (case sw of (srv, w) \<Rightarrow> (srv\<lparr>srv_logger := l\<rparr>, w))"

definition zero_config :: SessionConfig where
  "zero_config = \<lparr>IdleTimeout = 0, MaxLifetime = 0, GCInterval = 0\<rparr>"

datatype server_err = SrvKeyPair sess_err | SrvNoMedia | SrvMedia media_err | SrvNoTLS | SrvListen transport_err

definition NewServer ::
    "crypto \<Rightarrow> (string \<Rightarrow> bytes option) option \<Rightarrow> 'a Option list \<Rightarrow> ('a world, server_err, 'a Server) io" where
  "NewServer C ks opts w =
     (let ks = (case ks of None \<Rightarrow> Some (MapKeyStore_Get []) | Some f \<Rightarrow> Some f) in
      case GenerateKeyPair C (w_rnd w) of
        (Err e, rnd) \<Rightarrow> (Err (SrvKeyPair e), w\<lparr>w_rnd := rnd\<rparr>)
      | (Panic p, rnd) \<Rightarrow> (Panic p, w\<lparr>w_rnd := rnd\<rparr>)
      | (Ok priv, rnd) \<Rightarrow>
          (let srv = \<lparr>srv_handlers = [], middlewares = [], streamMiddlewares = [], keyStore = ks,
                      serverPriv = priv, tlsConf = None, mediaURL = None, sessionCfg = zero_config, srv_logger = None\<rparr>;
               w = w\<lparr>w_rnd := rnd, w_sessions := NewSessionStore zero_config, w_nextID := 0, w_media := None\<rparr>;
               (srv, w) = fold (\<lambda>opt. opt) opts (srv, w);
               w = w\<lparr>w_sessions := NewSessionStore (sessionCfg srv)\<rparr>
           in (Ok (srv\<lparr>sessionCfg := ss_Config (w_sessions w)\<rparr>), w)))"

definition Use :: "'a Middleware \<Rightarrow> 'a Server \<Rightarrow> 'a Server" where
  "Use mw srv = srv\<lparr>middlewares := middlewares srv @ [mw]\<rparr>"

definition UseStream :: "'a Middleware \<Rightarrow> 'a Server \<Rightarrow> 'a Server" where
  "UseStream mw srv = srv\<lparr>streamMiddlewares := streamMiddlewares srv @ [mw]\<rparr>"

text \<open>The loop \<^verbatim>\<open>for i := len(mws)-1; i >= 0; i--\<close>; the second argument is \<open>i + 1\<close>.\<close>

fun wrap_loop :: "'a Middleware list \<Rightarrow> nat \<Rightarrow> 'a handler \<Rightarrow> 'a handler" where
  "wrap_loop mws 0 h = h"
| "wrap_loop mws (Suc i) h = wrap_loop mws i ((mws ! i) h)"

definition Handle :: "u16 \<Rightarrow> 'a handler \<Rightarrow> 'a Server \<Rightarrow> 'a Server" where
  "Handle opcode h srv =
     srv\<lparr>srv_handlers := gm_set opcode (wrap_loop (middlewares srv) (length (middlewares srv)) h) (srv_handlers srv)\<rparr>"

definition HandleFunc :: "u16 \<Rightarrow> 'a hfun \<Rightarrow> 'a Server \<Rightarrow> 'a Server" where
  "HandleFunc opcode fn srv =
     srv\<lparr>srv_handlers := gm_set opcode
       (wrap_loop (middlewares srv) (length (middlewares srv)) (HandlerFunc fn)) (srv_handlers srv)\<rparr>"

definition HandleStream :: "u16 \<Rightarrow> 'a handler \<Rightarrow> 'a Server \<Rightarrow> 'a Server" where
  "HandleStream opcode h srv =
     srv\<lparr>srv_handlers := gm_set opcode
       (wrap_loop (streamMiddlewares srv) (length (streamMiddlewares srv)) h) (srv_handlers srv)\<rparr>"

definition HandleStreamFunc :: "u16 \<Rightarrow> 'a sfun \<Rightarrow> 'a Server \<Rightarrow> 'a Server" where
  "HandleStreamFunc opcode fn srv =
     srv\<lparr>srv_handlers := gm_set opcode
       (wrap_loop (streamMiddlewares srv) (length (streamMiddlewares srv)) (StreamHandlerFunc fn)) (srv_handlers srv)\<rparr>"

definition IssueMediaToken :: "u64 \<Rightarrow> string \<Rightarrow> ('a world, server_err, Token) io" where
  "IssueMediaToken sessionID trackID w =
     (case w_media w of
        None \<Rightarrow> (Err SrvNoMedia, w)
      | Some ts \<Rightarrow>
          (case Issue (w_now w) sessionID trackID (w_rnd w, ts) of
             (r, (rnd, ts)) \<Rightarrow> (map_err SrvMedia r, w\<lparr>w_rnd := rnd, w_media := Some ts\<rparr>)))"

section \<open>Answering\<close>

type_synonym 'a conn = "'a world \<times> stream"

text \<open>\<^verbatim>\<open>frame.WriteResponse(stream, key, seq, resp)\<close> with the program's random source.\<close>

definition srv_write :: "crypto \<Rightarrow> bytes option \<Rightarrow> u32 \<Rightarrow> Response \<Rightarrow> ('a conn, frame_err, unit) io" where
  "srv_write C key seq resp ws =
     (case ws of (w, s) \<Rightarrow>
      case WriteResponse C key seq resp (w_rnd w, s) of
        (r, (rnd, s)) \<Rightarrow> (r, (w\<lparr>w_rnd := rnd\<rparr>, s)))"

text \<open>A call whose error is ignored (or only logged).\<close>

definition ignore_err :: "('e, 'b) result \<times> 's \<Rightarrow> ('f, unit) result \<times> 's" where
  "ignore_err rs = (case rs of (Panic p, s) \<Rightarrow> (Panic p, s) | (r, s) \<Rightarrow> (Ok (), s))"

definition close_conn :: "('a conn, 'e, unit) io" where
  "close_conn ws = (case ws of (w, s) \<Rightarrow> (Ok (), (w, stream_Close s)))"

definition resp_expired :: Response where
  "resp_expired = \<lparr>Status = StatusSessionExpired, RespPayload = None, Seq = 0\<rparr>"

definition resp_error :: "byte \<Rightarrow> string \<Rightarrow> Response" where
  "resp_error code msg =
     \<lparr>Status = code, RespPayload = Some (map_set NewMap ''error'' (VString msg)), Seq = 0\<rparr>"

definition resp_not_found :: "u16 \<Rightarrow> Response" where
  "resp_not_found op =
     \<lparr>Status = StatusNotFound, RespPayload = Some (map_set NewMap ''opcode'' (VUint16 op)), Seq = 0\<rparr>"

definition skey :: "'a world \<Rightarrow> sptr \<Rightarrow> bytes option" where
  "skey w p = Key (w_heap w ! p)"

definition session_dead :: "'a world \<Rightarrow> sptr \<Rightarrow> bool" where
  "session_dead w p \<longleftrightarrow> IsExpired (w_now w) (w_sessions w) (w_heap w ! p) \<or>
     IsIdleDead (w_now w) (w_sessions w) (w_heap w ! p)"

definition session_ctx :: "ctx \<Rightarrow> Session \<Rightarrow> string \<Rightarrow> ctx" where
  "session_ctx c sess remoteAddr =
     (let c = WithValue c ctxSessionID (CtxUint64 (ID sess));
          c = WithValue c ctxAPIKeyID (CtxString (APIKeyID sess))
      in if remoteAddr \<noteq> [] then WithValue c ctxRemoteAddr (CtxString remoteAddr) else c)"

definition srv_request :: "Session \<Rightarrow> Request \<Rightarrow> SrvRequest" where
  "srv_request sess req = \<lparr>SrvReq = req, SrvSessionID = ID sess, SrvAPIKeyID = APIKeyID sess\<rparr>"

definition touch_at :: "sptr \<Rightarrow> 'a world \<Rightarrow> 'a world" where
  "touch_at p w = w\<lparr>w_heap := Touch (w_now w) p (w_heap w)\<rparr>"

section \<open>A QUIC stream\<close>

text \<open>\<^verbatim>\<open>handleStream\<close> without its deferred recovery. \<open>c\<close> is the context it was called with, from
  which both the handler's context and the stream context (without values) derive.\<close>

definition handleStream_body ::
    "crypto \<Rightarrow> 'a Server \<Rightarrow> ('a world \<Rightarrow> 'a world) \<Rightarrow> ctx \<Rightarrow> sptr \<Rightarrow> string \<Rightarrow> ('a conn, handler_err, unit) io" where
  "handleStream_body C srv env c p remoteAddr ws =
     (case ws of (w, s) \<Rightarrow>
      if session_dead w p then
        sbind (ignore_err (srv_write C (skey w p) 0 resp_expired (w, s))) (\<lambda>_. close_conn)
      else
        let w = touch_at p w in
        case ReadRequest C (skey w p) s of
          (Panic q, s) \<Rightarrow> (Panic q, (env w, s))
        | (Err e, s) \<Rightarrow>
            let w = env w in
            sbind (ignore_err (srv_write C (skey w p) 0 (resp_error StatusBadRequest ''bad request'') (w, s)))
              (\<lambda>_. close_conn)
        | (Ok (req, seq), s) \<Rightarrow>
            let w = env w in
            (case gm_get (srv_handlers srv) (Opcode req) of
               None \<Rightarrow>
                 sbind (ignore_err (srv_write C (skey w p) seq (resp_not_found (Opcode req)) (w, s)))
                   (\<lambda>_. close_conn)
             | Some handler \<Rightarrow>
                 let sess = w_heap w ! p; hc = session_ctx c sess remoteAddr; srvReq = srv_request sess req in
                 (case HandleHushStream handler of
                    Some stream_fn \<Rightarrow>
                      sbind (ignore_err (stream_fn c srvReq (skey w p) (w, s))) (\<lambda>_. close_conn)
                  | None \<Rightarrow>
                      (case HandleHush handler hc srvReq w of
                         (Panic q, w) \<Rightarrow> (Panic q, (w, s))
                       | (Err e, w) \<Rightarrow>
                           sbind (ignore_err (srv_write C (skey w p) seq
                               (resp_error StatusInternalError ''internal error'') (w, s)))
                             (\<lambda>_. close_conn)
                       | (Ok None, w) \<Rightarrow> (Panic PanicNilDeref, (w, s))
                       | (Ok (Some resp), w) \<Rightarrow>
                           sbind (ignore_err (srv_write C (skey w p) seq resp (w, s))) (\<lambda>_. close_conn)))))"

definition handleStream ::
    "crypto \<Rightarrow> 'a Server \<Rightarrow> ('a world \<Rightarrow> 'a world) \<Rightarrow> ctx \<Rightarrow> sptr \<Rightarrow> string \<Rightarrow> ('a conn, handler_err, unit) io" where
  "handleStream C srv env c p remoteAddr ws =
     (case handleStream_body C srv env c p remoteAddr ws of
        (Panic q, (w, s)) \<Rightarrow>
          ignore_err (srv_write C (skey w p) 0
            (resp_error StatusInternalError ''internal server error'') (w, s))
      | r \<Rightarrow> r)"

section \<open>A TCP connection\<close>

text \<open>
  One turn of the loop of \<^verbatim>\<open>handleTCPConnection\<close>: \<open>Inl\<close> when it returns or panics, \<open>Inr\<close>
  with the context and state of the next turn otherwise. \<open>sc\<close> is the stream context made
  before the loop, \<open>c\<close> the context variable that every turn extends, \<open>fin\<close> tells whether the
  stream context is done.
\<close>

type_synonym 'a turn = "((handler_err, unit) result \<times> 'a conn) + (ctx \<times> 'a conn)"

definition next_turn :: "ctx \<Rightarrow> (handler_err, unit) result \<times> 'a conn \<Rightarrow> 'a turn" where
  "next_turn c r = (case r of (Panic q, ws) \<Rightarrow> Inl (Panic q, ws) | (_, ws) \<Rightarrow> Inr (c, ws))"

definition tcp_turn ::
    "crypto \<Rightarrow> 'a Server \<Rightarrow> ('a world \<Rightarrow> 'a world) \<Rightarrow> ('a world \<Rightarrow> bool) \<Rightarrow> ctx \<Rightarrow> sptr \<Rightarrow> string \<Rightarrow> ctx \<Rightarrow> 'a conn \<Rightarrow> 'a turn" where
  "tcp_turn C srv env fin sc p remoteAddr c ws =
     (case ws of (w, s) \<Rightarrow>
      if fin w then Inl (Ok (), (w, s))
      else if session_dead w p then
        Inl (sbind (ignore_err (srv_write C (skey w p) 0 resp_expired (w, s))) (\<lambda>_. close_conn))
      else
        let w = touch_at p w in
        case ReadRequest C (skey w p) s of
          (Panic q, s) \<Rightarrow> Inl (Panic q, (env w, s))
        | (Err e, s) \<Rightarrow> Inl (Ok (), (env w, s))
        | (Ok (req, seq), s) \<Rightarrow>
            let w = env w; sess = w_heap w ! p; c = session_ctx c sess remoteAddr in
            (case gm_get (srv_handlers srv) (Opcode req) of
               None \<Rightarrow>
                 next_turn c (ignore_err (srv_write C (skey w p) seq (resp_not_found (Opcode req)) (w, s)))
             | Some handler \<Rightarrow>
                 let srvReq = srv_request sess req in
                 (case HandleHushStream handler of
                    Some stream_fn \<Rightarrow> next_turn c (ignore_err (stream_fn sc srvReq (skey w p) (w, s)))
                  | None \<Rightarrow>
                      (case HandleHush handler c srvReq w of
                         (Panic q, w) \<Rightarrow> Inl (Panic q, (w, s))
                       | (Err e, w) \<Rightarrow>
                           next_turn c (ignore_err (srv_write C (skey w p) seq
                             (resp_error StatusInternalError ''internal error'') (w, s)))
                       | (Ok None, w) \<Rightarrow> Inl (Panic PanicNilDeref, (w, s))
                       | (Ok (Some resp), w) \<Rightarrow>
                           (case srv_write C (skey w p) seq resp (w, s) of
                              (Ok _, ws) \<Rightarrow> Inr (c, ws)
                            | (Err e, ws) \<Rightarrow> Inl (Ok (), ws)
                            | (Panic q, ws) \<Rightarrow> Inl (Panic q, ws))))))"

partial_function (option) tcp_loop ::
    "crypto \<Rightarrow> 'a Server \<Rightarrow> ('a world \<Rightarrow> 'a world) \<Rightarrow> ('a world \<Rightarrow> bool) \<Rightarrow> ctx \<Rightarrow> sptr \<Rightarrow> string \<Rightarrow> ctx \<Rightarrow> 'a conn \<Rightarrow>
     ((handler_err, unit) result \<times> 'a conn) option" where
  "tcp_loop C srv env fin sc p remoteAddr c ws =
     (case tcp_turn C srv env fin sc p remoteAddr c ws of
        Inl r \<Rightarrow> Some r
      | Inr (c, ws) \<Rightarrow> tcp_loop C srv env fin sc p remoteAddr c ws)"

text \<open>\<^verbatim>\<open>func() uint64 { return s.nextID.Add(1) }\<close>\<close>

definition nextSessionID :: "u64 \<Rightarrow> u64 \<times> u64" where
  "nextSessionID n = (n + 1, n + 1)"

text \<open>Negotiation, and what both kinds of connection do with its result: file the session.\<close>

definition establish :: "crypto \<Rightarrow> 'a Server \<Rightarrow> 'a conn \<Rightarrow> (sess_err, sptr) result \<times> 'a conn" where
  "establish C srv ws =
     (case ws of (w, s) \<Rightarrow>
      case NegotiateServer C (w_now w) (serverPriv srv) (keyStore srv) nextSessionID (w_nextID w, s) of
        (Ok sess, (n, s)) \<Rightarrow>
          (let (p, H) = alloc sess (w_heap w)
           in (Ok p, (w\<lparr>w_nextID := n, w_heap := H, w_sessions := ss_Set H p (w_sessions w)\<rparr>, s)))
      | (Err e, (n, s)) \<Rightarrow> (Err e, (w\<lparr>w_nextID := n\<rparr>, s))
      | (Panic q, (n, s)) \<Rightarrow> (Panic q, (w\<lparr>w_nextID := n\<rparr>, s)))"

definition drop_session :: "u64 \<Rightarrow> 'a world \<Rightarrow> 'a world" where
  "drop_session i w = w\<lparr>w_sessions := ss_Delete i (w_sessions w)\<rparr>"

text \<open>\<^verbatim>\<open>handleTCPConnection\<close>; \<open>isTLS\<close> is the type assertion on the connection. The deferred
  \<^verbatim>\<open>Delete\<close> also runs when the loop panics.\<close>

definition handleTCPConnection ::
    "crypto \<Rightarrow> 'a Server \<Rightarrow> ('a world \<Rightarrow> 'a world) \<Rightarrow> ('a world \<Rightarrow> bool) \<Rightarrow> ctx \<Rightarrow> string \<Rightarrow> bool \<Rightarrow> 'a conn \<Rightarrow>
     ((handler_err, unit) result \<times> 'a conn) option" where
  "handleTCPConnection C srv env fin c remoteAddr isTLS ws =
     (if \<not> isTLS then Some (close_conn ws)
      else case establish C srv ws of
        (Err e, ws) \<Rightarrow> Some (close_conn ws)
      | (Panic q, ws) \<Rightarrow> Some (Panic q, ws)
      | (Ok p, (w, s)) \<Rightarrow>
          (let i = ID (w_heap w ! p) in
           map_option (\<lambda>(r, (w, s)). (r, (drop_session i w, s)))
             (tcp_loop C srv env fin c p remoteAddr c (w, s))))"

section \<open>A QUIC connection\<close>

text \<open>
  \<^verbatim>\<open>handleConnection\<close>: the first stream carries the handshake and is closed; the others carry
  one request each and are served by a goroutine each. This function serves them one after the
  other, in the order of the list, each as one step; the list ends when accepting fails. The
  theory \<open>Server_Conn\<close> has the goroutines interleaved, and this as one of their schedules.
\<close>

fun serve_streams ::
    "crypto \<Rightarrow> 'a Server \<Rightarrow> ('a world \<Rightarrow> 'a world) \<Rightarrow> ctx \<Rightarrow> sptr \<Rightarrow> string \<Rightarrow> stream list \<Rightarrow> 'a world \<Rightarrow>
     (handler_err, unit) result \<times> stream list \<times> 'a world" where
  "serve_streams C srv env c p remoteAddr [] w = (Ok (), [], w)"
| "serve_streams C srv env c p remoteAddr (s # ss) w =
     (case handleStream C srv env c p remoteAddr (w, s) of
        (Panic q, (w, s)) \<Rightarrow> (Panic q, s # ss, w)
      | (_, (w, s)) \<Rightarrow>
          (case serve_streams C srv env c p remoteAddr ss w of (r, ss, w) \<Rightarrow> (r, s # ss, w)))"

definition handleConnection ::
    "crypto \<Rightarrow> 'a Server \<Rightarrow> ('a world \<Rightarrow> 'a world) \<Rightarrow> ctx \<Rightarrow> string \<Rightarrow> stream list \<Rightarrow> 'a world \<Rightarrow>
     (handler_err, unit) result \<times> stream list \<times> 'a world" where
  "handleConnection C srv env c remoteAddr streams w =
     (case streams of
        [] \<Rightarrow> (Ok (), [], w)
      | s # ss \<Rightarrow>
          (case establish C srv (w, s) of
             (Err e, (w, s)) \<Rightarrow> (Ok (), stream_Close s # ss, w)
           | (Panic q, (w, s)) \<Rightarrow> (Panic q, s # ss, w)
           | (Ok p, (w, s)) \<Rightarrow>
               (let i = ID (w_heap w ! p) in
                case serve_streams C srv env c p remoteAddr ss w of
                  (r, ss, w) \<Rightarrow> (r, stream_Close s # ss, drop_session i w))))"

text \<open>The accessors of the server's stores.\<close>

definition srv_SessionStore :: "'a world \<Rightarrow> SessionStore" where
  "srv_SessionStore w = w_sessions w"

definition srv_MediaTokenStore :: "'a world \<Rightarrow> SessionStore TokenStore option" where
  "srv_MediaTokenStore w = w_media w"

text \<open>One tick of \<^verbatim>\<open>gcLoop\<close>.\<close>

definition gc_tick :: "'a world \<Rightarrow> 'a world" where
  "gc_tick w = w\<lparr>w_sessions := ss_GC (w_now w) (w_heap w) (w_sessions w)\<rparr>"

end
