(* ===== verification/Server_Props.thy ===== *)
theory Server_Props
  imports Server_Run
begin

text \<open>
  What the server guarantees: the order of the middleware, that a QUIC stream is always
  answered with at most one frame and never takes the process down, that the TCP loop ends, what
  takes the process down on TCP, and that sessions and their media tokens end with the
  connection.
\<close>

section \<open>Registration\<close>

lemma wrap_loop_foldr: "n \<le> length mws \<Longrightarrow> wrap_loop mws n h = foldr (\<lambda>mw. mw) (take n mws) h"
  by (induction n arbitrary: h) (simp_all add: take_Suc_conv_app_nth)

lemma middlewares_fold_Use: "middlewares (fold Use mws srv) = middlewares srv @ mws"
  by (induction mws arbitrary: srv) (simp_all add: Use_def)

lemma handlers_fold_Use: "srv_handlers (fold Use mws srv) = srv_handlers srv"
  by (induction mws arbitrary: srv) (simp_all add: Use_def)

text \<open>
  Middleware applies in the order of the \<^verbatim>\<open>Use\<close> calls: a handler registered after
  \<^verbatim>\<open>Use(m1)\<close> to \<^verbatim>\<open>Use(mn)\<close> is stored wrapped as \<open>m1 (m2 (\<dots> (mn h)))\<close>, the first one
  outermost; handlers of other opcodes, and all handlers on a later \<^verbatim>\<open>Use\<close>, are left as they
  were. With a built-in middleware in force, a streaming handler registered through
  \<^verbatim>\<open>Handle\<close> is no longer one.
\<close>

theorem handle_wraps_in_order:
  assumes "middlewares srv = []"
  shows "gm_get (srv_handlers (Handle op h (fold Use mws srv))) op = Some (foldr (\<lambda>mw. mw) mws h) \<and>
    (\<forall>op'. op' \<noteq> op \<longrightarrow>
       gm_get (srv_handlers (Handle op h (fold Use mws srv))) op' = gm_get (srv_handlers srv) op') \<and>
    (\<forall>more. srv_handlers (fold Use more (Handle op h srv)) = srv_handlers (Handle op h srv)) \<and>
    (mws \<noteq> [] \<and> builtin_mw (hd mws) \<longrightarrow>
       HandleHushStream (the (gm_get (srv_handlers (Handle op h (fold Use mws srv))) op)) = None)"
proof -
  have r: "gm_get (srv_handlers (Handle op h (fold Use mws srv))) op = Some (foldr (\<lambda>mw. mw) mws h)"
    using assms wrap_loop_foldr [of "length mws" mws h] by (simp add: Handle_def middlewares_fold_Use)
  moreover have "HandleHushStream (foldr (\<lambda>mw. mw) mws h) = None" if "mws \<noteq> []" "builtin_mw (hd mws)"
    using that by (cases mws) (simp_all add: builtin_mw_plain)
  ultimately show ?thesis
    by (simp add: Handle_def middlewares_fold_Use handlers_fold_Use gm.get_put)
qed

section \<open>Writing responses\<close>

lemma EncodeResponse_panic_iff:
  "fst (EncodeResponse C key seq resp rnd) = Panic q \<longleftrightarrow>
    (\<exists>m. RespPayload resp = Some m \<and> MustEncodeMap (Some m) = Panic q)"
proof -
  have e: "fst (swrap FrmEncrypt (Encrypt C k d r)) \<noteq> Panic q" for k d r
    by (metis Encrypt_no_panic fst_conv map_err_eq_Panic_iff prod.collapse swrap_def)
  show ?thesis
  proof (cases "RespPayload resp")
    case None
    then show ?thesis by (simp add: EncodeResponse_def e split: option.split)
  next
    case (Some m)
    then show ?thesis
      by (cases "MustEncodeMap (Some m)") (simp_all add: EncodeResponse_def e split: option.split)
  qed
qed

lemma EncodeResponse_no_panic:
  assumes "case RespPayload resp of None \<Rightarrow> True | Some m \<Rightarrow> wf_map m"
  shows "fst (EncodeResponse C key seq resp rnd) \<noteq> Panic q"
  using assms unfolding EncodeResponse_panic_iff
  by (auto simp: MustEncodeMap_def MustEncode_enc wf_map_def)

lemma srv_write_no_panic:
  assumes "case RespPayload resp of None \<Rightarrow> True | Some m \<Rightarrow> wf_map m"
  shows "fst (srv_write C key seq resp (w, s)) \<noteq> Panic q"
proof -
  obtain r rnd where e: "EncodeResponse C key seq resp (w_rnd w) = (r, rnd)" by fastforce
  with EncodeResponse_no_panic [OF assms, of C key seq "w_rnd w"] have "r \<noteq> Panic q" by auto
  moreover have "fst (Frame_Write seq d s) \<noteq> Panic q" for d
    by (simp add: Frame_Write_def Let_def swrap_def) (metis prod.collapse stream_Write_no_panic)
  ultimately show ?thesis
    using e by (cases r)
      (auto simp: srv_write_def WriteResponse_def write_encoded_def split: prod.splits dest: arg_cong [of _ _ fst])
qed

text \<open>A write on a stream without a bound appends one whole frame or nothing, and reads nothing.\<close>

lemma srv_write_stream:
  assumes "srv_write C key seq resp (w, s) = (r, (w', s'))" "sroom s = None"
  shows "sin s' = sin s \<and> sclosed s' = sclosed s \<and> sroom s' = sroom s \<and>
    (sout s' = sout s \<or> (\<exists>d. sout s' = sout s @ wire seq d \<and> 4 + length d \<le> MaxFrameSize))"
  using assms
  by (auto simp: srv_write_def WriteResponse_def write_encoded_def Frame_Write_def Let_def
      stream_Write_def wire_def split: prod.splits result.splits if_splits)

lemma srv_write_sin:
  assumes "srv_write C key seq resp (w, s) = (r, (w', s'))"
  shows "sin s' = sin s"
proof -
  have "sin (snd (Frame_Write seq d s)) = sin s" for d
    by (simp add: Frame_Write_def Let_def swrap_def)
  with assms show ?thesis
    by (auto simp: srv_write_def WriteResponse_def write_encoded_def split: prod.splits result.splits
        dest!: arg_cong [of _ _ snd])
qed

lemma error_payloads_wf:
  "wf_map (map_set NewMap k (VString v))" "wf_map (map_set NewMap k (VUint16 n))"
  by (simp_all add: wf_map_set)

lemma srv_write_own_no_panic:
  "fst (srv_write C key seq resp_expired ws) \<noteq> Panic q"
  "fst (srv_write C key seq (resp_error code msg) ws) \<noteq> Panic q"
  "fst (srv_write C key seq (resp_not_found op) ws) \<noteq> Panic q"
  by (cases ws; simp add: srv_write_no_panic resp_expired_def resp_error_def resp_not_found_def
      error_payloads_wf)+

lemma ignore_err_cases:
  "ignore_err rs = (case fst rs of Panic p \<Rightarrow> (Panic p, snd rs) | _ \<Rightarrow> (Ok (), snd rs))"
  by (cases rs) (simp add: ignore_err_def split: result.split)

lemma ReadRequest_fields:
  assumes "ReadRequest C key s = (r, s')"
  shows "sout s' = sout s \<and> sclosed s' = sclosed s \<and> sroom s' = sroom s"
  using assms
  by (auto simp: ReadRequest_def Frame_Read_def ReadFull_def Let_def split: if_splits)

lemma ReadRequest_shorter:
  assumes "ReadRequest C key s = (Ok (req, seq), s')"
  shows "length (sin s') < length (sin s)"
proof -
  obtain f where "Frame_Read s = (Ok f, s')"
    using assms by (auto simp: ReadRequest_def sbind_eq_Ok_iff)
  from Frame_Read_OkE [OF this] show ?thesis by simp
qed


section \<open>QUIC streams\<close>

definition one_frame :: "stream \<Rightarrow> stream \<Rightarrow> bool" where
  "one_frame s s' \<longleftrightarrow> sout s' = sout s \<or>
     (\<exists>seq d. sout s' = sout s @ wire seq d \<and> 4 + length d \<le> MaxFrameSize)"

definition plain_server :: "'a Server \<Rightarrow> bool" where
  "plain_server srv \<longleftrightarrow> (\<forall>op h. gm_get (srv_handlers srv) op = Some h \<longrightarrow> HandleHushStream h = None)"

lemma srv_write_panic_stream:
  "srv_write C key seq resp (w, s) = (Panic q, (w', s')) \<Longrightarrow> s' = s"
  by (auto simp: srv_write_def WriteResponse_def write_encoded_def Frame_Write_def Let_def swrap_def
      stream_Write_def split: prod.splits result.splits if_splits option.splits)

text \<open>What answering and closing can do to an open stream.\<close>

lemma answer_close:
  assumes "sbind (ignore_err (srv_write C key seq resp (w, s))) (\<lambda>_. close_conn) = (r, (w', s'))"
    "sroom s = None"
  shows "(r = Ok () \<and> one_frame s s') \<or> (\<exists>q. r = Panic q \<and> s' = s)"
proof -
  obtain r1 w1 s1 where a: "srv_write C key seq resp (w, s) = (r1, (w1, s1))" by (metis prod.exhaust)
  from assms(1) a srv_write_stream [OF a assms(2)] srv_write_panic_stream [of C key seq resp w s]
  show ?thesis
    by (cases r1) (auto simp: ignore_err_def close_conn_def stream_Close_def one_frame_def)
qed

lemma handleStream_body_frames:
  assumes "handleStream_body C srv env c p addr (w, s) = (r, (w', s'))"
    "plain_server srv" "sroom s = None"
  shows "(r = Ok () \<and> one_frame s s') \<or>
    (\<exists>q. r = Panic q \<and> sout s' = sout s \<and> sroom s' = None)"
proof (cases "session_dead w p")
  case True
  then show ?thesis
    using assms answer_close [of C _ _ _ w s r w' s'] by (auto simp: handleStream_body_def)
next
  case False
  let ?w = "touch_at p w"
  obtain rr s1 where rd: "ReadRequest C (skey ?w p) s = (rr, s1)" by fastforce
  have o: "sout s1 = sout s" "sroom s1 = None"
    using ReadRequest_fields [OF rd] assms(3) by simp_all
  have ans: ?thesis if "sbind (ignore_err (srv_write C key seq resp (w1, s1))) (\<lambda>_. close_conn) = (r, (w', s'))"
    for key seq resp w1
    using answer_close [OF that o(2)] o by (auto simp: one_frame_def)
  show ?thesis
  proof (cases rr)
    case (Ok x)
    obtain req seq where x: "x = (req, seq)" by fastforce
    show ?thesis
    proof (cases "gm_get (srv_handlers srv) (Opcode req)")
      case None
      with assms(1) False rd Ok x show ?thesis by (intro ans) (auto simp: handleStream_body_def Let_def)
    next
      case (Some h)
      then have "HandleHushStream h = None" using assms(2) by (simp add: plain_server_def)
      moreover obtain hr w1 where "HandleHush h (session_ctx c (w_heap (env ?w) ! p) addr)
          (srv_request (w_heap (env ?w) ! p) req) (env ?w) = (hr, w1)" by fastforce
      ultimately show ?thesis
        using assms(1) False rd Ok x Some o ans
        by (cases hr) (auto simp: handleStream_body_def Let_def split: option.splits)
    qed
  next
    case (Err e)
    with assms(1) False rd show ?thesis by (intro ans) (auto simp: handleStream_body_def Let_def)
  next
    case (Panic q)
    with assms(1) False rd o show ?thesis by (auto simp: handleStream_body_def Let_def)
  qed
qed

lemma sbind_close_not_Err: "sbind (ignore_err rs) (\<lambda>_. close_conn) \<noteq> (Err e, ws)"
  by (cases "fst rs") (auto simp: ignore_err_cases close_conn_def split: prod.splits)

lemma handleStream_body_not_Err: "handleStream_body C srv env c p addr (w, s) \<noteq> (Err e, ws)"
  by (auto simp: handleStream_body_def Let_def sbind_close_not_Err
      split: prod.splits result.splits option.splits)

lemma handleStream_returns:
  "fst (handleStream C srv env c p addr (w, s)) = Ok () \<and>
   (plain_server srv \<and> sroom s = None \<longrightarrow>
      one_frame s (snd (snd (handleStream C srv env c p addr (w, s)))))"
proof -
  obtain r w' s' where b: "handleStream_body C srv env c p addr (w, s) = (r, (w', s'))"
    by (metis prod.exhaust)
  have "\<forall>e. r \<noteq> Err e" using b handleStream_body_not_Err by metis
  then consider "r = Ok ()" | q where "r = Panic q" by (cases r) auto
  then show ?thesis
  proof cases
    case 1
    with b handleStream_body_frames [OF b] show ?thesis by (auto simp: handleStream_def)
  next
    case 2
    let ?resp = "resp_error StatusInternalError ''internal server error''"
    obtain r2 w2 s2 where wr: "srv_write C (skey w' p) 0 ?resp (w', s') = (r2, (w2, s2))"
      by (metis prod.exhaust)
    with srv_write_own_no_panic(2) have "\<forall>q. r2 \<noteq> Panic q" by (metis fst_conv)
    then have h: "handleStream C srv env c p addr (w, s) = (Ok (), (w2, s2))"
      using b 2 wr by (cases r2) (auto simp: handleStream_def ignore_err_def)
    moreover have "one_frame s s2" if "plain_server srv" "sroom s = None"
      using handleStream_body_frames [OF b that] srv_write_stream [OF wr] 2
      by (auto simp: one_frame_def)
    ultimately show ?thesis by simp
  qed
qed


text \<open>
  C13. Serving a QUIC stream is robust. Whatever bytes arrive on the stream and whatever the
  handlers do, panics included, \<^verbatim>\<open>handleStream\<close> returns normally: no panic escapes to take the
  process down. And when no streaming handler is involved, what the client gets on the stream
  is at most one frame, complete and within the size limit.
\<close>

theorem handleStream_robust:
  "fst (handleStream C srv env c p addr (w, s)) = Ok () \<and>
   (plain_server srv \<and> sroom s = None \<longrightarrow>
      one_frame s (snd (snd (handleStream C srv env c p addr (w, s)))))"
  by (rule handleStream_returns)

section \<open>The TCP loop\<close>

lemma next_turn_Inr:
  "next_turn c (ignore_err (srv_write C key seq resp (w, s))) = Inr (c', (w', s')) \<Longrightarrow> sin s' = sin s"
  using srv_write_sin [of C key seq resp w s]
  by (cases "srv_write C key seq resp (w, s)")
    (auto simp: next_turn_def ignore_err_def split: result.splits)

text \<open>Every turn that goes on has consumed a frame.\<close>

lemma tcp_turn_shorter:
  assumes "tcp_turn C srv env fin sc p addr c (w, s) = Inr (c', (w', s'))" "plain_server srv"
  shows "length (sin s') < length (sin s)"
proof -
  let ?w = "touch_at p w"
  have live: "\<not> fin w" "\<not> session_dead w p" using assms(1) by (auto simp: tcp_turn_def split: if_splits)
  then obtain req seq s1 where rd: "ReadRequest C (skey ?w p) s = (Ok (req, seq), s1)"
    using assms(1) by (auto simp: tcp_turn_def Let_def split: prod.splits result.splits)
  have "sin s' = sin s1"
  proof (cases "gm_get (srv_handlers srv) (Opcode req)")
    case None
    with assms(1) live rd show ?thesis by (auto simp: tcp_turn_def Let_def intro: next_turn_Inr)
  next
    case (Some h)
    then have h: "HandleHushStream h = None" using assms(2) by (simp add: plain_server_def)
    let ?sess = "w_heap (env ?w) ! p"
    obtain hr w1 where "HandleHush h (session_ctx c ?sess addr) (srv_request ?sess req) (env ?w) = (hr, w1)"
      by fastforce
    with assms(1) live rd Some h show ?thesis
      by (cases hr)
        (auto simp: tcp_turn_def Let_def intro: next_turn_Inr srv_write_sin
          split: option.splits prod.splits result.splits)
  qed
  with ReadRequest_shorter [OF rd] show ?thesis by simp
qed

text \<open>
  C19. The TCP loop ends. On a server without streaming handlers, whatever the client sent, the
  loop of \<^verbatim>\<open>handleTCPConnection\<close> comes to an end once the client stops sending: every turn
  that continues takes a frame off the stream, and a read at the end of the stream leaves the
  loop.
\<close>

theorem tcp_loop_terminates:
  assumes "plain_server srv"
  shows "\<exists>r. tcp_loop C srv env fin sc p addr c (w, s) = Some r"
proof (induction "length (sin s)" arbitrary: c w s rule: less_induct)
  case less
  show ?case
  proof (cases "tcp_turn C srv env fin sc p addr c (w, s)")
    case (Inl r)
    then show ?thesis
      by (simp add: tcp_loop.simps [of C srv env fin sc p addr c "(w, s)"] del: split_paired_Ex)
  next
    case (Inr b)
    obtain c' w' s' where b: "b = (c', (w', s'))" by (metis prod.exhaust)
    from less [OF tcp_turn_shorter [OF Inr [unfolded b] assms]] Inr b show ?thesis
      by (simp add: tcp_loop.simps [of C srv env fin sc p addr c "(w, s)"])
  qed
qed

section \<open>What takes the process down\<close>

text \<open>A request of 13 bytes whose payload declares a length of \<open>2\<^sup>64 - 1\<close>.\<close>

definition evil_request :: bytes where
  "evil_request = [0, 0] @ [0x0D] @ replicate 9 0xFF @ [0x01]"

lemma DecodeMap_evil: "DecodeMap (drop 2 evil_request) = Panic PanicSliceBounds"
proof -
  have uv: "uvarint (replicate 9 0xFF @ [0x01]) = (0xFFFFFFFFFFFFFFFF, 10)"
    by code_simp
  have e: "drop 2 evil_request = 0x0D # replicate 9 0xFF @ [0x01]"
    by (simp add: evil_request_def)
  have l: "length (0x0D # replicate 9 0xFF @ [0x01] :: bytes) = 11" by simp
  show ?thesis
    unfolding DecodeMap_def e DecodeBytes_def list.case uv prod.case l
    by (simp add: Let_def go_slice_def)
qed

lemma ReadRequest_evil:
  assumes "case key of None \<Rightarrow> d = evil_request
      | Some k \<Rightarrow> aead_laws C \<and> aes_key_ok k \<and> length n = NonceSize \<and> d = n @ gcm_Seal C k n evil_request []"
    and "sin s = wire seq d @ rest"
  shows "ReadRequest C key s = (Panic PanicSliceBounds, s\<lparr>sin := rest\<rparr>)"
proof -
  have "length evil_request = 13" by (simp add: evil_request_def)
  moreover from this have l: "4 + length d \<le> MaxFrameSize"
    using assms(1) Decrypt_seal(2) [of C _ n evil_request]
    by (auto simp: MaxFrameSize_def split: option.splits)
  moreover have dec: "(case key of None \<Rightarrow> Ok d | Some k \<Rightarrow> map_err FrmDecrypt (Decrypt C k d)) = Ok evil_request"
    using assms(1) Decrypt_seal(1) [of C _ n evil_request] by (auto split: option.splits)
  ultimately have "DecryptRequest C key \<lparr>SequenceNumber = seq, Data = d\<rparr> = Panic PanicSliceBounds"
    unfolding DecryptRequest_def Frame.simps dec rbind.simps Let_def by (simp add: DecodeMap_evil)
  then show ?thesis
    using Frame_Read_wire [OF l assms(2)] by (simp add: ReadRequest_def)
qed

text \<open>
  C37. One frame crashes a TCP server. Any client that completed a handshake, an anonymous one
  too, can build from its session key a frame of at most 41 bytes of data on which the
  connection's goroutine panics, whatever handlers and middleware are installed; nothing
  recovers a panic there, so the process ends. The same frame on a QUIC stream is answered
  with an internal error.
\<close>

theorem tcp_crash_by_one_frame:
  assumes "\<not> fin w" and "\<not> session_dead w p" and "length n = NonceSize"
    and "case skey (touch_at p w) p of None \<Rightarrow> True | Some k \<Rightarrow> aead_laws C \<and> aes_key_ok k"
  shows "let d = (case skey (touch_at p w) p of None \<Rightarrow> evil_request
         | Some k \<Rightarrow> n @ gcm_Seal C k n evil_request [])
    in length d \<le> 41 \<and>
      (\<forall>s rest. sin s = wire seq d @ rest \<longrightarrow>
         tcp_loop C srv env fin sc p addr c (w, s) =
           Some (Panic PanicSliceBounds, (env (touch_at p w), s\<lparr>sin := rest\<rparr>)) \<and>
         fst (handleStream C srv env c p addr (w, s)) = Ok ())"
proof -
  let ?key = "skey (touch_at p w) p"
  let ?d = "case ?key of None \<Rightarrow> evil_request | Some k \<Rightarrow> n @ gcm_Seal C k n evil_request []"
  have k: "case ?key of None \<Rightarrow> ?d = evil_request
      | Some k \<Rightarrow> aead_laws C \<and> aes_key_ok k \<and> length n = NonceSize \<and> ?d = n @ gcm_Seal C k n evil_request []"
    using assms(3,4) by (auto split: option.splits)
  have "length evil_request = 13" by (simp add: evil_request_def)
  then have "length ?d \<le> 41"
    using k Decrypt_seal(2) [of C _ n evil_request] by (auto split: option.splits)
  moreover have "tcp_loop C srv env fin sc p addr c (w, s) =
      Some (Panic PanicSliceBounds, (env (touch_at p w), s\<lparr>sin := rest\<rparr>))"
    if "sin s = wire seq ?d @ rest" for s rest
    using ReadRequest_evil [OF k that] assms(1,2)
    by (simp add: tcp_loop.simps [of C srv env fin sc p addr c "(w, s)"] tcp_turn_def Let_def)
  moreover have "fst (handleStream C srv env c p addr (w, s)) = Ok ()" for s
    using handleStream_returns by blast
  ultimately show ?thesis by (simp add: Let_def)
qed


text \<open>
  C38. \<^verbatim>\<open>RecoveryMiddleware\<close> does not save the server. A panic it recovers is reported to the
  caller as a nil response without an error, and the TCP loop dereferences that response: the
  connection's goroutine panics after all, with a nil dereference instead of the original
  panic.
\<close>

theorem recovered_panic_still_crashes:
  assumes "middlewares srv = []" and "\<not> fin w" and "\<not> session_dead w p"
    and "ReadRequest C (skey (touch_at p w) p) s = (Ok (req, seq), s')"
    and "w1 = env (touch_at p w)" and "HandleHushStream h = None"
    and "HandleHush h (session_ctx c (w_heap w1 ! p) addr) (srv_request (w_heap w1 ! p) req) w1 = (Panic q, w2)"
  shows "tcp_loop C (Handle (Opcode req) h (Use (RecoveryMiddleware None) srv)) env fin sc p addr c (w, s) =
    Some (Panic PanicNilDeref, (add_log (MwPanic (Opcode req) (ID (w_heap w1 ! p)) q) w2, s'))"
proof -
  let ?srv = "Handle (Opcode req) h (Use (RecoveryMiddleware None) srv)"
  have "gm_get (srv_handlers ?srv) (Opcode req) = Some (RecoveryMiddleware None h)"
    using assms(1) by (simp add: Handle_def Use_def)
  moreover have "HandleHushStream (RecoveryMiddleware None h) = None"
    by (rule builtin_mw_plain) (rule builtin_mw.recovery)
  moreover have "HandleHush (RecoveryMiddleware None h) (session_ctx c (w_heap w1 ! p) addr)
      (srv_request (w_heap w1 ! p) req) w1 =
      (Ok None, add_log (MwPanic (Opcode req) (ID (w_heap w1 ! p)) q) w2)"
    using assms(7) by (simp add: RecoveryMiddleware_def HandlerFunc_def default_on_panic_def srv_request_def)
  ultimately show ?thesis
    using assms(2-5)
    by (simp add: tcp_loop.simps [of C ?srv env fin sc p addr c "(w, s)"] tcp_turn_def Let_def)
qed

section \<open>The end of a session\<close>

lemma drop_session_gone: "ss_Get (w_sessions (drop_session i w)) i = None"
  by (simp add: drop_session_def ss_Delete_def ss_Get_def)

text \<open>
  C21. Sessions and their media tokens end with the connection. When a connection that
  established a session is over, by whatever end (the client left, the session expired, a
  handler panicked), its session is no longer in the store, on TCP and on QUIC; and a token
  store made by \<^verbatim>\<open>WithMediaSupport\<close> refuses every token of that session from then on.
\<close>

theorem session_ends_with_connection:
  assumes "establish C srv (w, s) = (Ok p, (w1, s1))" and "i = ID (w_heap w1 ! p)"
    and "handleTCPConnection C srv env fin c addr True (w, s) = Some (r, (w', s')) \<or>
      handleConnection C srv env c addr (s # ss) w = (r', ss', w')"
    and "ValidateSession ts = Some (\<lambda>sessions sid. ss_Get sessions sid \<noteq> None)"
    and "token_at ts t = Some tok" and "TokSessionID tok = i"
  shows "ss_Get (w_sessions w') i = None \<and> \<not> fst (Validate (w_sessions w') now t ts)"
proof -
  have gone: "ss_Get (w_sessions w') i = None"
    using assms(3)
  proof
    assume "handleTCPConnection C srv env fin c addr True (w, s) = Some (r, (w', s'))"
    then show ?thesis
      using assms(1,2) drop_session_gone by (auto simp: handleTCPConnection_def Let_def)
  next
    assume "handleConnection C srv env c addr (s # ss) w = (r', ss', w')"
    then show ?thesis
      using assms(1,2) drop_session_gone
      by (auto simp: handleConnection_def Let_def split: prod.splits)
  qed
  then show ?thesis
    using assms(4-6) by (simp add: Validate_iff session_alive_def)
qed


section \<open>Witnesses\<close>

definition sample_server :: "'a Server" where
  "sample_server = \<lparr>srv_handlers = [], middlewares = [], streamMiddlewares = [],
     keyStore = Some (\<lambda>i. None), serverPriv = replicate 32 3, tlsConf = Some empty_config, mediaURL = None,
     sessionCfg = sample_config, srv_logger = None\<rparr>"

lemma sample_plain: "plain_server sample_server"
  by (simp add: plain_server_def sample_server_def gm_get_def)

lemma sample_live: "\<not> session_dead (sample_world a) 0" "skey (touch_at 0 (sample_world a)) 0 = None"
  by (simp_all add: session_dead_def IsExpired_def IsIdleDead_def sample_world_def sample_defs
      time_since_def max_duration_def min_duration_def DefaultIdleTimeout_def duration_defs
      skey_def touch_at_def Touch_def)

lemma sample_establish:
  obtains p w1 s1 where "establish sample_crypto sample_server
    (sample_world (), stream_of (put_be 2 (0 :: u16) @ replicate 32 5)) = (Ok p, (w1, s1))"
proof -
  let ?s = "stream_of (put_be 2 (0 :: u16) @ replicate 32 5)" and ?srv = "sample_server :: unit Server"
  obtain sess n' s' where ok: "NegotiateServer sample_crypto (w_now (sample_world ())) (serverPriv ?srv)
      (keyStore ?srv) nextSessionID (w_nextID (sample_world ()), ?s) = (Ok sess, (n', s'))"
    using sample_server_anonymous [of ?s "replicate 32 5" "[]" "w_now (sample_world ())"
        "serverPriv ?srv" "keyStore ?srv" nextSessionID "w_nextID (sample_world ())"]
    by (auto simp: stream_of_simps PubKeySize_def)
  then show thesis using that by (simp add: establish_def Let_def alloc_def)
qed

theorem handle_wraps_in_order_witness:
  "gm_get (srv_handlers (Handle 7 probe (fold Use [LoggingMiddleware, RequireAPIKeyID [''a'']] sample_server))) 7 =
     Some (LoggingMiddleware (RequireAPIKeyID [''a''] probe))"
  using handle_wraps_in_order [of sample_server 7 probe "[LoggingMiddleware, RequireAPIKeyID [''a'']]"]
  by (simp add: sample_server_def)

theorem handleStream_robust_witness:
  "one_frame (stream_of [1, 2]) (snd (snd (handleStream sample_crypto sample_server (\<lambda>w. w) [] 0 ''addr''
      (sample_world (), stream_of [1, 2]))))"
  using handleStream_robust [of sample_crypto sample_server "\<lambda>w. w" "[]" 0 "''addr''" "sample_world ()" "stream_of [1, 2]"]
  by (simp add: sample_plain stream_of_simps)

theorem tcp_loop_terminates_witness:
  "\<exists>r. tcp_loop sample_crypto sample_server (\<lambda>w. w) (\<lambda>w. False) [] 0 ''addr'' []
      (sample_world (), stream_of [0, 0, 0, 6, 0, 0, 0, 1, 0, 7]) = Some r"
  by (rule tcp_loop_terminates) (rule sample_plain)

theorem tcp_crash_by_one_frame_witness:
  "tcp_loop sample_crypto sample_server (\<lambda>w. w) (\<lambda>w. False) [] 0 ''addr'' []
      (sample_world (), stream_of (wire 1 evil_request @ [])) =
     Some (Panic PanicSliceBounds, (touch_at 0 (sample_world ()), stream_of []))"
proof -
  have "length (replicate 12 1 :: bytes) = NonceSize" by (simp add: NonceSize_def)
  moreover have "sin (stream_of (wire 1 evil_request @ [])) = wire 1 evil_request @ []"
    by (simp only: stream_of_simps)
  moreover have "(stream_of b)\<lparr>sin := []\<rparr> = stream_of []" for b by (simp add: stream_of_def)
  ultimately show ?thesis
    using tcp_crash_by_one_frame [of "\<lambda>w. False" "sample_world ()" 0 "replicate 12 1" sample_crypto 1
        sample_server "\<lambda>w. w" "[]" "''addr''" "[]"] sample_live [of "()"]
    by (simp add: Let_def)
qed

theorem recovered_panic_still_crashes_witness:
  "\<exists>ws. tcp_loop sample_crypto
      (Handle 7 (HandlerFunc (\<lambda>c req w. (Panic (PanicUser 0), w))) (Use (RecoveryMiddleware None) sample_server))
      (\<lambda>w. w) (\<lambda>w. False) [] 0 ''addr'' []
      (sample_world (), stream_of [0, 0, 0, 6, 0, 0, 0, 1, 0, 7]) = Some (Panic PanicNilDeref, ws)"
proof -
  let ?req = "\<lparr>Opcode = 7, ReqPayload = None\<rparr>"
  have m: "middlewares sample_server = []" by (simp add: sample_server_def)
  have r: "ReadRequest sample_crypto (skey (touch_at 0 (sample_world ())) 0)
      (stream_of [0, 0, 0, 6, 0, 0, 0, 1, 0, 7]) = (Ok (?req, 1), stream_of [])"
    unfolding sample_live
    by (simp add: ReadRequest_def Frame_Read_def DecryptRequest_def stream_of_def ReadFull_def Let_def
        get_be_def MaxFrameSize_def FrameMinData_def)
  from recovered_panic_still_crashes [where fin = "\<lambda>w. False" and env = "\<lambda>w. w" and addr = "''addr''"
      and c = "[]" and sc = "[]" and h = "HandlerFunc (\<lambda>c req w. (Panic (PanicUser 0), w))",
      OF m _ sample_live(1) r refl]
  show ?thesis by (auto simp: HandlerFunc_def)
qed

theorem session_ends_with_connection_witness:
  "\<exists>p w1 s1 r' ss' w'. establish sample_crypto sample_server
        (sample_world (), stream_of (put_be 2 (0 :: u16) @ replicate 32 5)) = (Ok p, (w1, s1)) \<and>
     handleConnection sample_crypto sample_server (\<lambda>w. w) [] ''addr''
        [stream_of (put_be 2 (0 :: u16) @ replicate 32 5)] (sample_world ()) = (r', ss', w') \<and>
     ss_Get (w_sessions w') (ID (w_heap w1 ! p)) = None"
proof -
  let ?s = "stream_of (put_be 2 (0 :: u16) @ replicate 32 5)"
  obtain p w1 s1 where e: "establish sample_crypto sample_server (sample_world (), ?s) = (Ok p, (w1, s1))"
    by (rule sample_establish)
  let ?i = "ID (w_heap w1 ! p)"
  let ?tok = "\<lparr>TokID = [1], TrackID = [], HLSURL = [], TokCreatedAt = 0, IssuedAt = 0, TokSessionID = ?i\<rparr>"
  let ?ts = "\<lparr>ValidateSession = Some (\<lambda>sessions sid. ss_Get sessions sid \<noteq> None),
      tokens = [([1], ?tok)], MaxTokenTTL = 10\<rparr>"
  obtain r' ss' w' where h: "handleConnection sample_crypto sample_server (\<lambda>w. w) [] ''addr'' [?s] (sample_world ()) =
      (r', ss', w')" by (metis prod.exhaust)
  have "ss_Get (w_sessions w') ?i = None \<and> \<not> fst (Validate (w_sessions w') 5 [1] ?ts)"
    by (rule session_ends_with_connection [OF e refl disjI2 [OF h], where tok = ?tok])
      (simp_all add: token_at_def gm_get_def)
  with e h show ?thesis by blast
qed

end
