(* ===== verification/Server_Listen.thy ===== *)
theory Server_Listen
  imports Server_Props
begin

text \<open>
  The server's listeners, \<^verbatim>\<open>src/server/server.go\<close>: the three ways to listen, the accept loop
  they share, the goroutines they start, and the collection of expired sessions in the
  background. What a listener accepts is a script, a list of the results of \<^verbatim>\<open>Accept\<close> each with
  the state of the context after it; when the script is used up the loop is blocked in \<^verbatim>\<open>Accept\<close>.
\<close>

section \<open>Accepting connections\<close>

datatype 'c accept = AcceptConn 'c | AcceptErr io_err

text \<open>Whether the loop has returned, and the connections it has started a goroutine for.\<close>

fun accept_loop :: "('c accept \<times> bool) list \<Rightarrow> bool \<times> 'c list" where
  "accept_loop [] = (False, [])"
| "accept_loop ((AcceptConn c, _) # xs) = (case accept_loop xs of (ret, cs) \<Rightarrow> (ret, c # cs))"
| "accept_loop ((AcceptErr e, ctxErr) # xs) = (if ctxErr then (True, []) else accept_loop xs)"

datatype 'c goroutine = GoGC | GoConn 'c

text \<open>Inside the accept loop, or returned; with the goroutines started.\<close>

datatype 'c serving = Serving "'c goroutine list" | Returned "(server_err, unit) result" "'c goroutine list"

text \<open>What follows a successful listen: start \<^verbatim>\<open>gcLoop\<close>, accept, and close the listener on return.\<close>

definition serve_accepted :: "handle \<Rightarrow> ('c accept \<times> bool) list \<Rightarrow> handle list \<Rightarrow> 'c serving \<times> handle list" where
  "serve_accepted l script op =
     (case accept_loop script of (ret, cs) \<Rightarrow>
        if ret then (Returned (Ok ()) (GoGC # map GoConn cs), release l op)
        else (Serving (GoGC # map GoConn cs), op))"

definition listening ::
    "(transport_err, handle) result \<times> handle list \<Rightarrow> (handle \<Rightarrow> ('c accept \<times> bool) list) \<Rightarrow>
     'c serving \<times> handle list" where
  "listening lr script =
     (case lr of
        (Err e, op) \<Rightarrow> (Returned (Err (SrvListen e)) [], op)
      | (Panic q, op) \<Rightarrow> (Returned (Panic q) [], op)
      | (Ok l, op) \<Rightarrow> serve_accepted l (script l) op)"

definition ListenAndServe ::
    "network \<Rightarrow> string \<Rightarrow> 'a Server \<Rightarrow> (handle \<Rightarrow> ('c accept \<times> bool) list) \<Rightarrow> string \<Rightarrow> handle list \<Rightarrow>
     'c serving \<times> handle list" where
  "ListenAndServe N dflt srv script a op =
     (case tlsConf srv of
        None \<Rightarrow> (Returned (Err SrvNoTLS) [], op)
      | Some conf \<Rightarrow> listening (tr_Listen N dflt a (Some conf) op) script)"

text \<open>\<^verbatim>\<open>ListenAndServeOnConn\<close> listens on a packet connection \<open>c\<close> that the caller opened.\<close>

definition ListenAndServeOnConn ::
    "network \<Rightarrow> 'a Server \<Rightarrow> (handle \<Rightarrow> ('c accept \<times> bool) list) \<Rightarrow> handle \<Rightarrow> handle list \<Rightarrow>
     'c serving \<times> handle list" where
  "ListenAndServeOnConn N srv script c op =
     (case tlsConf srv of
        None \<Rightarrow> (Returned (Err SrvNoTLS) [], op)
      | Some conf \<Rightarrow>
          listening (acquire (quic_Listen N c (conf\<lparr>NextProtos := [ALPN]\<rparr>)) TrListenQUIC op) script)"

definition ListenAndServeTCP ::
    "network \<Rightarrow> string \<Rightarrow> 'a Server \<Rightarrow> (handle \<Rightarrow> ('c accept \<times> bool) list) \<Rightarrow> string \<Rightarrow> handle list \<Rightarrow>
     'c serving \<times> handle list" where
  "ListenAndServeTCP N dflt srv script a op =
     (case tlsConf srv of
        None \<Rightarrow> (Returned (Err SrvNoTLS) [], op)
      | Some conf \<Rightarrow> listening (tr_ListenTCP N dflt a (Some conf) op) script)"

section \<open>Collecting expired sessions\<close>

text \<open>\<^verbatim>\<open>gcLoop\<close>: before each event the rest of the program has changed the world; a tick collects,
  the end of the context ends the loop. The result tells whether the loop has returned.\<close>

datatype 'a gc_event = GcTick "'a world \<Rightarrow> 'a world" | GcCtxDone "'a world \<Rightarrow> 'a world"

fun gc_events :: "'a gc_event list \<Rightarrow> 'a world \<Rightarrow> bool \<times> 'a world" where
  "gc_events [] w = (False, w)"
| "gc_events (GcTick others # es) w = gc_events es (gc_tick (others w))"
| "gc_events (GcCtxDone others # es) w = (True, others w)"

definition gcLoop :: "'a Server \<Rightarrow> 'a gc_event list \<Rightarrow> 'a world \<Rightarrow> (unit, bool) result \<times> 'a world" where
  "gcLoop srv events w =
     (if GCInterval (sessionCfg srv) \<le> 0 then (Panic PanicTicker, w)
      else case gc_events events w of (ret, w) \<Rightarrow> (Ok ret, w))"

section \<open>Properties\<close>

text \<open>The loop against a declarative reading: it stops at the first failure under a dead context.\<close>

definition stops :: "'c accept \<times> bool \<Rightarrow> bool" where
  "stops x \<longleftrightarrow> (case x of (AcceptErr e, ctxErr) \<Rightarrow> ctxErr | _ \<Rightarrow> False)"

definition accepted :: "('c accept \<times> bool) list \<Rightarrow> 'c list" where
  "accepted xs = [c. (AcceptConn c, _) \<leftarrow> xs]"

lemma accept_loop_exact:
  "accept_loop xs = (list_ex stops xs, accepted (takeWhile (\<lambda>x. \<not> stops x) xs))"
  by (induction xs rule: accept_loop.induct) (auto simp: stops_def accepted_def)

definition started :: "('c accept \<times> bool) list \<Rightarrow> 'c goroutine list" where
  "started xs = GoGC # map GoConn (accepted (takeWhile (\<lambda>x. \<not> stops x) xs))"

lemma serve_accepted_exact:
  "serve_accepted l xs op =
     (if list_ex stops xs then (Returned (Ok ()) (started xs), release l op) else (Serving (started xs), op))"
  by (simp add: serve_accepted_def accept_loop_exact started_def)

text \<open>
  C26. A listening server serves every connection and stops only one way. Once \<^verbatim>\<open>ListenAndServe\<close>,
  \<^verbatim>\<open>ListenAndServeOnConn\<close> or \<^verbatim>\<open>ListenAndServeTCP\<close> listens, it starts the collector and one goroutine
  per accepted connection, in order, whatever errors come between, and it returns, without an
  error and with the listener closed, exactly when \<^verbatim>\<open>Accept\<close> fails while the context is over. So a
  context that ends while \<^verbatim>\<open>Accept\<close> keeps succeeding or blocks, as on TCP where it does not know
  the context, does not end the server; and an \<^verbatim>\<open>Accept\<close> that keeps failing is retried forever.
\<close>

theorem listen_serves:
  assumes "tlsConf srv = Some conf"
  shows "(\<forall>l op'. tr_Listen N dflt a (Some conf) op = (Ok l, op') \<longrightarrow>
      ListenAndServe N dflt srv script a op =
        (if list_ex stops (script l) then (Returned (Ok ()) (started (script l)), release l op')
         else (Serving (started (script l)), op'))) \<and>
    (\<forall>l op'. tr_ListenTCP N dflt a (Some conf) op = (Ok l, op') \<longrightarrow>
      ListenAndServeTCP N dflt srv script a op =
        (if list_ex stops (script l) then (Returned (Ok ()) (started (script l)), release l op')
         else (Serving (started (script l)), op'))) \<and>
    (\<forall>l. quic_Listen N c (conf\<lparr>NextProtos := [ALPN]\<rparr>) = Ok l \<longrightarrow>
      ListenAndServeOnConn N srv script c op =
        (if list_ex stops (script l) then (Returned (Ok ()) (started (script l)), op)
         else (Serving (started (script l)), l # op)))"
  using assms
  by (simp add: ListenAndServe_def ListenAndServeTCP_def ListenAndServeOnConn_def listening_def
      serve_accepted_exact acquire_def release_def)

definition tls_server :: "unit Server" where
  "tls_server = sample_server\<lparr>tlsConf := Some \<lparr>NextProtos = [], TLSRest = 1\<rparr>\<rparr>"

theorem listen_serves_witness:
  "ListenAndServe sample_network DefaultALPN tls_server
     (\<lambda>l. [(AcceptConn ''a'', False), (AcceptErr EOF, False), (AcceptConn ''b'', True), (AcceptErr ErrClosed, True),
       (AcceptConn ''c'', True)]) '':1'' [9] =
     (Returned (Ok ()) [GoGC, GoConn ''a'', GoConn ''b''], [2, 9]) \<and>
   ListenAndServeTCP sample_network DefaultALPN tls_server
     (\<lambda>l. [(AcceptConn ''a'', True), (AcceptConn ''b'', True)]) '':1'' [9] =
     (Serving [GoGC, GoConn ''a'', GoConn ''b''], [5, 9])"
proof -
  let ?c = "\<lparr>NextProtos = [], TLSRest = 1\<rparr>"
  have t: "tlsConf tls_server = Some ?c" by (simp add: tls_server_def)
  have l: "tr_Listen sample_network DefaultALPN '':1'' (Some ?c) [9] = (Ok 3, [3, 2, 9])"
    "tr_ListenTCP sample_network DefaultALPN '':1'' (Some ?c) [9] = (Ok 5, [5, 9])"
    by (simp_all add: transport_ops sample_network_def acquire_def default_protos_def)
  note serve = listen_serves [OF t, where N = sample_network and dflt = DefaultALPN and a = "'':1''" and op = "[9]"]
  show ?thesis
    by (simp add: conjunct1 [OF serve, rule_format, OF l(1)]
        conjunct1 [OF conjunct2 [OF serve], rule_format, OF l(2)]
        stops_def started_def accepted_def release_def)
qed

text \<open>
  The collector of a server made by \<^verbatim>\<open>NewServer\<close> never panics, with any options, since zero and
  negative intervals are replaced before the ticker is made; it ends exactly when the context
  does, and until then it keeps collecting.
\<close>

theorem gcLoop_safe:
  assumes "NewServer C ks opts w0 = (Ok srv, w1)"
  shows "\<exists>ret w'. gcLoop srv events w = (Ok ret, w') \<and>
    (ret \<longleftrightarrow> (\<exists>others. GcCtxDone others \<in> set events))"
proof -
  have "\<exists>c. sessionCfg srv = fillDefaults c"
    using assms
    by (auto simp: NewServer_def Let_def ss_Config_def NewSessionStore_def
        split: option.splits prod.splits result.splits)
  then have pos: "0 < GCInterval (sessionCfg srv)" using fillDefaults_pos by auto
  have "fst (gc_events events w) \<longleftrightarrow> (\<exists>others. GcCtxDone others \<in> set events)"
    by (induction events w rule: gc_events.induct) auto
  with pos show ?thesis
    by (cases "gc_events events w") (simp add: gcLoop_def)
qed

theorem gcLoop_safe_witness:
  "\<exists>srv w1 w'. NewServer sample_crypto None [WithSessionConfig zero_config] (sample_world ()) = (Ok srv, w1) \<and>
     gcLoop srv [GcTick id, GcCtxDone id] w1 = (Ok True, w')"
proof -
  obtain srv w1 where n: "NewServer sample_crypto None [WithSessionConfig zero_config] (sample_world ()) = (Ok srv, w1)"
    by (simp add: NewServer_def GenerateKeyPair_def sample_crypto_def sample_world_def stream_of_def ReadFull_def
        WithSessionConfig_def Let_def)
  show ?thesis using n gcLoop_safe [OF n, of "[GcTick id, GcCtxDone id]" w1] by auto
qed

end
