(* ===== verification/Client.thy ===== *)
theory Client
  imports Frame_Wire Session_Negotiate Transport
begin

text \<open>
  The client, \<^verbatim>\<open>src/client/client.go\<close>. The transports (\<^verbatim>\<open>src/transport\<close>, quic-go, TLS) are
  parameters: a dial yields a connection or an error; on QUIC every request opens a stream, on
  TCP the connection itself is the stream. The client owns its session, so it is kept by value.
\<close>

datatype TransportMode = TransportQUIC | TransportTCP

datatype client_err =
    CliDial io_err
  | CliOpenStream io_err
  | CliGenerateKey sess_err
  | CliNegotiate sess_err
  | CliNotDialed
  | CliClosed
  | CliWriteRequest frame_err
  | CliReadResponse frame_err

text \<open>\<open>qconn\<close> says whether there is a QUIC connection and whether it was closed.\<close>

record Client =
  apiKey :: "APIKey option"
  addr :: string
  ctlsConf :: "tls_config option"
  mode :: TransportMode
  qconn :: "bool option"
  tcpConn :: "stream option"
  csess :: "Session option"
  cseq :: u32
  dialed :: bool

section \<open>Addresses\<close>

text \<open>\<^verbatim>\<open>url.Parse\<close> is a parameter: the host (with port) and the port of an address, or an error.\<close>

definition resolveHushAddr :: "(string \<Rightarrow> (string \<times> string) option) \<Rightarrow> string \<Rightarrow> string" where
  "resolveHushAddr parse a =
     (if take 7 a = ''hush://'' \<or> take 7 a = ''tcps://'' then
        (case parse a of
           Some (host, port) \<Rightarrow> (if port = [] then host @ '':443'' else host)
         | None \<Rightarrow> a)
      else a)"

section \<open>Dialling\<close>

text \<open>
  The network of a dial: the transport's dial for an address and a TLS configuration, the result of opening the handshake stream on
  it (QUIC only), and the random source for the key pair. The state is the random source.
\<close>

type_synonym ('e, 'c) dialer = "string \<Rightarrow> tls_config option \<Rightarrow> ('e, 'c) result"

definition dialQUIC ::
    "crypto \<Rightarrow> gotime \<Rightarrow> (io_err, unit) dialer \<Rightarrow> (io_err, stream) result \<Rightarrow> Client \<Rightarrow>
     (stream, client_err, Client) io" where
  "dialQUIC C now dl opn c rnd =
     sbind (swrap CliDial (dl (addr c) (ctlsConf c), rnd)) (\<lambda>_ rnd.
     sbind (swrap CliOpenStream (opn, rnd)) (\<lambda>s rnd.
     sbind (swrap CliGenerateKey (GenerateKeyPair C rnd)) (\<lambda>priv rnd.
       case NegotiateClient C now (apiKey c) priv s of
         (Ok sess, s) \<Rightarrow> (Ok (c\<lparr>qconn := Some False, csess := Some sess, dialed := True\<rparr>), rnd)
       | (Err e, s) \<Rightarrow> (Err (CliNegotiate e), rnd)
       | (Panic p, s) \<Rightarrow> (Panic p, rnd))))"

definition dialTCP ::
    "crypto \<Rightarrow> gotime \<Rightarrow> (io_err, stream) dialer \<Rightarrow> Client \<Rightarrow> (stream, client_err, Client) io" where
  "dialTCP C now dl c rnd =
     sbind (swrap CliDial (dl (addr c) (ctlsConf c), rnd)) (\<lambda>s rnd.
     sbind (swrap CliGenerateKey (GenerateKeyPair C rnd)) (\<lambda>priv rnd.
       case NegotiateClient C now (apiKey c) priv s of
         (Ok sess, s) \<Rightarrow> (Ok (c\<lparr>tcpConn := Some s, csess := Some sess, dialed := True\<rparr>), rnd)
       | (Err e, s) \<Rightarrow> (Err (CliNegotiate e), rnd)
       | (Panic p, s) \<Rightarrow> (Panic p, rnd)))"

definition new_client :: "APIKey option \<Rightarrow> string \<Rightarrow> TransportMode \<Rightarrow> Client" where
  "new_client key a m = \<lparr>apiKey = key, addr = a, ctlsConf = None, mode = m, qconn = None, tcpConn = None,
     csess = None, cseq = 0, dialed = False\<rparr>"

definition client_dial ::
    "crypto \<Rightarrow> gotime \<Rightarrow> (io_err, stream) dialer \<Rightarrow> (io_err, unit) dialer \<Rightarrow> (io_err, stream) result \<Rightarrow>
     Client \<Rightarrow> (stream, client_err, Client) io" where
  "client_dial C now tcpDial quicDial opn c rnd =
     (let c = (if ctlsConf c = None then c\<lparr>ctlsConf := Some empty_config\<rparr> else c) in
      case mode c of
        TransportTCP \<Rightarrow> dialTCP C now tcpDial c rnd
      | TransportQUIC \<Rightarrow> dialQUIC C now quicDial opn c rnd)"

type_synonym ClientOption = "Client \<Rightarrow> Client"

definition WithTransport :: "TransportMode \<Rightarrow> ClientOption" where
  "WithTransport m c = c\<lparr>mode := m\<rparr>"

definition client_WithTLSConfig :: "tls_config option \<Rightarrow> ClientOption" where
  "client_WithTLSConfig cfg c = c\<lparr>ctlsConf := cfg\<rparr>"

definition Dial ::
    "crypto \<Rightarrow> gotime \<Rightarrow> (string \<Rightarrow> (string \<times> string) option) \<Rightarrow>
     (io_err, stream) dialer \<Rightarrow> (io_err, unit) dialer \<Rightarrow> (io_err, stream) result \<Rightarrow>
     string \<Rightarrow> APIKey option \<Rightarrow> ClientOption list \<Rightarrow> (stream, client_err, Client) io" where
  "Dial C now parse tcpDial quicDial opn a key opts rnd =
     (let c = fold (\<lambda>opt. opt) opts (new_client key (resolveHushAddr parse a) TransportQUIC)
      in client_dial C now tcpDial quicDial opn c rnd)"

definition DialTCP ::
    "crypto \<Rightarrow> gotime \<Rightarrow> (string \<Rightarrow> (string \<times> string) option) \<Rightarrow>
     (io_err, stream) dialer \<Rightarrow> (io_err, unit) dialer \<Rightarrow> (io_err, stream) result \<Rightarrow>
     string \<Rightarrow> APIKey option \<Rightarrow> ClientOption list \<Rightarrow> (stream, client_err, Client) io" where
  "DialTCP C now parse tcpDial quicDial opn a key opts rnd =
     Dial C now parse tcpDial quicDial opn a key (opts @ [WithTransport TransportTCP]) rnd"

section \<open>Requests\<close>

text \<open>\<^verbatim>\<open>sess.Touch()\<close> through the client's pointer; a nil pointer panics.\<close>

definition touch_session :: "gotime \<Rightarrow> Client \<Rightarrow> (client_err, Client) result" where
  "touch_session now c = (case csess c of None \<Rightarrow> Panic PanicNilDeref
     | Some sess \<Rightarrow> Ok (c\<lparr>csess := Some (sess\<lparr>LastUsed := now\<rparr>)\<rparr>))"

definition session_key_of :: "Client \<Rightarrow> bytes option" where
  "session_key_of c = (case csess c of None \<Rightarrow> None | Some sess \<Rightarrow> Key sess)"

text \<open>Write the request and read the response on one stream; the state is the random source and
  the stream.\<close>

definition exchange ::
    "crypto \<Rightarrow> bytes option \<Rightarrow> u32 \<Rightarrow> Request \<Rightarrow> (stream \<times> stream, client_err, Response) io" where
  "exchange C key seq req rs =
     sbind (swrap CliWriteRequest (WriteRequest C key seq req rs)) (\<lambda>_ (rnd, s).
       case ReadResponse C key s of (r, s) \<Rightarrow> (map_err CliReadResponse r, (rnd, s)))"

text \<open>\<^verbatim>\<open>doQUIC\<close>: \<open>opn\<close> is the result of \<^verbatim>\<open>conn.OpenStreamSync\<close>. The stream is closed at the end;
  the state is the client, the random source and the stream, if one was opened.\<close>

definition doQUIC ::
    "crypto \<Rightarrow> gotime \<Rightarrow> (io_err, stream) result \<Rightarrow> u16 \<Rightarrow> tlv_map option \<Rightarrow>
     (Client \<times> stream \<times> stream option, client_err, Response) io" where
  "doQUIC C now opn opcode payload st =
     (case st of (c, rnd, _) \<Rightarrow>
      if \<not> dialed c then (Err CliNotDialed, (c, rnd, None))
      else if qconn c = None then (Err CliClosed, (c, rnd, None))
      else case touch_session now c of
        Panic p \<Rightarrow> (Panic p, (c, rnd, None))
      | Err e \<Rightarrow> (Err e, (c, rnd, None))
      | Ok c \<Rightarrow>
          (case opn of
             Err e \<Rightarrow> (Err (CliOpenStream e), (c, rnd, None))
           | Panic p \<Rightarrow> (Panic p, (c, rnd, None))
           | Ok s \<Rightarrow>
               (let seq = cseq c + 1; c = c\<lparr>cseq := seq\<rparr> in
                case exchange C (session_key_of c) seq \<lparr>Opcode = opcode, ReqPayload = payload\<rparr> (rnd, s) of
                  (r, (rnd, s)) \<Rightarrow> (r, (c, rnd, Some (stream_Close s))))))"

text \<open>
  \<^verbatim>\<open>doTCP\<close> holds the client's lock twice. The first time it takes the connection, which it checks;
  then it touches the session and counts the sequence number up. The second time it runs the
  exchange on the connection it took, and drops the client's connection after an error. Other
  calls can come in between, so the parts are separate; the state of the second is the client, the
  random source and the connection. A client that still has the connection sees its new state.
\<close>

definition put_conn :: "stream \<Rightarrow> Client \<Rightarrow> Client" where
  "put_conn s c = c\<lparr>tcpConn := map_option (\<lambda>_. s) (tcpConn c)\<rparr>"

definition doTCP_start :: "gotime \<Rightarrow> (Client, client_err, stream \<times> bytes option \<times> u32) io" where
  "doTCP_start now c =
     (if \<not> dialed c then (Err CliNotDialed, c)
      else case tcpConn c of
        None \<Rightarrow> (Err CliClosed, c)
      | Some s \<Rightarrow>
          (case touch_session now c of
             Panic p \<Rightarrow> (Panic p, c)
           | Err e \<Rightarrow> (Err e, c)
           | Ok c \<Rightarrow> (let seq = cseq c + 1 in (Ok (s, session_key_of c, seq), c\<lparr>cseq := seq\<rparr>))))"

definition doTCP_exchange ::
    "crypto \<Rightarrow> bytes option \<Rightarrow> u32 \<Rightarrow> Request \<Rightarrow> (Client \<times> stream \<times> stream, client_err, Response) io" where
  "doTCP_exchange C key seq req st =
     (case st of (c, rnd, s) \<Rightarrow>
      case exchange C key seq req (rnd, s) of
        (Err e, (rnd, s)) \<Rightarrow> (Err e, (c\<lparr>tcpConn := None\<rparr>, rnd, s))
      | (r, (rnd, s)) \<Rightarrow> (r, (put_conn s c, rnd, s)))"

text \<open>A call with no other in between.\<close>

definition doTCP ::
    "crypto \<Rightarrow> gotime \<Rightarrow> u16 \<Rightarrow> tlv_map option \<Rightarrow> (Client \<times> stream, client_err, Response) io" where
  "doTCP C now opcode payload st =
     (case st of (c, rnd) \<Rightarrow>
      case doTCP_start now c of
        (Panic p, c) \<Rightarrow> (Panic p, (c, rnd))
      | (Err e, c) \<Rightarrow> (Err e, (c, rnd))
      | (Ok (s, key, seq), c) \<Rightarrow>
          (case doTCP_exchange C key seq \<lparr>Opcode = opcode, ReqPayload = payload\<rparr> (c, rnd, s) of
             (r, (c, rnd, s)) \<Rightarrow> (r, (c, rnd))))"

definition client_Do ::
    "crypto \<Rightarrow> gotime \<Rightarrow> (io_err, stream) result \<Rightarrow> u16 \<Rightarrow> tlv_map option \<Rightarrow>
     (Client \<times> stream, client_err, Response) io" where
  "client_Do C now opn opcode payload st =
     (case st of (c, rnd) \<Rightarrow>
      case mode c of
        TransportTCP \<Rightarrow> doTCP C now opcode payload (c, rnd)
      | TransportQUIC \<Rightarrow>
          (case doQUIC C now opn opcode payload (c, rnd, None) of (r, (c, rnd, _)) \<Rightarrow> (r, (c, rnd))))"

text \<open>\<^verbatim>\<open>Close\<close>: the connections it leaves to be closed are returned.\<close>

definition client_Close :: "Client \<Rightarrow> (bool option \<times> stream option) \<times> Client" where
  "client_Close c =
     ((map_option (\<lambda>_. True) (qconn c), map_option stream_Close (tcpConn c)),
      c\<lparr>qconn := None, tcpConn := None, dialed := False\<rparr>)"

definition client_SessionID :: "Client \<Rightarrow> u64" where
  "client_SessionID c = (case csess c of None \<Rightarrow> 0 | Some sess \<Rightarrow> ID sess)"

lemmas doTCP_defs = doTCP_def doTCP_start_def doTCP_exchange_def put_conn_def

end
