(* ===== verification/Client_Props.thy ===== *)
theory Client_Props
  imports Client
begin

text \<open>
  The life of a client of \<^verbatim>\<open>src/client/client.go\<close>: which transport it dials, and what it answers
  without a connection.
\<close>

section \<open>Choosing the transport\<close>

text \<open>Whatever the scheme of the address, \<^verbatim>\<open>Dial\<close> without options never touches the TCP dialler: an
  address that starts with \<^verbatim>\<open>tcps://\<close> is dialled over QUIC, unlike what the comment on \<^verbatim>\<open>Dial\<close> says.
  \<^verbatim>\<open>DialTCP\<close> always uses TCP, whatever the options.\<close>

lemma Dial_ignores_scheme:
  "Dial C now parse tcpDial quicDial opn a key [] rnd = Dial C now parse tcpDial' quicDial opn a key [] rnd"
  by (simp add: Dial_def client_dial_def new_client_def Let_def)

lemma DialTCP_is_TCP:
  "DialTCP C now parse tcpDial quicDial opn a key opts rnd = DialTCP C now parse tcpDial quicDial' opn' a key opts rnd"
  by (simp add: DialTCP_def Dial_def client_dial_def WithTransport_def Let_def)

lemma resolveHushAddr_plain:
  "take 7 a \<noteq> ''hush://'' \<Longrightarrow> take 7 a \<noteq> ''tcps://'' \<Longrightarrow> resolveHushAddr parse a = a"
  by (simp add: resolveHushAddr_def)

section \<open>Lost connections\<close>

text \<open>The client can send: it has dialled and has a connection of its mode.\<close>

definition connected :: "Client \<Rightarrow> bool" where
  "connected c \<longleftrightarrow> dialed c \<and> (case mode c of TransportTCP \<Rightarrow> tcpConn c \<noteq> None | TransportQUIC \<Rightarrow> qconn c \<noteq> None)"

lemma Do_disconnected:
  assumes "\<not> connected c"
  shows "client_Do C now opn op payload (c, rnd) = (Err (if dialed c then CliClosed else CliNotDialed), (c, rnd))"
  using assms by (cases "mode c") (auto simp: client_Do_def doTCP_defs doQUIC_def connected_def split: option.splits)

lemma Close_disconnects: "\<not> connected (snd (client_Close c))"
  by (simp add: connected_def client_Close_def)

end
