(* ===== verification/Rpc_Calls.thy ===== *)
theory Rpc_Calls
  imports Server_Props Client_Props
begin

text \<open>
  A call between the client of \<^verbatim>\<open>src/client/client.go\<close> and the server of \<^verbatim>\<open>src/server/server.go\<close>: the
  server's part on a QUIC stream and on a TCP connection, and the client's part, each with the
  state it leaves. The theorems about whole calls and whole programs rest on these lemmas.
\<close>

section \<open>The server's part\<close>

lemma WriteResponse_reads:
  assumes "payload_ok (RespPayload rsp)" "key_ready C key rnd"
    and "4 + length (resp_plain rsp) + overhead key \<le> MaxFrameSize" "\<not> sclosed s" "sroom s = None"
  obtains out where "WriteResponse C key seq rsp (rnd, s) = (Ok (), used_rnd key rnd, s\<lparr>sout := sout s @ out\<rparr>)"
    "\<forall>r rest. sin r = out @ rest \<longrightarrow> ReadResponse C key r = (Ok (resp_recv seq rsp), r\<lparr>sin := rest\<rparr>)"
proof -
  from resp.write_read [OF assms, of seq] obtain out rnd' where
    out: "WriteResponse C key seq rsp (rnd, s) = (Ok (), rnd', s\<lparr>sout := sout s @ out\<rparr>)"
    "\<forall>r rest. sin r = out @ rest \<longrightarrow> ReadResponse C key r = (Ok (resp_recv seq rsp), r\<lparr>sin := rest\<rparr>)"
    by (fastforce simp: WriteResponse_def ReadResponse_def)
  moreover have "rnd' = used_rnd key rnd"
    using resp.write_rnd [OF assms(1,2), of seq s] out(1) by (simp add: WriteResponse_def)
  ultimately show thesis using that by blast
qed

text \<open>The server's part of a call that goes well: one response frame, which the client can read.\<close>

lemma handleStream_call:
  assumes "\<not> session_dead w p" and "skey (touch_at p w) p = key"
    and "ReadRequest C key s = (Ok (req, seq), s1)" and "\<not> sclosed s" and "sroom s = None"
    and "gm_get (srv_handlers srv) (Opcode req) = Some h" and "HandleHushStream h = None"
    and "w1 = env (touch_at p w)"
    and "HandleHush h (session_ctx ctx (w_heap w1 ! p) remote) (srv_request (w_heap w1 ! p) req) w1 =
          (Ok (Some rsp), w2)"
    and "skey w2 p = key" and "payload_ok (RespPayload rsp)" and "key_ready C key (w_rnd w2)"
    and "4 + length (resp_plain rsp) + overhead key \<le> MaxFrameSize"
  shows "\<exists>out. handleStream C srv env ctx p remote (w, s) =
      (Ok (), (w2\<lparr>w_rnd := used_rnd key (w_rnd w2)\<rparr>, stream_Close (s1\<lparr>sout := sout s @ out\<rparr>))) \<and>
    (\<forall>r rest. sin r = out @ rest \<longrightarrow> ReadResponse C key r = (Ok (resp_recv seq rsp), r\<lparr>sin := rest\<rparr>))"
proof -
  have o: "sout s1 = sout s" "\<not> sclosed s1" "sroom s1 = None"
    using ReadRequest_fields [OF assms(3)] assms(4,5) by simp_all
  obtain out where out: "WriteResponse C key seq rsp (w_rnd w2, s1) =
      (Ok (), used_rnd key (w_rnd w2), s1\<lparr>sout := sout s1 @ out\<rparr>)"
    "\<forall>r rest. sin r = out @ rest \<longrightarrow> ReadResponse C key r = (Ok (resp_recv seq rsp), r\<lparr>sin := rest\<rparr>)"
    by (rule WriteResponse_reads [OF assms(11-13) o(2,3), of seq])
  then have "srv_write C key seq rsp (w2, s1) = (Ok (), (w2\<lparr>w_rnd := used_rnd key (w_rnd w2)\<rparr>, s1\<lparr>sout := sout s @ out\<rparr>))"
    using o(1) by (simp add: srv_write_def)
  then have "handleStream C srv env ctx p remote (w, s) =
      (Ok (), (w2\<lparr>w_rnd := used_rnd key (w_rnd w2)\<rparr>, stream_Close (s1\<lparr>sout := sout s @ out\<rparr>)))"
    using assms(1-3,6-10)
    by (simp add: handleStream_def handleStream_body_def Let_def ignore_err_def close_conn_def)
  with out(2) show ?thesis by blast
qed

text \<open>The server's part of a call on TCP: one turn of its loop, which leaves the rest of the
  connection for the next turn.\<close>

lemma tcp_turn_call:
  assumes "\<not> fin w" and "\<not> session_dead w p" and "skey (touch_at p w) p = key"
    and "ReadRequest C key s = (Ok (req, seq), s1)" and "\<not> sclosed s" and "sroom s = None"
    and "gm_get (srv_handlers srv) (Opcode req) = Some h" and "HandleHushStream h = None"
    and "w1 = env (touch_at p w)" and "c1 = session_ctx c (w_heap w1 ! p) remote"
    and "HandleHush h c1 (srv_request (w_heap w1 ! p) req) w1 = (Ok (Some rsp), w2)"
    and "skey w2 p = key" and "payload_ok (RespPayload rsp)" and "key_ready C key (w_rnd w2)"
    and "4 + length (resp_plain rsp) + overhead key \<le> MaxFrameSize"
  shows "\<exists>out. tcp_turn C srv env fin sc p remote c (w, s) =
      Inr (c1, (w2\<lparr>w_rnd := used_rnd key (w_rnd w2)\<rparr>, s1\<lparr>sout := sout s @ out\<rparr>)) \<and>
    (\<forall>r rest. sin r = out @ rest \<longrightarrow> ReadResponse C key r = (Ok (resp_recv seq rsp), r\<lparr>sin := rest\<rparr>))"
proof -
  have o: "sout s1 = sout s" "\<not> sclosed s1" "sroom s1 = None"
    using ReadRequest_fields [OF assms(4)] assms(5,6) by simp_all
  obtain out where out: "WriteResponse C key seq rsp (w_rnd w2, s1) =
      (Ok (), used_rnd key (w_rnd w2), s1\<lparr>sout := sout s1 @ out\<rparr>)"
    "\<forall>r rest. sin r = out @ rest \<longrightarrow> ReadResponse C key r = (Ok (resp_recv seq rsp), r\<lparr>sin := rest\<rparr>)"
    by (rule WriteResponse_reads [OF assms(13-15) o(2,3), of seq])
  then have "srv_write C key seq rsp (w2, s1) = (Ok (), (w2\<lparr>w_rnd := used_rnd key (w_rnd w2)\<rparr>, s1\<lparr>sout := sout s @ out\<rparr>))"
    using o(1) by (simp add: srv_write_def)
  then have "tcp_turn C srv env fin sc p remote c (w, s) =
      Inr (c1, (w2\<lparr>w_rnd := used_rnd key (w_rnd w2)\<rparr>, s1\<lparr>sout := sout s @ out\<rparr>))"
    using assms(1-4,7-12) by (simp add: tcp_turn_def Let_def)
  with out(2) show ?thesis by blast
qed


section \<open>The client's part\<close>

text \<open>What a request writes does not depend on the stream, and the server reads the request back.\<close>

lemma WriteRequest_reads:
  assumes "payload_ok (ReqPayload req)" "key_ready C key rnd"
    and "4 + length (req_plain req) + overhead key \<le> MaxFrameSize"
  obtains b where
    "\<And>s. \<not> sclosed s \<Longrightarrow> sroom s = None \<Longrightarrow>
       WriteRequest C key seq req (rnd, s) = (Ok (), (used_rnd key rnd, s\<lparr>sout := sout s @ b\<rparr>))"
    "\<And>r rest. sin r = b @ rest \<Longrightarrow> ReadRequest C key r = (Ok (req_recv req, seq), r\<lparr>sin := rest\<rparr>)"
proof -
  obtain d rnd' where d: "EncodeRequest C key seq req rnd = (Ok d, rnd')"
      "length d = length (req_plain req) + overhead key"
      "\<forall>n. DecryptRequest C key \<lparr>SequenceNumber = n, Data = d\<rparr> = Ok (req_recv req)"
    using req.encode_decode [OF assms(1,2), of seq] by metis
  have fit: "4 + length d \<le> MaxFrameSize" using assms(3) d(2) by simp
  have r: "rnd' = used_rnd key rnd"
    using req.write_rnd [OF assms(1,2), of seq "stream_of []"] d(1)
    by (cases "Frame_Write seq d (stream_of [])") (simp add: write_encoded_def)
  show thesis
  proof (rule that [of "wire seq d"])
    show "WriteRequest C key seq req (rnd, s) = (Ok (), (used_rnd key rnd, s\<lparr>sout := sout s @ wire seq d\<rparr>))"
      if "\<not> sclosed s" "sroom s = None" for s
      using Frame_Write_open [OF fit that, of seq] d(1) r by (simp add: WriteRequest_def write_encoded_def)
    show "ReadRequest C key s = (Ok (req_recv req, seq), s\<lparr>sin := rest\<rparr>)" if "sin s = wire seq d @ rest" for s rest
      using Frame_Read_wire [OF fit that] d(3) by (simp add: ReadRequest_def)
  qed
qed

text \<open>\<open>called\<close> is the client after a call: its session touched, its sequence number counted up.\<close>

definition called :: "gotime \<Rightarrow> Session \<Rightarrow> Client \<Rightarrow> Client" where
  "called now sess c = c\<lparr>csess := Some (sess\<lparr>LastUsed := now\<rparr>), cseq := cseq c + 1\<rparr>"

lemma doQUIC_call:
  assumes "dialed c" "qconn c \<noteq> None" "csess c = Some sess" "Key sess = key" "\<not> sclosed s" "sroom s = None"
    and "WriteRequest C key (cseq c + 1) \<lparr>Opcode = op, ReqPayload = payload\<rparr> (rnd, s) = (Ok (), (rnd', s\<lparr>sout := sout s @ b\<rparr>))"
    and "ReadResponse C key (s\<lparr>sout := sout s @ b\<rparr>) = (r, s2)"
  shows "doQUIC C now (Ok s) op payload (c, rnd, st) =
    (map_err CliReadResponse r, (called now sess c, rnd', Some (stream_Close s2)))"
  using assms by (simp add: doQUIC_def touch_session_def session_key_of_def exchange_def called_def Let_def)

lemma ReadResponse_sout: "sout (snd (ReadResponse C key s)) = sout s"
  by (auto simp: ReadResponse_def Frame_Read_def ReadFull_def Let_def split: prod.splits)

text \<open>
  A whole call on a QUIC stream, with the state it leaves on both sides. The bytes the client writes
  are the same whatever it will read.
\<close>

lemma rpc_quic:
  assumes "dialed c" and "qconn c \<noteq> None" and "csess c = Some sess" and "Key sess = key"
    and "payload_ok payload" and "key_ready C key rnd"
    and "req = \<lparr>Opcode = op, ReqPayload = payload\<rparr>"
    and "4 + length (req_plain req) + overhead key \<le> MaxFrameSize"
    and "\<not> session_dead w p" and "skey (touch_at p w) p = key"
    and "gm_get (srv_handlers srv) op = Some h" and "HandleHushStream h = None"
    and "w1 = env (touch_at p w)"
    and "HandleHush h (session_ctx ctx (w_heap w1 ! p) remote) (srv_request (w_heap w1 ! p) (req_recv req)) w1 =
          (Ok (Some rsp), w2)"
    and "skey w2 p = key" and "payload_ok (RespPayload rsp)" and "key_ready C key (w_rnd w2)"
    and "4 + length (resp_plain rsp) + overhead key \<le> MaxFrameSize"
  obtains b out where
    "handleStream C srv env ctx p remote (w, stream_of b) =
      (Ok (), (w2\<lparr>w_rnd := used_rnd key (w_rnd w2)\<rparr>, stream_Close ((stream_of [])\<lparr>sout := out\<rparr>)))"
    "doQUIC C now (Ok (stream_of out)) op payload (c, rnd, st) =
      (Ok (resp_recv (cseq c + 1) rsp),
       (called now sess c, used_rnd key rnd, Some (stream_Close ((stream_of [])\<lparr>sout := b\<rparr>))))"
    "\<And>x. \<exists>r s. doQUIC C now (Ok (stream_of x)) op payload (c, rnd, st) =
      (r, (called now sess c, used_rnd key rnd, Some s)) \<and> sout s = b"
proof -
  let ?seq = "cseq c + 1"
  have open0: "\<not> sclosed (stream_of x)" "sroom (stream_of x) = None" for x
    by (simp_all add: stream_of_simps)
  have pok: "payload_ok (ReqPayload req)" using assms(5,7) by simp
  obtain b where wr: "\<And>s. \<not> sclosed s \<Longrightarrow> sroom s = None \<Longrightarrow>
      WriteRequest C key ?seq req (rnd, s) = (Ok (), (used_rnd key rnd, s\<lparr>sout := sout s @ b\<rparr>))"
    and rd: "\<And>r rest. sin r = b @ rest \<Longrightarrow> ReadRequest C key r = (Ok (req_recv req, ?seq), r\<lparr>sin := rest\<rparr>)"
    by (rule WriteRequest_reads [OF pok assms(6,8)]) blast
  have rd1: "ReadRequest C key (stream_of b) = (Ok (req_recv req, ?seq), stream_of [])"
    using rd [of "stream_of b" "[]"] by (simp add: stream_of_def)
  have reg: "gm_get (srv_handlers srv) (Opcode (req_recv req)) = Some h"
    using assms(7,11) by (simp add: req_recv_def)
  obtain out where out: "handleStream C srv env ctx p remote (w, stream_of b) =
      (Ok (), (w2\<lparr>w_rnd := used_rnd key (w_rnd w2)\<rparr>, stream_Close ((stream_of [])\<lparr>sout := out\<rparr>)))"
    "\<forall>r rest. sin r = out @ rest \<longrightarrow> ReadResponse C key r = (Ok (resp_recv ?seq rsp), r\<lparr>sin := rest\<rparr>)"
    using handleStream_call [where env = env, OF assms(9,10) rd1 open0 reg assms(12-18)]
    by (auto simp: stream_of_simps)
  note call = doQUIC_call [OF assms(1-4) open0 wr [OF open0, unfolded assms(7)], where now = now and st = st]
  have "ReadResponse C key ((stream_of out)\<lparr>sout := b\<rparr>) = (Ok (resp_recv ?seq rsp), (stream_of [])\<lparr>sout := b\<rparr>)"
    using out(2) [rule_format, of "(stream_of out)\<lparr>sout := b\<rparr>" "[]"] by (simp add: stream_of_def)
  then have 1: "doQUIC C now (Ok (stream_of out)) op payload (c, rnd, st) =
      (Ok (resp_recv ?seq rsp), (called now sess c, used_rnd key rnd, Some (stream_Close ((stream_of [])\<lparr>sout := b\<rparr>))))"
    using call [of out] by (simp add: stream_of_simps)
  have 2: "\<exists>r s. doQUIC C now (Ok (stream_of x)) op payload (c, rnd, st) =
      (r, (called now sess c, used_rnd key rnd, Some s)) \<and> sout s = b" for x
    using call [of x] ReadResponse_sout [of C key "(stream_of x)\<lparr>sout := b\<rparr>"]
    by (cases "ReadResponse C key ((stream_of x)\<lparr>sout := b\<rparr>)") (simp add: stream_of_simps stream_Close_def)
  show thesis by (rule that [OF out(1) 1 2])
qed

end
