(* ===== verification/Server_Conn.thy ===== *)
theory Server_Conn
  imports Rpc_Calls
begin

text \<open>
  One QUIC connection with its goroutines, \<^verbatim>\<open>handleConnection\<close> and \<^verbatim>\<open>handleStream\<close> of
  \<^verbatim>\<open>src/server/server.go\<close>: every accepted stream is served by a goroutine of its own, and the
  goroutines interleave with each other, with the accept loop, and with the rest of the program.
  A goroutine has two steps, cut where it waits for the client: up to the read of the request,
  and from the arrival of the request to the end. The client's bytes arrive bit by bit, and the
  second step is not possible before the request's frame is there, or has been refused by its length,
  or no more can come. The connection ends in two steps as well, its
  deferred calls in reverse order: the session leaves the store, then the connection is closed
  under the streams that are still being served.
\<close>

section \<open>The two halves of a stream's goroutine\<close>

text \<open>The deferred \<^verbatim>\<open>recover\<close>.\<close>

definition recovering ::
    "crypto \<Rightarrow> sptr \<Rightarrow> (handler_err, unit) result \<times> 'a conn \<Rightarrow> (handler_err, unit) result \<times> 'a conn" where
  "recovering C p r =
     (case r of
        (Panic q, (w, s)) \<Rightarrow>
          ignore_err (srv_write C (skey w p) 0
            (resp_error StatusInternalError ''internal server error'') (w, s))
      | r \<Rightarrow> r)"

text \<open>Up to the read: \<open>Inr\<close> with the key the read uses, or the end of a stream of a dead session.\<close>

definition stream_begin ::
    "crypto \<Rightarrow> sptr \<Rightarrow> 'a conn \<Rightarrow> ((handler_err, unit) result \<times> 'a conn) + (bytes option \<times> 'a world)" where
  "stream_begin C p ws =
     (case ws of (w, s) \<Rightarrow>
      if session_dead w p then
        Inl (recovering C p
          (sbind (ignore_err (srv_write C (skey w p) 0 resp_expired (w, s))) (\<lambda>_. close_conn)))
      else let w = touch_at p w in Inr (skey w p, w))"

definition stream_finish ::
    "crypto \<Rightarrow> 'a Server \<Rightarrow> ctx \<Rightarrow> sptr \<Rightarrow> string \<Rightarrow> bytes option \<Rightarrow> ('a conn, handler_err, unit) io" where
  "stream_finish C srv c p remoteAddr key ws =
     (case ws of (w, s) \<Rightarrow> recovering C p
        (case ReadRequest C key s of
           (Panic q, s) \<Rightarrow> (Panic q, (w, s))
         | (Err e, s) \<Rightarrow>
             sbind (ignore_err (srv_write C (skey w p) 0 (resp_error StatusBadRequest ''bad request'') (w, s)))
               (\<lambda>_. close_conn)
         | (Ok (req, seq), s) \<Rightarrow>
             (case gm_get (srv_handlers srv) (Opcode req) of
                None \<Rightarrow>
                  sbind (ignore_err (srv_write C (skey w p) seq (resp_not_found (Opcode req)) (w, s)))
                    (\<lambda>_. close_conn)
              | Some handler \<Rightarrow>
                  let sess = w_heap w ! p; hc = session_ctx c sess remoteAddr; srvReq = srv_request sess req in
                  (case HandleHushStream handler of
                     Some stream_fn \<Rightarrow>
                       sbind (ignore_err (stream_fn c srvReq (skey w p) (w, s))) (\<lambda>_. close_conn)
                   | None \<Rightarrow>
                       (case HandleHush handler hc srvReq w of
                          (Panic q, w) \<Rightarrow> (Panic q, (w, s))
                        | (Err e, w) \<Rightarrow>
                            sbind (ignore_err (srv_write C (skey w p) seq
                                (resp_error StatusInternalError ''internal error'') (w, s)))
                              (\<lambda>_. close_conn)
                        | (Ok None, w) \<Rightarrow> (Panic PanicNilDeref, (w, s))
                        | (Ok (Some resp), w) \<Rightarrow>
                            sbind (ignore_err (srv_write C (skey w p) seq resp (w, s))) (\<lambda>_. close_conn))))))"

text \<open>The halves make the whole, with anything in between.\<close>

lemma handleStream_halves:
  "handleStream C srv env c p peer (w, s) =
     (case stream_begin C p (w, s) of
        Inl r \<Rightarrow> r
      | Inr (key, w) \<Rightarrow> stream_finish C srv c p peer key (env w, s))"
proof (cases "session_dead w p")
  case True
  then show ?thesis
    by (simp add: handleStream_def handleStream_body_def stream_begin_def recovering_def)
next
  case False
  then show ?thesis
    by (simp add: handleStream_def handleStream_body_def stream_begin_def stream_finish_def recovering_def Let_def
        split: prod.split result.split option.split)
qed

section \<open>Waiting for a frame\<close>

text \<open>After the bytes \<open>b\<close> a read of a frame still waits: for its length, or for as many bytes as a
  length within the limits says.\<close>

definition frame_waits :: "bytes \<Rightarrow> bool" where
  "frame_waits b \<longleftrightarrow> length b < 4 \<or>
     (let n = unat (get_be (take 4 b) :: u32) in FrameMinData \<le> n \<and> n \<le> MaxFrameSize \<and> length b < 4 + n)"

text \<open>A read that does not wait has its result, whatever comes later.\<close>

lemma Frame_Read_settled:
  assumes "\<not> frame_waits (sin s)" "Frame_Read s = (r, s')"
  shows "Frame_Read (s\<lparr>sin := sin s @ b, sin_err := e\<rparr>) = (r, s'\<lparr>sin := sin s' @ b, sin_err := e\<rparr>)"
  using assms
  by (auto simp: Frame_Read_def ReadFull_def frame_waits_def Let_def split: if_splits)

lemma ReadRequest_settled:
  assumes "\<not> frame_waits (sin s)" "ReadRequest C key s = (r, s')"
  shows "ReadRequest C key (s\<lparr>sin := sin s @ b, sin_err := e\<rparr>) = (r, s'\<lparr>sin := sin s' @ b, sin_err := e\<rparr>)"
proof -
  obtain f s1 where f: "Frame_Read s = (f, s1)" by fastforce
  with Frame_Read_settled [OF assms(1) this, where b = b and e = e] assms(2) show ?thesis
    by (cases f) (auto simp: ReadRequest_def)
qed

lemma ReadRequest_Ok_waits: "ReadRequest C key s = (Ok x, s') \<Longrightarrow> \<not> frame_waits (sin s)"
  by (auto simp: ReadRequest_def Frame_Read_def ReadFull_def frame_waits_def sbind_eq_Ok_iff Let_def split: if_splits)

section \<open>The connection\<close>

datatype stream_phase = Accepted stream | Reading "bytes option" stream | Finished stream

datatype conn_stage = Accepting | SessionDropped | ConnClosed

text \<open>Every stream is kept with all that was given to it, as it was accepted and with the input that
  has arrived since, and with whether more may arrive; \<open>q_crash\<close> is a panic that no one recovered, which
  ends the process.\<close>

record stream_slot =
  sl_given :: stream
  sl_open :: bool
  sl_phase :: stream_phase

record 'a quic =
  q_world :: "'a world"
  q_sid :: u64
  q_stage :: conn_stage
  q_streams :: "stream_slot list"
  q_crash :: "panic option"

definition quic_start :: "u64 \<Rightarrow> 'a world \<Rightarrow> 'a quic" where
  "quic_start i w = \<lparr>q_world = w, q_sid = i, q_stage = Accepting, q_streams = [], q_crash = None\<rparr>"

definition set_phase :: "stream_phase \<Rightarrow> nat \<Rightarrow> stream_slot list \<Rightarrow> stream_slot list" where
  "set_phase ph j xs = xs[j := (xs ! j)\<lparr>sl_phase := ph\<rparr>]"

text \<open>The end of a goroutine: its stream is finished, and what comes later is not read.\<close>

definition settle :: "nat \<Rightarrow> (handler_err, unit) result \<times> 'a conn \<Rightarrow> 'a quic \<Rightarrow> 'a quic" where
  "settle j r q =
     (case r of (x, (w, s)) \<Rightarrow>
        q\<lparr>q_world := w, q_streams := (q_streams q)[j := (q_streams q ! j)\<lparr>sl_open := False, sl_phase := Finished s\<rparr>],
          q_crash := (case x of Panic y \<Rightarrow> Some y | _ \<Rightarrow> None)\<rparr>)"

fun in_phase :: "(stream \<Rightarrow> stream) \<Rightarrow> stream_phase \<Rightarrow> stream_phase" where
  "in_phase f (Accepted s) = Accepted (f s)"
| "in_phase f (Reading key s) = Reading key (f s)"
| "in_phase f (Finished s) = Finished s"

text \<open>More input for a stream, or its end.\<close>

definition arrive :: "bytes \<Rightarrow> stream_slot \<Rightarrow> stream_slot" where
  "arrive b x = (let f = \<lambda>s. s\<lparr>sin := sin s @ b\<rparr> in
     x\<lparr>sl_given := f (sl_given x), sl_phase := in_phase f (sl_phase x)\<rparr>)"

definition input_ends :: "io_err \<Rightarrow> stream_slot \<Rightarrow> stream_slot" where
  "input_ends e x = (let f = \<lambda>s. s\<lparr>sin_err := e\<rparr> in
     x\<lparr>sl_given := f (sl_given x), sl_open := False, sl_phase := in_phase f (sl_phase x)\<rparr>)"

text \<open>\<^verbatim>\<open>CloseWithError\<close> under a stream: what has not arrived never will, and nothing more is written.\<close>

definition torn :: "stream \<Rightarrow> stream \<Rightarrow> bool" where
  "torn s s' \<longleftrightarrow> (\<exists>n e. s' = s\<lparr>sin := take n (sin s), sin_err := e, sclosed := True\<rparr>)"

definition tear :: "stream_slot \<Rightarrow> stream_slot \<Rightarrow> bool" where
  "tear x y \<longleftrightarrow> (\<exists>f. (\<forall>s. torn s (f s)) \<and> y = x\<lparr>sl_open := False, sl_phase := in_phase f (sl_phase x)\<rparr>)"

inductive conn_step :: "crypto \<Rightarrow> 'a Server \<Rightarrow> ctx \<Rightarrow> sptr \<Rightarrow> string \<Rightarrow> 'a quic \<Rightarrow> 'a quic \<Rightarrow> bool"
  for C srv c p peer where
  accept: "q_crash q = None \<Longrightarrow> q_stage q = Accepting \<Longrightarrow>
    conn_step C srv c p peer q
      (q\<lparr>q_streams := q_streams q @ [\<lparr>sl_given = s, sl_open = True, sl_phase = Accepted s\<rparr>]\<rparr>)"
| input: "q_crash q = None \<Longrightarrow> j < length (q_streams q) \<Longrightarrow> sl_open (q_streams q ! j) \<Longrightarrow>
    conn_step C srv c p peer q (q\<lparr>q_streams := (q_streams q)[j := arrive b (q_streams q ! j)]\<rparr>)"
| input_end: "q_crash q = None \<Longrightarrow> j < length (q_streams q) \<Longrightarrow> sl_open (q_streams q ! j) \<Longrightarrow>
    conn_step C srv c p peer q (q\<lparr>q_streams := (q_streams q)[j := input_ends e (q_streams q ! j)]\<rparr>)"
| begin_dead: "q_crash q = None \<Longrightarrow> j < length (q_streams q) \<Longrightarrow> sl_phase (q_streams q ! j) = Accepted s \<Longrightarrow>
    stream_begin C p (q_world q, s) = Inl r \<Longrightarrow> conn_step C srv c p peer q (settle j r q)"
| begin_read: "q_crash q = None \<Longrightarrow> j < length (q_streams q) \<Longrightarrow> sl_phase (q_streams q ! j) = Accepted s \<Longrightarrow>
    stream_begin C p (q_world q, s) = Inr (key, w) \<Longrightarrow>
    conn_step C srv c p peer q (q\<lparr>q_world := w, q_streams := set_phase (Reading key s) j (q_streams q)\<rparr>)"
| finish: "q_crash q = None \<Longrightarrow> j < length (q_streams q) \<Longrightarrow> sl_phase (q_streams q ! j) = Reading key s \<Longrightarrow>
    \<not> (sl_open (q_streams q ! j) \<and> frame_waits (sin s)) \<Longrightarrow>
    conn_step C srv c p peer q (settle j (stream_finish C srv c p peer key (q_world q, s)) q)"
| others: "q_crash q = None \<Longrightarrow> conn_step C srv c p peer q (q\<lparr>q_world := f (q_world q)\<rparr>)"
| drop: "q_crash q = None \<Longrightarrow> q_stage q = Accepting \<Longrightarrow>
    conn_step C srv c p peer q
      (q\<lparr>q_stage := SessionDropped, q_world := drop_session (q_sid q) (q_world q)\<rparr>)"
| close: "q_crash q = None \<Longrightarrow> q_stage q = SessionDropped \<Longrightarrow> list_all2 tear (q_streams q) xs \<Longrightarrow>
    conn_step C srv c p peer q (q\<lparr>q_stage := ConnClosed, q_streams := xs\<rparr>)"

section \<open>Every stream is served as if alone\<close>

definition maybe_torn :: "stream \<Rightarrow> stream \<Rightarrow> bool" where
  "maybe_torn s s' \<longleftrightarrow> s' = s \<or> torn s s'"

lemma maybe_torn_refl [simp]: "maybe_torn s s"
  by (simp add: maybe_torn_def)

lemma torn_torn:
  assumes "torn s s'" "torn s' s''"
  shows "torn s s''"
proof -
  obtain n e n' e' where "s' = s\<lparr>sin := take n (sin s), sin_err := e, sclosed := True\<rparr>"
    "s'' = s'\<lparr>sin := take n' (sin s'), sin_err := e', sclosed := True\<rparr>"
    using assms by (auto simp: torn_def)
  then have "s'' = s\<lparr>sin := take (min n' n) (sin s), sin_err := e', sclosed := True\<rparr>" by simp
  then show ?thesis unfolding torn_def by blast
qed

lemma maybe_torn_tear: "maybe_torn s s' \<Longrightarrow> torn s' s'' \<Longrightarrow> maybe_torn s s''"
  by (auto simp: maybe_torn_def intro: torn_torn)

lemma maybe_torn_fields: "maybe_torn s s' \<Longrightarrow> sout s' = sout s \<and> sroom s' = sroom s"
  by (auto simp: maybe_torn_def torn_def)

definition served :: "crypto \<Rightarrow> 'a Server \<Rightarrow> ctx \<Rightarrow> sptr \<Rightarrow> string \<Rightarrow> stream \<Rightarrow> stream \<Rightarrow> bool" where
  "served C srv c p peer s0 s \<longleftrightarrow>
     (\<exists>s1 env w w'. maybe_torn s0 s1 \<and> handleStream C srv env c p peer (w, s1) = (Ok (), (w', s)))"

fun phase_ok ::
    "crypto \<Rightarrow> 'a Server \<Rightarrow> ctx \<Rightarrow> sptr \<Rightarrow> string \<Rightarrow> stream \<Rightarrow> bool \<Rightarrow> stream_phase \<Rightarrow> bool" where
  "phase_ok C srv c p peer s0 opn (Accepted s) \<longleftrightarrow> maybe_torn s0 s \<and> (opn \<longrightarrow> s = s0)"
| "phase_ok C srv c p peer s0 opn (Reading key s) \<longleftrightarrow> maybe_torn s0 s \<and> (opn \<longrightarrow> s = s0) \<and>
     (\<exists>w :: 'a world. \<not> session_dead w p \<and> key = skey (touch_at p w) p)"
| "phase_ok C srv c p peer s0 opn (Finished s) \<longleftrightarrow> \<not> opn \<and> served C srv c p peer s0 s"

definition slot_ok :: "crypto \<Rightarrow> 'a Server \<Rightarrow> ctx \<Rightarrow> sptr \<Rightarrow> string \<Rightarrow> stream_slot \<Rightarrow> bool" where
  "slot_ok C srv c p peer x \<longleftrightarrow> phase_ok C srv c p peer (sl_given x) (sl_open x) (sl_phase x)"

definition quic_inv :: "crypto \<Rightarrow> 'a Server \<Rightarrow> ctx \<Rightarrow> sptr \<Rightarrow> string \<Rightarrow> 'a quic \<Rightarrow> bool" where
  "quic_inv C srv c p peer q \<longleftrightarrow> q_crash q = None \<and> list_all (slot_ok C srv c p peer) (q_streams q)"

lemma list_all_update: "list_all P xs \<Longrightarrow> P x \<Longrightarrow> list_all P (xs[j := x])"
  by (auto simp: list_all_iff dest: set_update_subset_insert [THEN subsetD])

lemma quic_inv_slot: "quic_inv C srv c p peer q \<Longrightarrow> j < length (q_streams q) \<Longrightarrow> slot_ok C srv c p peer (q_streams q ! j)"
  by (simp add: quic_inv_def list_all_length)

lemma quic_inv_update:
  "quic_inv C srv c p peer q \<Longrightarrow> slot_ok C srv c p peer x \<Longrightarrow>
   quic_inv C srv c p peer (q\<lparr>q_streams := (q_streams q)[j := x]\<rparr>)"
  by (simp add: quic_inv_def list_all_update)

text \<open>A goroutine that comes to its end has run \<^verbatim>\<open>handleStream\<close>, whatever it ran between.\<close>

lemma settle_inv:
  assumes "quic_inv C srv c p peer q" "maybe_torn (sl_given (q_streams q ! j)) s"
    "r = handleStream C srv env c p peer (w, s)"
  shows "quic_inv C srv c p peer (settle j r q)"
proof -
  obtain w' s' where r: "handleStream C srv env c p peer (w, s) = (Ok (), (w', s'))"
    using handleStream_returns [of C srv env c p peer w s] by (metis prod.collapse)
  then have "served C srv c p peer (sl_given (q_streams q ! j)) s'" using assms(2) by (auto simp: served_def)
  with assms(1,3) r show ?thesis by (simp add: quic_inv_def settle_def slot_ok_def list_all_update)
qed

lemma slot_ok_input:
  assumes "slot_ok C srv c p peer x" "sl_open x"
  shows "slot_ok C srv c p peer (arrive b x)" "slot_ok C srv c p peer (input_ends e x)"
  using assms by (cases "sl_phase x"; simp add: slot_ok_def arrive_def input_ends_def Let_def)+

lemma tear_ok:
  assumes "slot_ok C srv c p peer x" "tear x y"
  shows "slot_ok C srv c p peer y"
proof -
  obtain f where f: "\<And>s. torn s (f s)" "y = x\<lparr>sl_open := False, sl_phase := in_phase f (sl_phase x)\<rparr>"
    using assms(2) by (auto simp: tear_def)
  have "maybe_torn s (f s')" if "maybe_torn s s'" for s s' by (rule maybe_torn_tear [OF that f(1)])
  then show ?thesis using assms(1) f(2) by (cases "sl_phase x") (simp_all add: slot_ok_def)
qed

text \<open>The second half of a goroutine completes a run of \<^verbatim>\<open>handleStream\<close>.\<close>

lemma finish_halves:
  assumes "quic_inv C srv c p peer q" "j < length (q_streams q)" "sl_phase (q_streams q ! j) = Reading key s"
  obtains w where "\<not> session_dead w p" "key = skey (touch_at p w) p"
    "handleStream C srv (\<lambda>_. q_world q) c p peer (w, s) = stream_finish C srv c p peer key (q_world q, s)"
proof -
  obtain w :: "'a world" where "\<not> session_dead w p" "key = skey (touch_at p w) p"
    using quic_inv_slot [OF assms(1,2)] assms(3) by (auto simp: slot_ok_def)
  then show thesis by (intro that [of w]) (simp_all add: handleStream_halves stream_begin_def Let_def)
qed

lemma conn_step_inv:
  assumes "conn_step C srv c p peer q q'" "quic_inv C srv c p peer q"
  shows "quic_inv C srv c p peer q'"
  using assms
proof (induction rule: conn_step.induct)
  case (input q j b)
  then show ?case by (intro quic_inv_update slot_ok_input(1) quic_inv_slot) simp_all
next
  case (input_end q j e)
  then show ?case by (intro quic_inv_update slot_ok_input(2) quic_inv_slot) simp_all
next
  case (begin_dead q j s r)
  then have "maybe_torn (sl_given (q_streams q ! j)) s"
    using quic_inv_slot [OF begin_dead.prems begin_dead.hyps(2)] by (simp add: slot_ok_def)
  then show ?case
    by (rule settle_inv [OF begin_dead.prems, where env = id and w = "q_world q"]) (simp add: handleStream_halves begin_dead.hyps(4))
next
  case (begin_read q j s key w)
  have "\<not> session_dead (q_world q) p" "key = skey (touch_at p (q_world q)) p"
    using begin_read.hyps(4) by (auto simp: stream_begin_def Let_def split: if_splits)
  then have "slot_ok C srv c p peer ((q_streams q ! j)\<lparr>sl_phase := Reading key s\<rparr>)"
    using quic_inv_slot [OF begin_read.prems begin_read.hyps(2)] begin_read.hyps(3) by (auto simp: slot_ok_def)
  then show ?case using begin_read.prems by (simp add: quic_inv_def set_phase_def list_all_update)
next
  case (finish q j key s)
  obtain w where h: "handleStream C srv (\<lambda>_. q_world q) c p peer (w, s) = stream_finish C srv c p peer key (q_world q, s)"
    by (rule finish_halves [OF finish.prems finish.hyps(2,3)])
  have "maybe_torn (sl_given (q_streams q ! j)) s"
    using quic_inv_slot [OF finish.prems finish.hyps(2)] finish.hyps(3) by (simp add: slot_ok_def)
  then show ?case by (rule settle_inv [OF finish.prems]) (rule h [symmetric])
next
  case (close q xs)
  then have "list_all (slot_ok C srv c p peer) xs"
    by (auto simp: quic_inv_def list_all_length list_all2_conv_all_nth intro: tear_ok)
  with close show ?case by (simp add: quic_inv_def)
qed (simp_all add: quic_inv_def slot_ok_def)

interpretation quic: step_system "conn_step C srv c p peer" "quic_inv C srv c p peer"
  by unfold_locales (rule conn_step_inv)

lemma quic_reach_inv: "(conn_step C srv c p peer)\<^sup>*\<^sup>* (quic_start i w) q \<Longrightarrow> quic_inv C srv c p peer q"
  by (erule quic.reach_inv) (simp add: quic_inv_def quic_start_def)

lemma served_one_frame:
  assumes "served C srv c p peer s0 s" "plain_server srv" "sroom s0 = None"
  shows "one_frame s0 s"
proof -
  from assms(1) obtain s1 env w w' where h: "maybe_torn s0 s1"
    "handleStream C srv env c p peer (w, s1) = (Ok (), (w', s))" by (auto simp: served_def)
  with handleStream_returns [of C srv env c p peer w s1] assms(2,3) maybe_torn_fields [OF h(1)]
  show ?thesis by (auto simp: one_frame_def)
qed

text \<open>
  C14. The streams of a QUIC connection do not disturb each other. However the goroutines of a
  connection interleave, with its accept loop, with the arrival of input, with the end of its
  session and of the connection, and with anything else that changes the program's state, no panic
  escapes, and every stream that has been served ends as \<^verbatim>\<open>handleStream\<close> alone would have left it,
  called on the stream with the input that had arrived, or as the end of the connection cut it
  off. A server without streaming handlers sends at most one frame, complete and within the size
  limit, on a stream that takes every write; a streaming handler may send more. Nothing is sent
  before the request has been served.
\<close>

theorem quic_streams_isolated:
  assumes "(conn_step C srv c p peer)\<^sup>*\<^sup>* (quic_start i w) q"
  shows "q_crash q = None \<and>
    (\<forall>x s. x \<in> set (q_streams q) \<and> sl_phase x = Finished s \<longrightarrow>
       (\<exists>s1 env w w'. maybe_torn (sl_given x) s1 \<and> handleStream C srv env c p peer (w, s1) = (Ok (), (w', s))) \<and>
       (plain_server srv \<and> sroom (sl_given x) = None \<longrightarrow> one_frame (sl_given x) s)) \<and>
    (\<forall>x s key. x \<in> set (q_streams q) \<and> (sl_phase x = Accepted s \<or> sl_phase x = Reading key s) \<longrightarrow>
       sout s = sout (sl_given x))"
proof -
  have "quic_inv C srv c p peer q" by (rule quic_reach_inv [OF assms])
  then have inv: "q_crash q = None" "\<And>x. x \<in> set (q_streams q) \<Longrightarrow> slot_ok C srv c p peer x"
    by (auto simp: quic_inv_def list_all_iff)
  have fin: "served C srv c p peer (sl_given x) s" if "x \<in> set (q_streams q)" "sl_phase x = Finished s" for x s
    using inv(2) [OF that(1)] that(2) by (simp add: slot_ok_def)
  have out: "sout s = sout (sl_given x)"
    if "x \<in> set (q_streams q)" "sl_phase x = Accepted s \<or> sl_phase x = Reading key s" for x s key
    using inv(2) [OF that(1)] that(2) maybe_torn_fields by (auto simp: slot_ok_def)
  show ?thesis
    using inv(1) fin fin [THEN served_one_frame] out unfolding served_def by blast
qed

section \<open>Waiting and answering\<close>

text \<open>
  A stream whose request has arrived is answered by one step of its own goroutine, in every state
  of the connection and whatever the other streams wait for: the client can read the handler's
  response under its own sequence number, the stream is closed and the other streams are as they were.
\<close>

theorem quic_call_answered:
  assumes "(conn_step C srv c p peer)\<^sup>*\<^sup>* (quic_start i w) q"
    and "j < length (q_streams q)" and "sl_phase (q_streams q ! j) = Reading key s"
    and "ReadRequest C key s = (Ok (req, seq), s1)" and "\<not> sclosed s" and "sroom s = None"
    and "gm_get (srv_handlers srv) (Opcode req) = Some h" and "HandleHushStream h = None"
    and "HandleHush h (session_ctx c (w_heap (q_world q) ! p) peer) (srv_request (w_heap (q_world q) ! p) req) (q_world q) =
          (Ok (Some rsp), w2)"
    and "skey w2 p = key" and "payload_ok (RespPayload rsp)" and "key_ready C key (w_rnd w2)"
    and "4 + length (resp_plain rsp) + overhead key \<le> MaxFrameSize"
  shows "\<exists>q' out. conn_step C srv c p peer q q' \<and> q_crash q' = None \<and>
    q_streams q' = (q_streams q)[j := (q_streams q ! j)\<lparr>sl_open := False,
      sl_phase := Finished (stream_Close (s1\<lparr>sout := sout s @ out\<rparr>))\<rparr>] \<and>
    (\<forall>r rest. sin r = out @ rest \<longrightarrow> ReadResponse C key r = (Ok (resp_recv seq rsp), r\<lparr>sin := rest\<rparr>))"
proof -
  have inv: "quic_inv C srv c p peer q" by (rule quic_reach_inv [OF assms(1)])
  then have alive: "q_crash q = None" by (simp add: quic_inv_def)
  obtain w0 where w0: "\<not> session_dead w0 p" "key = skey (touch_at p w0) p"
    "handleStream C srv (\<lambda>_. q_world q) c p peer (w0, s) = stream_finish C srv c p peer key (q_world q, s)"
    by (rule finish_halves [OF inv assms(2,3)])
  from handleStream_call [where env = "\<lambda>_. q_world q", OF w0(1) w0(2) [symmetric] assms(4-8) refl assms(9-13)] w0(3)
  obtain out where out: "stream_finish C srv c p peer key (q_world q, s) =
      (Ok (), (w2\<lparr>w_rnd := used_rnd key (w_rnd w2)\<rparr>, stream_Close (s1\<lparr>sout := sout s @ out\<rparr>)))"
    "\<forall>r rest. sin r = out @ rest \<longrightarrow> ReadResponse C key r = (Ok (resp_recv seq rsp), r\<lparr>sin := rest\<rparr>)" by auto
  have "conn_step C srv c p peer q (settle j (stream_finish C srv c p peer key (q_world q, s)) q)"
    by (rule conn_step.finish [OF alive assms(2,3)]) (simp add: ReadRequest_Ok_waits [OF assms(4)])
  then show ?thesis using out by (intro exI conjI) (auto simp: settle_def)
qed

text \<open>
  A client that stops in the middle of a frame keeps its goroutine waiting: no step of the
  connection ends it, however long it takes and whether or not the session has expired
  meanwhile. Only the end of the input or of the connection does.
\<close>

lemma silent_stream_waits:
  assumes "conn_step C srv c p peer q q'" "j < length (q_streams q)"
    and "sl_phase (q_streams q ! j) = Reading key s" "sl_open (q_streams q ! j)" "frame_waits (sin s)"
  shows "j < length (q_streams q') \<and> (\<exists>s'. sl_phase (q_streams q' ! j) = Reading key s')"
  using assms
proof (induction rule: conn_step.induct)
  case (close q xs)
  then have "tear (q_streams q ! j) (xs ! j)" "length xs = length (q_streams q)"
    by (auto simp: list_all2_conv_all_nth)
  with close show ?case by (auto simp: tear_def)
qed (auto simp: nth_append nth_list_update arrive_def input_ends_def settle_def set_phase_def Let_def
      split: prod.split)

section \<open>Serving one after the other\<close>

text \<open>A stream that has been served.\<close>

definition done_slot :: "stream \<Rightarrow> stream \<Rightarrow> stream_slot" where
  "done_slot s s' = \<lparr>sl_given = s, sl_open = False, sl_phase = Finished s'\<rparr>"

lemma settle_Ok:
  "q_crash q = None \<Longrightarrow> settle j (Ok (), (w, s)) q = q\<lparr>q_world := w,
     q_streams := (q_streams q)[j := (q_streams q ! j)\<lparr>sl_open := False, sl_phase := Finished s\<rparr>]\<rparr>"
  by (cases q) (simp add: settle_def)

text \<open>Accepting a stream whose input has come to its end.\<close>

lemma accept_whole:
  assumes "q_crash q = None" "q_stage q = Accepting"
  shows "(conn_step C srv c p peer)\<^sup>*\<^sup>* q
    (q\<lparr>q_streams := q_streams q @ [\<lparr>sl_given = s, sl_open = False, sl_phase = Accepted s\<rparr>]\<rparr>)"
proof -
  let ?x = "\<lparr>sl_given = s, sl_open = True, sl_phase = Accepted s\<rparr>"
  let ?q1 = "q\<lparr>q_streams := q_streams q @ [?x]\<rparr>" and ?j = "length (q_streams q)"
  have "conn_step C srv c p peer q ?q1" by (rule conn_step.accept [OF assms])
  moreover have "conn_step C srv c p peer ?q1
      (?q1\<lparr>q_streams := (q_streams ?q1)[?j := input_ends (sin_err s) (q_streams ?q1 ! ?j)]\<rparr>)"
    by (rule conn_step.input_end) (simp_all add: assms)
  moreover have "input_ends (sin_err s) ?x = \<lparr>sl_given = s, sl_open = False, sl_phase = Accepted s\<rparr>"
    by (simp add: input_ends_def)
  ultimately show ?thesis by simp
qed

lemma handleStream_schedule:
  assumes "q_crash q = None" "q_stage q = Accepting"
    and "handleStream C srv env c p peer (q_world q, s) = (Ok (), (w', s'))"
  shows "(conn_step C srv c p peer)\<^sup>*\<^sup>* q (q\<lparr>q_world := w', q_streams := q_streams q @ [done_slot s s']\<rparr>)"
    (is "?step\<^sup>*\<^sup>* q ?q'")
proof -
  let ?q1 = "q\<lparr>q_streams := q_streams q @ [\<lparr>sl_given = s, sl_open = False, sl_phase = Accepted s\<rparr>]\<rparr>"
  let ?j = "length (q_streams q)"
  have a: "?step\<^sup>*\<^sup>* q ?q1" by (rule accept_whole [OF assms(1,2)])
  have here: "q_crash ?q1 = None" "?j < length (q_streams ?q1)" "sl_phase (q_streams ?q1 ! ?j) = Accepted s"
    using assms(1) by simp_all
  show ?thesis
  proof (cases "stream_begin C p (q_world q, s)")
    case (Inl r)
    then have r: "r = (Ok (), (w', s'))" using assms(3) by (simp add: handleStream_halves)
    from Inl have "stream_begin C p (q_world ?q1, s) = Inl r" by simp
    from conn_step.begin_dead [OF here this] have "?step ?q1 ?q'"
      using assms(1) by (simp add: settle_Ok r done_slot_def)
    with a show ?thesis by (rule rtranclp.rtrancl_into_rtrancl)
  next
    case (Inr kw)
    then obtain key w where b: "stream_begin C p (q_world ?q1, s) = Inr (key, w)" by (cases kw) simp
    then have f: "stream_finish C srv c p peer key (env w, s) = (Ok (), (w', s'))"
      using assms(3) by (simp add: handleStream_halves)
    let ?q2 = "?q1\<lparr>q_world := w, q_streams := set_phase (Reading key s) ?j (q_streams ?q1)\<rparr>"
    let ?q3 = "?q2\<lparr>q_world := env (q_world ?q2)\<rparr>"
    have "?step ?q1 ?q2" by (rule conn_step.begin_read [OF here b])
    moreover have "?step ?q2 ?q3" using assms(1) by (intro conn_step.others) simp
    moreover have "?step ?q3 ?q'"
      using conn_step.finish [of ?q3 ?j key s C srv c p peer] assms(1) f
      by (simp add: settle_Ok set_phase_def done_slot_def)
    ultimately show ?thesis using a by (meson rtranclp.rtrancl_into_rtrancl)
  qed
qed

lemma serve_streams_schedule:
  assumes "serve_streams C srv env c p peer ss w = (r, ss', w')" "q_crash q = None" "q_stage q = Accepting" "q_world q = w"
  shows "r = Ok () \<and> length ss' = length ss \<and> (conn_step C srv c p peer)\<^sup>*\<^sup>* q
    (q\<lparr>q_world := w', q_streams := q_streams q @ map2 done_slot ss ss'\<rparr>)"
  using assms
proof (induction ss arbitrary: q w ss')
  case (Cons s ss)
  obtain w1 s1 where h: "handleStream C srv env c p peer (w, s) = (Ok (), (w1, s1))"
    using handleStream_returns [of C srv env c p peer w s] by (metis prod.collapse)
  with Cons.prems(1) obtain ss1 where rest: "serve_streams C srv env c p peer ss w1 = (r, ss1, w')" "ss' = s1 # ss1"
    by (auto split: prod.splits)
  let ?q1 = "q\<lparr>q_world := w1, q_streams := q_streams q @ [done_slot s s1]\<rparr>"
  have "(conn_step C srv c p peer)\<^sup>*\<^sup>* q ?q1"
    using handleStream_schedule [OF Cons.prems(2,3)] h Cons.prems(4) by simp
  with Cons.IH [OF rest(1), of ?q1] Cons.prems(2,3) rest(2) show ?case by (auto intro: rtranclp_trans)
next
  case Nil
  then show ?case by (cases q) auto
qed

text \<open>
  Serving the streams of a connection one after the other is one of its schedules. When the
  handshake succeeds, \<^verbatim>\<open>handleConnection\<close> on a list of streams ends in a state of the world and
  with streams that the interleaved connection can reach, its session dropped; so what holds of
  every schedule holds of it.
\<close>

theorem handleConnection_schedule:
  assumes "establish C srv (w, s) = (Ok p, (w1, s1))" and "i = ID (w_heap w1 ! p)"
    and "handleConnection C srv env c peer (s # ss) w = (r, ss', w')"
  shows "\<exists>ss1 q. r = Ok () \<and> ss' = stream_Close s1 # ss1 \<and> length ss1 = length ss \<and>
    (conn_step C srv c p peer)\<^sup>*\<^sup>* (quic_start i w1) q \<and> q_stage q = SessionDropped \<and>
    q_world q = w' \<and> q_streams q = map2 done_slot ss ss1"
proof -
  obtain r1 ss1 w2 where sv: "serve_streams C srv env c p peer ss w1 = (r1, ss1, w2)" by (metis prod.exhaust)
  with assms have res: "r = r1" "ss' = stream_Close s1 # ss1" "w' = drop_session i w2"
    by (simp_all add: handleConnection_def Let_def)
  let ?q = "(quic_start i w1)\<lparr>q_world := w2, q_streams := map2 done_slot ss ss1\<rparr>"
  have reach: "r1 = Ok ()" "length ss1 = length ss" "(conn_step C srv c p peer)\<^sup>*\<^sup>* (quic_start i w1) ?q"
    using serve_streams_schedule [OF sv, of "quic_start i w1"] by (simp_all add: quic_start_def)
  have "conn_step C srv c p peer ?q (?q\<lparr>q_stage := SessionDropped, q_world := drop_session (q_sid ?q) (q_world ?q)\<rparr>)"
    by (rule conn_step.drop) (simp_all add: quic_start_def)
  with reach(3) have "(conn_step C srv c p peer)\<^sup>*\<^sup>* (quic_start i w1)
      (?q\<lparr>q_stage := SessionDropped, q_world := drop_session (q_sid ?q) (q_world ?q)\<rparr>)" by simp
  with res reach(1,2) show ?thesis by (fastforce simp: quic_start_def)
qed

section \<open>Witnesses\<close>

theorem quic_streams_isolated_witness:
  "\<exists>q x s. (conn_step sample_crypto sample_server [] 0 ''addr'')\<^sup>*\<^sup>* (quic_start 1 (sample_world ())) q \<and>
     x \<in> set (q_streams q) \<and> sl_given x = stream_of [1, 2] \<and> sl_phase x = Finished s \<and>
     q_crash q = None \<and> one_frame (sl_given x) s"
proof -
  let ?s0 = "stream_of [1, 2]"
  obtain w' s where h: "handleStream sample_crypto sample_server id [] 0 ''addr'' (sample_world (), ?s0) = (Ok (), (w', s))"
    using handleStream_returns [of sample_crypto sample_server id "[]" 0 "''addr''" "sample_world ()" ?s0]
    by (metis prod.collapse)
  let ?q = "(quic_start 1 (sample_world ()))\<lparr>q_world := w', q_streams := [done_slot ?s0 s]\<rparr>"
  have r: "(conn_step sample_crypto sample_server [] 0 ''addr'')\<^sup>*\<^sup>* (quic_start 1 (sample_world ())) ?q"
    using handleStream_schedule [of "quic_start 1 (sample_world ())"] h by (simp add: quic_start_def)
  have here: "done_slot ?s0 s \<in> set (q_streams ?q)" "sl_given (done_slot ?s0 s) = ?s0"
    "sl_phase (done_slot ?s0 s) = Finished s" "sroom (sl_given (done_slot ?s0 s)) = None"
    by (simp_all add: done_slot_def stream_of_simps)
  have "q_crash ?q = None \<and> one_frame (sl_given (done_slot ?s0 s)) s"
    using quic_streams_isolated [OF r] here sample_plain by blast
  with r here show ?thesis by blast
qed

theorem handleConnection_schedule_witness:
  "\<exists>p w1 s1 r ss' w' q. establish sample_crypto sample_server
        (sample_world (), stream_of (put_be 2 (0 :: u16) @ replicate 32 5)) = (Ok p, (w1, s1)) \<and>
     handleConnection sample_crypto sample_server id [] ''addr''
        [stream_of (put_be 2 (0 :: u16) @ replicate 32 5), stream_of [1, 2]] (sample_world ()) = (r, ss', w') \<and>
     (conn_step sample_crypto sample_server [] p ''addr'')\<^sup>*\<^sup>* (quic_start (ID (w_heap w1 ! p)) w1) q \<and>
     q_world q = w' \<and> map sl_given (q_streams q) = [stream_of [1, 2]]"
proof -
  let ?s = "stream_of (put_be 2 (0 :: u16) @ replicate 32 5)"
  obtain p w1 s1 where e: "establish sample_crypto sample_server (sample_world (), ?s) = (Ok p, (w1, s1))"
    by (rule sample_establish)
  obtain r ss' w' where h: "handleConnection sample_crypto sample_server id [] ''addr'' [?s, stream_of [1, 2]]
      (sample_world ()) = (r, ss', w')" by (metis prod.exhaust)
  from handleConnection_schedule [OF e refl h] obtain ss1 q where q:
    "(conn_step sample_crypto sample_server [] p ''addr'')\<^sup>*\<^sup>* (quic_start (ID (w_heap w1 ! p)) w1) q"
    "q_world q = w'" "q_streams q = map2 done_slot [stream_of [1, 2]] ss1" "length ss1 = 1" by auto
  then have "map sl_given (q_streams q) = [stream_of [1, 2]]" by (cases ss1) (simp_all add: done_slot_def)
  with e h q(1,2) show ?thesis by (intro exI conjI)
qed

end
