(* ===== verification/Client_Calls.thy ===== *)
theory Client_Calls
  imports Rpc_Calls
begin

text \<open>
  Concurrent calls on one TCP client of \<^verbatim>\<open>src/client/client.go\<close>: a step relation whose steps are the
  lock sections of \<^verbatim>\<open>doTCP\<close> and \<^verbatim>\<open>Close\<close>. A call that was started waits for the lock with the connection
  it took, so that other calls, \<^verbatim>\<open>Close\<close> and the peer come in between.
\<close>

section \<open>Calls as steps\<close>

text \<open>A call that waits for the lock has its session key, its number and its request; a call that
  has returned has its result.\<close>

datatype tcp_call = Queued "bytes option" u32 Request | Answered "(client_err, Response) result"

text \<open>The client, its random source, its only TCP connection, whether a \<^verbatim>\<open>Close\<close> has still to close it,
  and the calls in the order they were started.\<close>

record tcp_client =
  t_client :: Client
  t_rnd :: stream
  t_conn :: stream
  t_closing :: bool
  t_calls :: "tcp_call list"

definition tcp_start :: "Client \<Rightarrow> stream \<Rightarrow> stream \<Rightarrow> tcp_client" where
  "tcp_start c rnd s = \<lparr>t_client = c, t_rnd = rnd, t_conn = s, t_closing = False, t_calls = []\<rparr>"

text \<open>What a call is after its first part.\<close>

fun started :: "u16 \<Rightarrow> tlv_map option \<Rightarrow> (client_err, stream \<times> bytes option \<times> u32) result \<Rightarrow> tcp_call" where
  "started op payload (Ok (s, key, seq)) = Queued key seq \<lparr>Opcode = op, ReqPayload = payload\<rparr>"
| "started op payload (Err e) = Answered (Err e)"
| "started op payload (Panic p) = Answered (Panic p)"

text \<open>
  The steps of the client and its peer. An exchange is one step because it runs under the lock, so
  that no other call and no \<^verbatim>\<open>Close\<close> can begin until it ends; the input of the connection at that step
  is what arrives until then. The peer may send anything, end the connection or stop taking bytes.
\<close>

inductive tcp_step :: "crypto \<Rightarrow> tcp_client \<Rightarrow> tcp_client \<Rightarrow> bool" for C where
  tcp_call_start: "doTCP_start now (t_client t) = (r, c) \<Longrightarrow>
     tcp_step C t (t\<lparr>t_client := c, t_calls := t_calls t @ [started op payload r]\<rparr>)"
| tcp_call_exchange: "j < length (t_calls t) \<Longrightarrow> t_calls t ! j = Queued key seq req \<Longrightarrow>
     doTCP_exchange C key seq req (t_client t, t_rnd t, t_conn t) = (r, (c, rnd, s)) \<Longrightarrow>
     tcp_step C t (t\<lparr>t_client := c, t_rnd := rnd, t_conn := s, t_calls := (t_calls t)[j := Answered r]\<rparr>)"
| tcp_close_take: "client_Close (t_client t) = ((q, k), c) \<Longrightarrow>
     tcp_step C t (t\<lparr>t_client := c, t_closing := t_closing t \<or> k \<noteq> None\<rparr>)"
| tcp_close_conn: "t_closing t \<Longrightarrow>
     tcp_step C t (t\<lparr>t_conn := stream_Close (t_conn t), t_closing := False\<rparr>)"
| tcp_peer: "s = (t_conn t)\<lparr>sin := b, sin_err := e, sroom := m\<rparr> \<Longrightarrow>
     tcp_step C t (t\<lparr>t_conn := s, t_client := put_conn s (t_client t)\<rparr>)"

section \<open>Lost connections\<close>

text \<open>
  The client has at most the one connection the calls share, and it has lost it once a call has
  returned an error.
\<close>

definition tcp_inv :: "tcp_client \<Rightarrow> bool" where
  "tcp_inv t \<longleftrightarrow> mode (t_client t) = TransportTCP \<and> tcpConn (t_client t) \<in> {None, Some (t_conn t)} \<and>
     (t_closing t \<longrightarrow> tcpConn (t_client t) = None) \<and>
     ((\<exists>e. Answered (Err e) \<in> set (t_calls t)) \<longrightarrow> \<not> connected (t_client t))"

text \<open>From the \<open>n\<close>-th on, every call was refused.\<close>

definition refused_from :: "nat \<Rightarrow> tcp_client \<Rightarrow> bool" where
  "refused_from n t \<longleftrightarrow> n \<le> length (t_calls t) \<and> mode (t_client t) = TransportTCP \<and> \<not> connected (t_client t) \<and>
     (\<forall>i. n \<le> i \<and> i < length (t_calls t) \<longrightarrow>
        t_calls t ! i \<in> {Answered (Err CliClosed), Answered (Err CliNotDialed)})"

lemma doTCP_start_mode: "mode (snd (doTCP_start now c)) = mode c"
  by (auto simp: doTCP_start_def touch_session_def Let_def split: option.splits)

lemma doTCP_start_conn:
  "tcpConn (snd (doTCP_start now c)) = tcpConn c" "dialed (snd (doTCP_start now c)) = dialed c"
  by (auto simp: doTCP_start_def touch_session_def Let_def split: option.splits)

lemma doTCP_start_Err:
  assumes "mode c = TransportTCP" "doTCP_start now c = (Err e, c')"
  shows "\<not> connected c"
  using assms by (auto simp: doTCP_start_def touch_session_def connected_def Let_def split: option.splits if_splits)

lemma doTCP_start_refused:
  assumes "mode c = TransportTCP" "\<not> connected c"
  shows "doTCP_start now c = (Err (if dialed c then CliClosed else CliNotDialed), c)"
  using assms by (auto simp: doTCP_start_def connected_def)

lemma doTCP_exchange_client:
  assumes "doTCP_exchange C key seq req (c, rnd, s) = (r, (c', rnd', s'))"
  shows "c' = (case r of Err e \<Rightarrow> c\<lparr>tcpConn := None\<rparr> | _ \<Rightarrow> put_conn s' c)"
  using assms by (auto simp: doTCP_exchange_def split: prod.splits result.splits)

lemma connected_tcp: "mode c = TransportTCP \<Longrightarrow> connected c \<longleftrightarrow> dialed c \<and> tcpConn c \<noteq> None"
  by (simp add: connected_def)

lemma started_Err: "started op payload r = Answered (Err e) \<longleftrightarrow> r = Err e"
  by (cases "(op, payload, r)" rule: started.cases) auto

lemma tcp_step_inv:
  assumes "tcp_step C t t'" "tcp_inv t"
  shows "tcp_inv t'"
  using assms
proof cases
  case (tcp_call_start now r c op payload)
  have "mode c = mode (t_client t)" "tcpConn c = tcpConn (t_client t)" "dialed c = dialed (t_client t)"
    using doTCP_start_mode [of now "t_client t"] doTCP_start_conn [of now "t_client t"] tcp_call_start(2) by simp_all
  moreover have "\<not> connected (t_client t)" if "r = Err e" for e
    using doTCP_start_Err tcp_call_start(2) that assms(2) unfolding tcp_inv_def by blast
  ultimately show ?thesis
    using assms(2) tcp_call_start(1) by (auto simp: tcp_inv_def connected_tcp started_Err dest!: sym [of "Answered _"])
next
  case (tcp_call_exchange j key seq req r c rnd s)
  have "Answered (Err e) \<in> set (t_calls t)" if "Answered (Err e) \<in> set ((t_calls t)[j := Answered r])" "r \<noteq> Err e" for e
    using that set_update_subset_insert [of "t_calls t" j "Answered r"] by auto
  then show ?thesis
    using assms(2) tcp_call_exchange(1) doTCP_exchange_client [OF tcp_call_exchange(4)]
    by (cases r) (auto simp: tcp_inv_def connected_tcp put_conn_def)
qed (auto simp: tcp_inv_def connected_tcp put_conn_def client_Close_def)

lemma tcp_step_refused:
  assumes "tcp_step C t t'" "refused_from n t"
  shows "refused_from n t'"
  using assms
proof cases
  case (tcp_call_start now r c op payload)
  have "r = Err (if dialed c then CliClosed else CliNotDialed)" "c = t_client t"
    using doTCP_start_refused [of "t_client t" now] assms(2) tcp_call_start(2) by (auto simp: refused_from_def)
  then show ?thesis
    using assms(2) tcp_call_start(1) by (auto simp: refused_from_def nth_append less_Suc_eq)
next
  case (tcp_call_exchange j key seq req r c rnd s)
  have "n \<le> j \<Longrightarrow> t_calls t ! j \<in> {Answered (Err CliClosed), Answered (Err CliNotDialed)}"
    using assms(2) tcp_call_exchange(2) by (simp add: refused_from_def)
  then have "j < n" using tcp_call_exchange(3) by (cases "n \<le> j") auto
  then show ?thesis
    using assms(2) tcp_call_exchange(1) doTCP_exchange_client [OF tcp_call_exchange(4)]
    by (cases r) (auto simp: refused_from_def connected_tcp put_conn_def)
qed (auto simp: refused_from_def connected_tcp put_conn_def client_Close_def)

interpretation tcp: step_system "tcp_step C" tcp_inv
  for C by unfold_locales (rule tcp_step_inv)

interpretation tcp_refused: step_system "tcp_step C" "refused_from n"
  for C n by unfold_locales (rule tcp_step_refused)

lemma tcp_start_inv: "mode c = TransportTCP \<Longrightarrow> tcpConn c = Some s \<Longrightarrow> tcp_inv (tcp_start c rnd s)"
  by (simp add: tcp_inv_def tcp_start_def)

lemma tcp_lost:
  assumes "mode c = TransportTCP" "tcpConn c = Some s" "(tcp_step C)\<^sup>*\<^sup>* (tcp_start c rnd s) t"
    and "(\<exists>e. Answered (Err e) \<in> set (t_calls t)) \<or> \<not> dialed (t_client t)" "(tcp_step C)\<^sup>*\<^sup>* t t'"
  shows "refused_from (length (t_calls t)) t'"
proof -
  have "tcp_inv t" by (rule tcp.reach_inv [OF assms(3) tcp_start_inv [OF assms(1,2)]])
  then have "refused_from (length (t_calls t)) t"
    using assms(4) by (auto simp: tcp_inv_def refused_from_def connected_tcp)
  then show ?thesis by (rule tcp_refused.reach_inv [OF assms(5)])
qed

text \<open>A call with no other in between is one schedule: its start and its exchange.\<close>

lemma doTCP_schedule:
  assumes "doTCP_start now c = (Ok (s, key, seq), c1)" "tcpConn c = Some s"
    and "doTCP C now op payload (c, rnd) = (r, (c', rnd'))"
  shows "\<exists>s'. (tcp_step C)\<^sup>*\<^sup>* (tcp_start c rnd s)
    \<lparr>t_client = c', t_rnd = rnd', t_conn = s', t_closing = False, t_calls = [Answered r]\<rparr>"
proof -
  let ?req = "\<lparr>Opcode = op, ReqPayload = payload\<rparr>"
  obtain s' where ex: "doTCP_exchange C key seq ?req (c1, rnd, s) = (r, (c', rnd', s'))"
    using assms(1,3) by (auto simp: doTCP_def split: prod.splits)
  let ?t = "(tcp_start c rnd s)\<lparr>t_client := c1, t_calls := [Queued key seq ?req]\<rparr>"
  have "tcp_step C (tcp_start c rnd s) ?t"
    using tcp_call_start [of now "tcp_start c rnd s" _ c1 C op payload] assms(1) by (simp add: tcp_start_def)
  moreover have "tcp_step C ?t (?t\<lparr>t_client := c', t_rnd := rnd', t_conn := s', t_calls := [Answered r]\<rparr>)"
    using tcp_call_exchange [of 0 ?t key seq ?req C r c' rnd' s'] ex by (simp add: tcp_start_def)
  ultimately have "(tcp_step C)\<^sup>*\<^sup>* (tcp_start c rnd s)
      (?t\<lparr>t_client := c', t_rnd := rnd', t_conn := s', t_calls := [Answered r]\<rparr>)" by auto
  then show ?thesis by (auto simp: tcp_start_def)
qed

section \<open>Calls that wait\<close>

text \<open>An exchange on an open connection whose input starts with a frame that reads as \<open>res\<close>.\<close>

lemma exchange_reads:
  assumes "payload_ok (ReqPayload req)" "key_ready C key rnd"
    and "4 + length (req_plain req) + overhead key \<le> MaxFrameSize"
    and "\<not> sclosed s" "sroom s = None" "sin s = fr @ rest"
    and "\<And>r rest. sin r = fr @ rest \<Longrightarrow> ReadResponse C key r = (res, r\<lparr>sin := rest\<rparr>)"
  obtains b where "exchange C key seq req (rnd, s) =
      (map_err CliReadResponse res, (used_rnd key rnd, s\<lparr>sout := sout s @ b, sin := rest\<rparr>))"
proof -
  obtain b where "WriteRequest C key seq req (rnd, s) = (Ok (), (used_rnd key rnd, s\<lparr>sout := sout s @ b\<rparr>))"
    using WriteRequest_reads [OF assms(1-3)] assms(4,5) by metis
  then have "exchange C key seq req (rnd, s) =
      (map_err CliReadResponse res, (used_rnd key rnd, s\<lparr>sout := sout s @ b, sin := rest\<rparr>))"
    using assms(6) assms(7) [of "s\<lparr>sout := sout s @ b\<rparr>" rest] by (simp add: exchange_def)
  then show thesis by (rule that)
qed

text \<open>A call that started, and its request waiting for the lock.\<close>

lemma tcp_queue:
  assumes "dialed (t_client t)" "csess (t_client t) = Some sess" "tcpConn (t_client t) = Some s"
  shows "tcp_step C t (t\<lparr>t_client := called now sess (t_client t),
    t_calls := t_calls t @ [Queued (Key sess) (cseq (t_client t) + 1) \<lparr>Opcode = op, ReqPayload = payload\<rparr>]\<rparr>)"
  using tcp_call_start [of now t _ "called now sess (t_client t)" C op payload] assms
  by (simp add: doTCP_start_def touch_session_def session_key_of_def called_def Let_def)

text \<open>An exchange of a call whose frame on the connection reads as \<open>res\<close>.\<close>

lemma tcp_exchange_reads:
  assumes "j < length (t_calls t)" "t_calls t ! j = Queued key seq req"
    and "payload_ok (ReqPayload req)" "key_ready C key (t_rnd t)"
    and "4 + length (req_plain req) + overhead key \<le> MaxFrameSize"
    and "\<not> sclosed (t_conn t)" "sroom (t_conn t) = None" "sin (t_conn t) = fr @ rest"
    and "\<And>r rest. sin r = fr @ rest \<Longrightarrow> ReadResponse C key r = (res, r\<lparr>sin := rest\<rparr>)"
  obtains b where "tcp_step C t (t\<lparr>
      t_client := (case res of Err e \<Rightarrow> (t_client t)\<lparr>tcpConn := None\<rparr>
        | _ \<Rightarrow> put_conn ((t_conn t)\<lparr>sout := sout (t_conn t) @ b, sin := rest\<rparr>) (t_client t)),
      t_rnd := used_rnd key (t_rnd t), t_conn := (t_conn t)\<lparr>sout := sout (t_conn t) @ b, sin := rest\<rparr>,
      t_calls := (t_calls t)[j := Answered (map_err CliReadResponse res)]\<rparr>)"
proof -
  obtain b where ex: "exchange C key seq req (t_rnd t, t_conn t) =
      (map_err CliReadResponse res, (used_rnd key (t_rnd t), (t_conn t)\<lparr>sout := sout (t_conn t) @ b, sin := rest\<rparr>))"
    by (rule exchange_reads [OF assms(3-9)])
  show thesis
    by (rule that, rule tcp_call_exchange [OF assms(1,2)]) (cases res; simp add: doTCP_exchange_def ex)
qed

lemma tcp_refuse:
  assumes "mode (t_client t) = TransportTCP" "\<not> connected (t_client t)"
  shows "tcp_step C t (t\<lparr>t_calls := t_calls t @ [Answered (Err (if dialed (t_client t) then CliClosed else CliNotDialed))]\<rparr>)"
proof -
  have "t\<lparr>t_client := t_client t, t_calls := cs\<rparr> = t\<lparr>t_calls := cs\<rparr>" for cs by simp
  then show ?thesis using tcp_call_start [OF doTCP_start_refused [OF assms, of 0], of C] by (metis started.simps(2))
qed

text \<open>A connection that was lost by an error, not by \<^verbatim>\<open>Close\<close>, is never closed: the client has dropped it,
  so that \<^verbatim>\<open>Close\<close> does not find it any more.\<close>

definition forgotten :: "bool \<Rightarrow> tcp_client \<Rightarrow> bool" where
  "forgotten b t \<longleftrightarrow> tcpConn (t_client t) = None \<and> \<not> t_closing t \<and> sclosed (t_conn t) = b"

lemma WriteRequest_sclosed: "sclosed (snd (snd (WriteRequest C key seq req (rnd, s)))) = sclosed s"
  by (auto simp: WriteRequest_def write_encoded_def Frame_Write_def stream_Write_def swrap_def Let_def
      split: prod.split result.split option.split)

lemma ReadResponse_sclosed: "sclosed (snd (ReadResponse C key s)) = sclosed s"
  by (auto simp: ReadResponse_def Frame_Read_def ReadFull_def Let_def split: prod.splits)

lemma doTCP_exchange_sclosed:
  assumes "doTCP_exchange C key seq req (c, rnd, s) = (r, (c', rnd', s'))"
  shows "sclosed s' = sclosed s"
proof -
  obtain wr rnd1 s1 where wr: "WriteRequest C key seq req (rnd, s) = (wr, rnd1, s1)" by (metis prod.exhaust)
  obtain rd s2 where rd: "ReadResponse C key s1 = (rd, s2)" by (metis prod.exhaust)
  have eq: "sclosed s1 = sclosed s" "sclosed s2 = sclosed s"
    using WriteRequest_sclosed [of C key seq req rnd s] ReadResponse_sclosed [of C key s1] wr rd by simp_all
  then show ?thesis
    using assms wr rd by (cases wr; cases rd) (auto simp: doTCP_exchange_def exchange_def)
qed

lemma tcp_step_forgotten:
  assumes "tcp_step C t t'" "forgotten b t"
  shows "forgotten b t'"
  using assms
proof cases
  case (tcp_call_start now r c op payload)
  then show ?thesis using assms(2) doTCP_start_conn(1) [of now "t_client t"] by (simp add: forgotten_def)
next
  case (tcp_call_exchange j key seq req r c rnd s)
  then show ?thesis
    using assms(2) doTCP_exchange_client [OF tcp_call_exchange(4)] doTCP_exchange_sclosed [OF tcp_call_exchange(4)]
    by (cases r) (simp_all add: forgotten_def put_conn_def)
qed (use assms(2) in \<open>auto simp: forgotten_def put_conn_def client_Close_def\<close>)

interpretation tcp_forgotten: step_system "tcp_step C" "forgotten b"
  for C b by unfold_locales (rule tcp_step_forgotten)

lemma lost_connection_stays_open:
  assumes "tcpConn (t_client t) = None" "\<not> t_closing t" "\<not> sclosed (t_conn t)" "(tcp_step C)\<^sup>*\<^sup>* t t'"
  shows "\<not> sclosed (t_conn t')"
  using tcp_forgotten.reach_inv [OF assms(4), of False] assms(1-3) by (simp add: forgotten_def)

text \<open>A dialled client without encryption, whose connection holds a frame that is no response and
  then a response to request 1.\<close>

definition sample_conn :: stream where
  "sample_conn = stream_of (wire 9 [] @ wire 1 [0])"

definition sample_client :: Client where
  "sample_client = (new_client None ''host:1'' TransportTCP)\<lparr>dialed := True, csess := Some sample_session,
     tcpConn := Some sample_conn\<rparr>"

lemma sample_client_simps:
  "dialed sample_client" "mode sample_client = TransportTCP" "csess sample_client = Some sample_session"
  "tcpConn sample_client = Some sample_conn" "cseq sample_client = 0" "Key sample_session = None"
  "\<not> sclosed sample_conn" "sroom sample_conn = None" "sin sample_conn = wire 9 [] @ wire 1 [0] @ []"
  by (simp_all add: sample_client_def new_client_def sample_session_def NewSession_def sample_conn_def stream_of_def)

lemma sample_frames:
  "sin r = wire 9 [] @ rest \<Longrightarrow> ReadResponse C None r = (Err FrmMsgTooShort, r\<lparr>sin := rest\<rparr>)"
  "sin r = wire 1 [0] @ rest \<Longrightarrow>
     ReadResponse C None r = (Ok \<lparr>Status = 0, RespPayload = None, Seq = 1\<rparr>, r\<lparr>sin := rest\<rparr>)"
  using Frame_Read_wire [of "[]" r 9 rest] Frame_Read_wire [of "[0]" r 1 rest]
  by (simp_all add: ReadResponse_def DecryptResponse_def MaxFrameSize_def)

text \<open>
  C27. Calls on a TCP client may run at the same time, and the peer and \<^verbatim>\<open>Close\<close> may act between their
  lock sections. Once a call has returned an error, or \<^verbatim>\<open>Close\<close> has run, every call started later is
  refused as closed or not dialled, and a whole \<^verbatim>\<open>Do\<close> returns that error at once, without touching the
  client, the random source or the network. (Calls already waiting for the lock are not.)
\<close>

theorem lost_connection_refuses:
  assumes "mode c = TransportTCP" and "tcpConn c = Some s" and "(tcp_step C)\<^sup>*\<^sup>* (tcp_start c rnd s) t"
    and "(\<exists>e. Answered (Err e) \<in> set (t_calls t)) \<or> \<not> dialed (t_client t)"
    and "(tcp_step C)\<^sup>*\<^sup>* t t'"
  shows "(\<forall>i. length (t_calls t) \<le> i \<and> i < length (t_calls t') \<longrightarrow>
      t_calls t' ! i \<in> {Answered (Err CliClosed), Answered (Err CliNotDialed)}) \<and>
    (\<exists>err \<in> {CliClosed, CliNotDialed}. \<forall>now opn op payload r.
      client_Do C now opn op payload (t_client t', r) = (Err err, (t_client t', r)))"
proof -
  have r: "refused_from (length (t_calls t)) t'" by (rule tcp_lost [OF assms])
  then have "\<not> connected (t_client t')" by (simp add: refused_from_def)
  then have "\<exists>err \<in> {CliClosed, CliNotDialed}. \<forall>now opn op payload r.
      client_Do C now opn op payload (t_client t', r) = (Err err, (t_client t', r))"
    using Do_disconnected by auto
  with r show ?thesis by (auto simp: refused_from_def)
qed

theorem lost_connection_refuses_witness:
  "\<exists>t t'. (tcp_step sample_crypto)\<^sup>*\<^sup>* (tcp_start sample_client (stream_of []) sample_conn) t \<and>
    t_calls t = [Answered (Err (CliReadResponse FrmMsgTooShort))] \<and> (tcp_step sample_crypto)\<^sup>*\<^sup>* t t' \<and>
    \<not> dialed (t_client t') \<and> length (t_calls t') = 3 \<and>
    t_calls t' ! 1 \<in> {Answered (Err CliClosed), Answered (Err CliNotDialed)} \<and>
    t_calls t' ! 2 \<in> {Answered (Err CliClosed), Answered (Err CliNotDialed)}"
proof -
  let ?t0 = "tcp_start sample_client (stream_of []) sample_conn"
  let ?req = "\<lparr>Opcode = 7, ReqPayload = None\<rparr>"
  define t1 where "t1 = ?t0\<lparr>t_client := called 0 sample_session sample_client, t_calls := [Queued None 1 ?req]\<rparr>"
  have 1: "tcp_step sample_crypto ?t0 t1"
    using tcp_queue [where t = ?t0 and sess = sample_session and s = sample_conn and C = sample_crypto
        and now = 0 and op = 7 and payload = None]
    by (simp add: t1_def tcp_start_def sample_client_simps)
  have t1: "0 < length (t_calls t1)" "t_calls t1 ! 0 = Queued None 1 ?req" "\<not> sclosed (t_conn t1)"
    "sroom (t_conn t1) = None" "sin (t_conn t1) = wire 9 [] @ wire 1 [0] @ []"
    by (simp_all add: t1_def tcp_start_def sample_client_simps)
  have ok: "payload_ok (ReqPayload ?req)" "key_ready sample_crypto None rnd"
    "4 + length (req_plain ?req) + overhead None \<le> MaxFrameSize" for rnd
    by (simp_all add: payload_ok_def key_ready_def req_plain_def enc_payload_def overhead_def MaxFrameSize_def)
  obtain t2 where 2: "tcp_step sample_crypto t1 t2" "t_calls t2 = [Answered (Err (CliReadResponse FrmMsgTooShort))]"
      "t_client t2 = (t_client t1)\<lparr>tcpConn := None\<rparr>"
    by (rule tcp_exchange_reads [OF t1(1,2) ok t1(3-5) sample_frames(1)]) (auto simp: t1_def)
  have t2: "mode (t_client t2) = TransportTCP" "\<not> connected (t_client t2)"
    by (simp_all add: 2(3) t1_def called_def sample_client_simps connected_def)
  define t3 where "t3 = t2\<lparr>t_calls := t_calls t2 @ [Answered (Err CliClosed)]\<rparr>"
  have 3: "tcp_step sample_crypto t2 t3"
    using tcp_refuse [OF t2, of sample_crypto]
    by (simp add: t3_def 2(3) t1_def called_def sample_client_simps)
  define t4 where "t4 = t3\<lparr>t_client := snd (client_Close (t_client t3)), t_closing := t_closing t3\<rparr>"
  have 4: "tcp_step sample_crypto t3 t4"
    using tcp_close_take [of t3 _ _ "snd (client_Close (t_client t3))" sample_crypto]
    by (simp add: t4_def t3_def client_Close_def 2(3))
  define t5 where "t5 = t4\<lparr>t_calls := t_calls t4 @ [Answered (Err CliNotDialed)]\<rparr>"
  have "mode (t_client t3) = TransportTCP" using t2(1) by (simp add: t3_def)
  then have 5: "tcp_step sample_crypto t4 t5"
    using tcp_refuse [of t4 sample_crypto] Close_disconnects [of "t_client t3"] by (simp add: t5_def t4_def client_Close_def)
  have r: "(tcp_step sample_crypto)\<^sup>*\<^sup>* ?t0 t2" "(tcp_step sample_crypto)\<^sup>*\<^sup>* t2 t5"
    using 1 2(1) 3 4 5 by auto
  have "\<exists>e. Answered (Err e) \<in> set (t_calls t2)" using 2(2) by auto
  then have "\<forall>i. length (t_calls t2) \<le> i \<and> i < length (t_calls t5) \<longrightarrow>
      t_calls t5 ! i \<in> {Answered (Err CliClosed), Answered (Err CliNotDialed)}"
    using lost_connection_refuses [OF sample_client_simps(2,4) r(1) _ r(2)] by blast
  then have "t_calls t5 ! 1 \<in> {Answered (Err CliClosed), Answered (Err CliNotDialed)}"
    "t_calls t5 ! 2 \<in> {Answered (Err CliClosed), Answered (Err CliNotDialed)}"
    using 2(2) by (simp_all add: t5_def t4_def t3_def)
  moreover have "length (t_calls t5) = 3" "\<not> dialed (t_client t5)"
    using 2(2) by (simp_all add: t5_def t4_def t3_def client_Close_def)
  ultimately show ?thesis using r 2(2) by blast
qed



end
