(* ===== verification/Event_Hub.thy ===== *)
theory Event_Hub
  imports Server_Handlers
begin

text \<open>
  The publish/subscribe hub, \<^verbatim>\<open>src/server/stream.go\<close>. Subscribers are shared between the hub
  and the goroutines that serve them, so they live in a heap (a pointer is an index into a
  list); a subscriber's event channel is the list of buffered events, its \<^verbatim>\<open>done\<close> channel a
  flag. \<^verbatim>\<open>Subscribe\<close> and \<^verbatim>\<open>Unsubscribe\<close> hold the hub's mutex throughout; \<^verbatim>\<open>Publish\<close> takes a
  snapshot of the subscribers under the mutex and sends to them one by one afterwards.
\<close>

section \<open>Events and subscribers\<close>

record Event =
  EvTopic :: string
  EvPayload :: "tlv_map option"
  EvTime :: gotime

record Subscriber =
  SubID :: string
  SubTopic :: string
  Events :: "Event list"
  Created :: gotime
  SubDone :: bool

definition event_buffer :: nat where "event_buffer = 64"

definition NewSubscriber :: "gotime \<Rightarrow> string \<Rightarrow> string \<Rightarrow> Subscriber" where
  "NewSubscriber now i topic = \<lparr>SubID = i, SubTopic = topic, Events = [], Created = now, SubDone = False\<rparr>"

text \<open>\<^verbatim>\<open>close(s.done)\<close> panics when the channel is closed already.\<close>

definition Subscriber_Close :: "Subscriber \<Rightarrow> (unit, Subscriber) result" where
  "Subscriber_Close s = (if SubDone s then Panic PanicCloseClosed else Ok (s\<lparr>SubDone := True\<rparr>))"

section \<open>The hub\<close>

record Hub =
  subscribers :: "(string, (string, nat) gomap) gomap"
  sub_heap :: "Subscriber list"

definition NewHub :: Hub where
  "NewHub = \<lparr>subscribers = [], sub_heap = []\<rparr>"

text \<open>\<^verbatim>\<open>h.subscribers[topic]\<close>: a missing topic reads as a nil map, which is empty.\<close>

definition topic_subs :: "Hub \<Rightarrow> string \<Rightarrow> (string, nat) gomap" where
  "topic_subs h topic = (case gm_get (subscribers h) topic of None \<Rightarrow> [] | Some subs \<Rightarrow> subs)"

definition Subscribe :: "gotime \<Rightarrow> string \<Rightarrow> string \<Rightarrow> Hub \<Rightarrow> nat \<times> Hub" where
  "Subscribe now topic subID h =
     (let p = length (sub_heap h);
          h = h\<lparr>sub_heap := sub_heap h @ [NewSubscriber now subID topic]\<rparr>
      in (p, h\<lparr>subscribers := gm_set topic (gm_set subID p (topic_subs h topic)) (subscribers h)\<rparr>))"

definition Unsubscribe :: "string \<Rightarrow> string \<Rightarrow> Hub \<Rightarrow> (unit, unit) result \<times> Hub" where
  "Unsubscribe topic subID h =
     (case gm_get (subscribers h) topic of
        None \<Rightarrow> (Ok (), h)
      | Some subs \<Rightarrow>
          (case (case gm_get subs subID of
                   None \<Rightarrow> Ok (subs, sub_heap h)
                 | Some p \<Rightarrow>
                     rbind (Subscriber_Close (sub_heap h ! p)) (\<lambda>s.
                       Ok (gm_delete subID subs, (sub_heap h)[p := s]))) of
             Panic q \<Rightarrow> (Panic q, h)
           | Err e \<Rightarrow> (Err e, h)
           | Ok (subs, heap) \<Rightarrow>
               (Ok (), h\<lparr>sub_heap := heap,
                  subscribers := (if gm_len subs = 0 then gm_delete topic (subscribers h)
                                  else gm_set topic subs (subscribers h))\<rparr>)))"

text \<open>The two parts of \<^verbatim>\<open>Publish\<close>: the snapshot, and one send of the loop after it.\<close>

definition publish_snapshot :: "gotime \<Rightarrow> string \<Rightarrow> tlv_map option \<Rightarrow> Hub \<Rightarrow> Event \<times> nat list" where
  "publish_snapshot now topic payload h =
     (\<lparr>EvTopic = topic, EvPayload = payload, EvTime = now\<rparr>, map snd (topic_subs h topic))"

definition publish_send :: "Event \<Rightarrow> nat \<Rightarrow> Hub \<Rightarrow> Hub" where
  "publish_send evt p h =
     (let s = sub_heap h ! p in
      if length (Events s) < event_buffer
      then h\<lparr>sub_heap := (sub_heap h)[p := s\<lparr>Events := Events s @ [evt]\<rparr>]\<rparr>
      else h)"

definition Publish :: "gotime \<Rightarrow> string \<Rightarrow> tlv_map option \<Rightarrow> Hub \<Rightarrow> Hub" where
  "Publish now topic payload h =
     (case publish_snapshot now topic payload h of (evt, dest) \<Rightarrow> fold (publish_send evt) dest h)"

definition Topics :: "Hub \<Rightarrow> string list" where
  "Topics h = map fst (subscribers h)"

definition SubscriberCount :: "string \<Rightarrow> Hub \<Rightarrow> nat" where
  "SubscriberCount topic h = gm_len (topic_subs h topic)"

section \<open>Handlers\<close>

definition sub_id :: "string \<Rightarrow> u64 \<Rightarrow> string" where
  "sub_id topic sid = topic @ '':'' @ dec (unat sid)"

text \<open>\<^verbatim>\<open>SubscribeHandler\<close> up to its loop is \<open>subscriber_enter\<close>: find the topic, subscribe,
  acknowledge. The loop waits for the context, the \<^verbatim>\<open>done\<close> channel or the next event;
  \<open>subscriber_event\<close> is the turn for an event, and \<open>subscriber_leave\<close> the deferred
  \<^verbatim>\<open>Unsubscribe\<close>, which runs when the handler returns and when it panics.\<close>

definition lift_hub :: "('e, 'b) result \<Rightarrow> (handler_err, 'b) result" where
  "lift_hub r = map_err (\<lambda>_. HandlerErr []) r"

definition subscriber_ack :: "string \<Rightarrow> Response" where
  "subscriber_ack topic =
     \<lparr>Status = StatusSuccess,
      RespPayload = Some (map_set (map_set NewMap ''event'' (VString ''subscribed'')) ''topic'' (VString topic)),
      Seq = 0\<rparr>"

definition subscriber_leave :: "string \<Rightarrow> u64 \<Rightarrow> Hub \<Rightarrow> (unit, unit) result \<times> Hub" where
  "subscriber_leave topic sid h = Unsubscribe topic (sub_id topic sid) h"

definition subscriber_enter ::
    "crypto \<Rightarrow> SrvRequest \<Rightarrow> bytes option \<Rightarrow> (Hub world \<times> stream, handler_err, string \<times> nat) io" where
  "subscriber_enter C req key ws =
     (case ws of (w, s) \<Rightarrow>
      case lift_hub (GetString (ReqPayload (SrvReq req)) ''topic'') of
        Panic q \<Rightarrow> (Panic q, (w, s))
      | Err e \<Rightarrow> (Err e, (w, s))
      | Ok (topic, _) \<Rightarrow>
          if topic = [] then (Err (HandlerErr ''subscribe: topic required''), (w, s))
          else
            (case Subscribe (w_now w) topic (sub_id topic (SrvSessionID req)) (w_app w) of (p, h) \<Rightarrow>
             case WriteResponse C key 0 (subscriber_ack topic) (w_rnd w, s) of
               (Panic q, (rnd, s)) \<Rightarrow>
                 (Panic q, (w\<lparr>w_app := snd (subscriber_leave topic (SrvSessionID req) h), w_rnd := rnd\<rparr>, s))
             | (_, (rnd, s)) \<Rightarrow> (Ok (topic, p), (w\<lparr>w_app := h, w_rnd := rnd\<rparr>, s))))"

definition event_response :: "Event \<Rightarrow> (tlv_err, Response) result" where
  "event_response evt =
     rbind (MapValue (EvPayload evt)) (\<lambda>payload.
       Ok \<lparr>Status = StatusSuccess,
           RespPayload = Some (map_set (map_set (map_set (map_set NewMap
             ''event'' (VString ''message'')) ''topic'' (VString (EvTopic evt)))
             ''payload'' payload) ''time'' (VTimestamp (EvTime evt))),
           Seq = 0\<rparr>)"

text \<open>One event: it leaves the buffer, \<open>seq\<close> goes up, the frame is written, errors ignored.\<close>

definition subscriber_event ::
    "crypto \<Rightarrow> bytes option \<Rightarrow> nat \<Rightarrow> u32 \<Rightarrow> (Hub world \<times> stream, handler_err, u32) io" where
  "subscriber_event C key p seq ws =
     (case ws of (w, s) \<Rightarrow>
      let sub = sub_heap (w_app w) ! p in
      case Events sub of
        [] \<Rightarrow> (Ok seq, (w, s))
      | evt # rest \<Rightarrow>
          (let h = (w_app w)\<lparr>sub_heap := (sub_heap (w_app w))[p := sub\<lparr>Events := rest\<rparr>]\<rparr>;
               w = w\<lparr>w_app := h\<rparr>; seq = seq + 1
           in case lift_hub (event_response evt) of
                Panic q \<Rightarrow> (Panic q, (w, s))
              | Err e \<Rightarrow> (Err e, (w, s))
              | Ok resp \<Rightarrow>
                  (case WriteResponse C key seq resp (w_rnd w, s) of
                     (Panic q, (rnd, s)) \<Rightarrow> (Panic q, (w\<lparr>w_rnd := rnd\<rparr>, s))
                   | (_, (rnd, s)) \<Rightarrow> (Ok seq, (w\<lparr>w_rnd := rnd\<rparr>, s)))))"

text \<open>
  The loop over a schedule: before each turn the other goroutines have changed the hub by
  \<open>others\<close>, then \<^verbatim>\<open>select\<close> takes one of the cases that are ready, \<open>ctx_done\<close> telling whether the
  context is over. A turn whose case is not ready is no execution of the program, and has no
  result. A schedule that ends inside the loop gives \<open>Ok (Some seq)\<close>, a return \<open>Ok None\<close>.
\<close>

datatype sub_select = SelCtx | SelDone | SelEvent

record sub_turn =
  others :: "Hub \<Rightarrow> Hub"
  ctx_done :: bool
  chosen :: sub_select

definition select_ready :: "sub_turn \<Rightarrow> Subscriber \<Rightarrow> bool" where
  "select_ready t sub = (case chosen t of
     SelCtx \<Rightarrow> ctx_done t | SelDone \<Rightarrow> SubDone sub | SelEvent \<Rightarrow> Events sub \<noteq> [])"

fun subscriber_loop ::
    "crypto \<Rightarrow> bytes option \<Rightarrow> nat \<Rightarrow> u32 \<Rightarrow> sub_turn list \<Rightarrow> Hub world \<times> stream \<Rightarrow>
     ((handler_err, u32 option) result \<times> Hub world \<times> stream) option" where
  "subscriber_loop C key p seq [] ws = Some (Ok (Some seq), ws)"
| "subscriber_loop C key p seq (t # ts) (w, s) =
     (let w = w\<lparr>w_app := others t (w_app w)\<rparr> in
      if \<not> select_ready t (sub_heap (w_app w) ! p) then None
      else (case chosen t of
              SelEvent \<Rightarrow>
                (case subscriber_event C key p seq (w, s) of
                   (Ok seq, ws) \<Rightarrow> subscriber_loop C key p seq ts ws
                 | (Err e, ws) \<Rightarrow> Some (Err e, ws)
                 | (Panic q, ws) \<Rightarrow> Some (Panic q, ws))
            | _ \<Rightarrow> Some (Ok None, (w, s))))"

definition SubscribeHandler ::
    "crypto \<Rightarrow> SrvRequest \<Rightarrow> bytes option \<Rightarrow> sub_turn list \<Rightarrow> Hub world \<times> stream \<Rightarrow>
     ((handler_err, u32 option) result \<times> Hub world \<times> stream) option" where
  "SubscribeHandler C req key turns ws =
     (case subscriber_enter C req key ws of
        (Panic q, ws) \<Rightarrow> Some (Panic q, ws)
      | (Err e, ws) \<Rightarrow> Some (Err e, ws)
      | (Ok (topic, p), ws) \<Rightarrow>
          (case subscriber_loop C key p 0 turns ws of
             None \<Rightarrow> None
           | Some (Ok (Some seq), ws) \<Rightarrow> Some (Ok (Some seq), ws)
           | Some (r, (w, s)) \<Rightarrow>
               Some (r, (w\<lparr>w_app := snd (subscriber_leave topic (SrvSessionID req) (w_app w))\<rparr>, s))))"

definition PublishHandler :: "Hub hfun" where
  "PublishHandler c req w =
     (case lift_hub (GetString (ReqPayload (SrvReq req)) ''topic'') of
        Panic q \<Rightarrow> (Panic q, w)
      | Err e \<Rightarrow> (Err e, w)
      | Ok (topic, _) \<Rightarrow>
          if topic = [] then (Ok (Some (ErrorResponse StatusBadRequest ''topic required'')), w)
          else
            (case lift_hub (GetMap (ReqPayload (SrvReq req)) ''payload'') of
               Panic q \<Rightarrow> (Panic q, w)
             | Err e \<Rightarrow> (Err e, w)
             | Ok (payload, ok) \<Rightarrow>
                 if \<not> ok then (Ok (Some (ErrorResponse StatusBadRequest ''payload required'')), w)
                 else
                   (let h = Publish (w_now w) topic payload (w_app w)
                    in (Ok (Some (NewResponse (Some (map_set (map_set NewMap
                          ''subscriber_count'' (VUint64 (of_nat (SubscriberCount topic h))))
                          ''topic'' (VString topic))))), w\<lparr>w_app := h\<rparr>))))"

definition ListTopicsHandler :: "Hub hfun" where
  "ListTopicsHandler c req w =
     (let topics = Topics (w_app w)
      in (Ok (Some (NewResponse (Some (map_set (map_set NewMap
            ''topics'' (VArray (map VString topics)))
            ''count'' (VUint64 (of_nat (length topics))))))), w))"


section \<open>Looking up subscribers\<close>

definition sub_at :: "Hub \<Rightarrow> string \<Rightarrow> string \<Rightarrow> nat option" where
  "sub_at h topic i = gm_get (topic_subs h topic) i"

definition hub_maps :: "Hub \<Rightarrow> bool" where
  "hub_maps h \<longleftrightarrow> gm_inv (subscribers h) \<and>
     (\<forall>t subs. gm_get (subscribers h) t = Some subs \<longrightarrow> gm_inv subs \<and> subs \<noteq> [])"

definition hub_inv :: "Hub \<Rightarrow> bool" where
  "hub_inv h \<longleftrightarrow> hub_maps h \<and>
     (\<forall>t i p. sub_at h t i = Some p \<longrightarrow> p < length (sub_heap h) \<and> SubID (sub_heap h ! p) = i \<and>
        SubTopic (sub_heap h ! p) = t \<and> \<not> SubDone (sub_heap h ! p)) \<and>
     (\<forall>s \<in> set (sub_heap h). length (Events s) \<le> event_buffer \<and> (\<forall>e \<in> set (Events s). EvTopic e = SubTopic s))"

lemma hub_invD:
  "hub_inv h \<Longrightarrow> sub_at h t i = Some p \<Longrightarrow> p < length (sub_heap h) \<and> SubID (sub_heap h ! p) = i \<and>
     SubTopic (sub_heap h ! p) = t \<and> \<not> SubDone (sub_heap h ! p)"
  by (simp add: hub_inv_def)

lemma gm_empty [simp]: "gm_get [] k = None" "gm_inv []"
  by (simp_all add: gm_get_def gm_inv_def)

lemma gm_len_0 [simp]: "gm_len m = 0 \<longleftrightarrow> m = []"
  by (simp add: gm_len_def)

lemma gm_set_not_Nil [simp]: "gm_set k v m \<noteq> []"
  by (metis gm.get_put_same gm_empty(1) option.distinct(1))

lemma topic_subs_inv: "hub_maps h \<Longrightarrow> gm_inv (topic_subs h t)"
  by (simp add: hub_maps_def topic_subs_def split: option.split)

lemma sub_at_Subscribe:
  "sub_at (snd (Subscribe now t i h)) t' i' =
    (if t' = t \<and> i' = i then Some (length (sub_heap h)) else sub_at h t' i')"
  by (auto simp: Subscribe_def Let_def sub_at_def topic_subs_def gm.get_put split: option.splits)

lemma sub_heap_Subscribe [simp]:
  "sub_heap (snd (Subscribe now t i h)) = sub_heap h @ [NewSubscriber now i t]"
  by (simp add: Subscribe_def Let_def)

lemma hub_maps_Subscribe: "hub_maps h \<Longrightarrow> hub_maps (snd (Subscribe now t i h))"
  using topic_subs_inv [of h t]
  by (auto simp: hub_maps_def Subscribe_def Let_def topic_subs_def gm.get_put gm.inv_put split: if_splits)

lemma hub_inv_Subscribe:
  assumes "hub_inv h"
  shows "hub_inv (snd (Subscribe now t i h))"
  using assms hub_maps_Subscribe [of h now t i]
  by (auto simp: hub_inv_def sub_at_Subscribe nth_append NewSubscriber_def less_SucI split: if_splits)

lemma gm_delete_Nil_get: "gm_delete k m = [] \<Longrightarrow> k' \<noteq> k \<Longrightarrow> gm_get m k' = None"
  by (metis fun_upd_apply gm.get_del gm_empty(1))

lemma Unsubscribe_ok:
  assumes "hub_inv h"
  shows "\<exists>h'. Unsubscribe t i h = (Ok (), h') \<and>
    (\<forall>t' i'. sub_at h' t' i' = (if t' = t \<and> i' = i then None else sub_at h t' i')) \<and>
    sub_heap h' = (case sub_at h t i of None \<Rightarrow> sub_heap h
      | Some p \<Rightarrow> (sub_heap h)[p := (sub_heap h ! p)\<lparr>SubDone := True\<rparr>]) \<and> hub_maps h'"
proof (cases "gm_get (subscribers h) t")
  case None
  then show ?thesis using assms by (simp add: Unsubscribe_def sub_at_def topic_subs_def hub_inv_def)
next
  case (Some subs)
  have maps: "hub_maps h" using assms by (simp add: hub_inv_def)
  then have subs: "gm_inv subs" "subs \<noteq> []" using Some by (auto simp: hub_maps_def)
  show ?thesis
  proof (cases "gm_get subs i")
    case None
    then show ?thesis
      using Some subs maps
      by (auto simp: Unsubscribe_def sub_at_def topic_subs_def hub_maps_def gm.get_put gm.inv_put)
  next
    case p: (Some p)
    have "sub_at h t i = Some p" using Some p by (simp add: sub_at_def topic_subs_def)
    then have "\<not> SubDone (sub_heap h ! p)"
      using assms by (simp add: hub_inv_def)
    then show ?thesis
      using Some p subs maps gm_delete_Nil_get [of i subs]
      by (auto simp: Unsubscribe_def Subscriber_Close_def sub_at_def topic_subs_def hub_maps_def
          gm.get_put gm.get_del gm.inv_put gm.inv_del split: option.splits)
  qed
qed


lemma hub_inv_heap:
  assumes "hub_inv h" "subscribers h' = subscribers h" "length (sub_heap h') = length (sub_heap h)"
    "\<And>p. p < length (sub_heap h) \<Longrightarrow> SubID (sub_heap h' ! p) = SubID (sub_heap h ! p) \<and>
      SubTopic (sub_heap h' ! p) = SubTopic (sub_heap h ! p) \<and> SubDone (sub_heap h' ! p) = SubDone (sub_heap h ! p)"
    "\<And>s. s \<in> set (sub_heap h') \<Longrightarrow> length (Events s) \<le> event_buffer \<and> (\<forall>e \<in> set (Events s). EvTopic e = SubTopic s)"
  shows "hub_inv h'"
proof -
  have "sub_at h' t i = sub_at h t i" for t i
    using assms(2) by (simp add: sub_at_def topic_subs_def)
  moreover have "hub_maps h' = hub_maps h" using assms(2) by (simp add: hub_maps_def)
  ultimately show ?thesis using assms by (auto simp: hub_inv_def)
qed

lemma nth_update_field: "f x = f (H ! p) \<Longrightarrow> f (H[p := x] ! q) = f (H ! q)"
  by (cases "p < length H"; cases "q = p") (simp_all add: list_update_beyond)

lemma nth_done:
  "p < length H \<Longrightarrow> H[p := (H ! p)\<lparr>SubDone := True\<rparr>] ! q =
     (if q = p then (H ! p)\<lparr>SubDone := True\<rparr> else H ! q)"
  by simp

lemma hub_inv_Unsubscribe:
  assumes "hub_inv h" "Unsubscribe t i h = (r, h')"
  shows "hub_inv h'"
proof -
  from Unsubscribe_ok [OF assms(1), of t i] assms(2)
  have u: "\<forall>t' i'. sub_at h' t' i' = (if t' = t \<and> i' = i then None else sub_at h t' i')"
      "sub_heap h' = (case sub_at h t i of None \<Rightarrow> sub_heap h
        | Some p \<Rightarrow> (sub_heap h)[p := (sub_heap h ! p)\<lparr>SubDone := True\<rparr>])" "hub_maps h'"
    by auto
  have inv: "sub_at h t' i' = Some p \<Longrightarrow> p < length (sub_heap h) \<and> SubID (sub_heap h ! p) = i' \<and>
        SubTopic (sub_heap h ! p) = t' \<and> \<not> SubDone (sub_heap h ! p)" for t' i' p
    using assms(1) by (simp add: hub_inv_def)
  have heap: "s \<in> set (sub_heap h) \<Longrightarrow> length (Events s) \<le> event_buffer \<and> (\<forall>e \<in> set (Events s). EvTopic e = SubTopic s)" for s
    using assms(1) by (simp add: hub_inv_def)
  show ?thesis
  proof (cases "sub_at h t i")
    case None
    with u inv heap show ?thesis by (auto simp: hub_inv_def)
  next
    case (Some p)
    have nth: "sub_heap h' ! q = (if q = p then (sub_heap h ! p)\<lparr>SubDone := True\<rparr> else sub_heap h ! q)" for q
      using u(2) Some inv [OF Some] by (simp only: option.case nth_done)
    have len: "length (sub_heap h') = length (sub_heap h)" using u(2) Some by simp
    have other: "q \<noteq> p \<and> sub_at h t' i' = Some q" if "sub_at h' t' i' = Some q" for t' i' q
      using that u(1) inv [of t' i' q] inv [OF Some] by (auto split: if_splits)
    have "q < length (sub_heap h') \<and> SubID (sub_heap h' ! q) = i' \<and>
        SubTopic (sub_heap h' ! q) = t' \<and> \<not> SubDone (sub_heap h' ! q)"
      if "sub_at h' t' i' = Some q" for t' i' q
      using other [OF that] inv [of t' i' q] by (simp add: nth len)
    moreover have "length (Events s) \<le> event_buffer \<and> (\<forall>e \<in> set (Events s). EvTopic e = SubTopic s)"
      if "s \<in> set (sub_heap h')" for s
      using that u(2) Some heap nth_mem [of p "sub_heap h"] inv [OF Some]
      by (auto dest!: set_update_subset_insert [THEN subsetD])
    ultimately show ?thesis using u(3) by (simp add: hub_inv_def)
  qed
qed

lemma sub_heap_send:
  "length (sub_heap (publish_send evt p h)) = length (sub_heap h)"
  "subscribers (publish_send evt p h) = subscribers h"
  "p < length (sub_heap h) \<Longrightarrow> sub_heap (publish_send evt p h) ! q =
     (if q = p \<and> length (Events (sub_heap h ! p)) < event_buffer
      then (sub_heap h ! p)\<lparr>Events := Events (sub_heap h ! p) @ [evt]\<rparr> else sub_heap h ! q)"
  by (auto simp: publish_send_def Let_def)

lemma hub_inv_send:
  assumes "hub_inv h" "p < length (sub_heap h)" "SubTopic (sub_heap h ! p) = EvTopic evt"
  shows "hub_inv (publish_send evt p h)"
proof (rule hub_inv_heap [OF assms(1)])
  fix s
  assume "s \<in> set (sub_heap (publish_send evt p h))"
  then obtain q where q: "q < length (sub_heap h)" "s = sub_heap (publish_send evt p h) ! q"
    by (auto simp: in_set_conv_nth sub_heap_send(1))
  have "length (Events (sub_heap h ! q)) \<le> event_buffer \<and>
      (\<forall>e \<in> set (Events (sub_heap h ! q)). EvTopic e = SubTopic (sub_heap h ! q))"
    using assms(1) nth_mem [OF q(1)] by (simp add: hub_inv_def)
  then show "length (Events s) \<le> event_buffer \<and> (\<forall>e \<in> set (Events s). EvTopic e = SubTopic s)"
    using q(2) assms(2,3) by (auto simp: sub_heap_send(3))
qed (use assms(2) in \<open>auto simp: sub_heap_send\<close>)

section \<open>The hub under concurrency\<close>

text \<open>
  The hub and the publications in progress, each the event and the subscribers it has still to
  be sent to. Any number of publishers, subscribers and departures interleave.
\<close>

type_synonym hub_state = "Hub \<times> (Event \<times> nat list) list"

inductive hub_step :: "hub_state \<Rightarrow> hub_state \<Rightarrow> bool" where
  subscribe: "hub_step (h, ps) (snd (Subscribe now t i h), ps)"
| unsubscribe: "Unsubscribe t i h = (r, h') \<Longrightarrow> hub_step (h, ps) (h', ps)"
| publish: "hub_step (h, ps) (h, ps @ [publish_snapshot now t payload h])"
| send: "hub_step (h, as @ (evt, xs @ p # ys) # bs) (publish_send evt p h, as @ (evt, xs @ ys) # bs)"
| receive: "p < length (sub_heap h) \<Longrightarrow> Events (sub_heap h ! p) = e # es \<Longrightarrow>
    hub_step (h, ps) (h\<lparr>sub_heap := (sub_heap h)[p := (sub_heap h ! p)\<lparr>Events := es\<rparr>]\<rparr>, ps)"

definition hub_state_inv :: "hub_state \<Rightarrow> bool" where
  "hub_state_inv st \<longleftrightarrow> hub_inv (fst st) \<and>
     (\<forall>(evt, dest) \<in> set (snd st). \<forall>p \<in> set dest. p < length (sub_heap (fst st)) \<and>
        SubTopic (sub_heap (fst st) ! p) = EvTopic evt)"

lemma snapshot_dest:
  assumes "hub_inv h" "p \<in> set (snd (publish_snapshot now t payload h))"
  shows "\<exists>i. sub_at h t i = Some p"
proof -
  have "gm_inv (topic_subs h t)" using assms(1) by (simp add: hub_inv_def topic_subs_inv)
  moreover obtain i where "(i, p) \<in> set (topic_subs h t)" using assms(2) by (auto simp: publish_snapshot_def)
  ultimately show ?thesis by (auto simp: sub_at_def gm_get_def gm_inv_def)
qed

lemma hub_step_heap:
  assumes "hub_step (h, ps) (h', ps')" "hub_inv h"
  shows "length (sub_heap h) \<le> length (sub_heap h') \<and>
    (\<forall>p < length (sub_heap h). SubTopic (sub_heap h' ! p) = SubTopic (sub_heap h ! p))"
  using assms(1)
proof (cases rule: hub_step.cases)
  case (unsubscribe t i r)
  from Unsubscribe_ok [OF assms(2), of t i] unsubscribe
  have u: "sub_heap h' = (case sub_at h t i of None \<Rightarrow> sub_heap h
      | Some p \<Rightarrow> (sub_heap h)[p := (sub_heap h ! p)\<lparr>SubDone := True\<rparr>])" by auto
  show ?thesis
  proof (cases "sub_at h t i")
    case (Some p)
    then have "p < length (sub_heap h)" using assms(2) by (simp add: hub_inv_def)
    then show ?thesis using u Some by (simp add: nth_done)
  qed (simp add: u)
next
  case (send as evt xs p ys bs)
  then show ?thesis by (auto simp: publish_send_def Let_def nth_update_field [where f = SubTopic])
next
  case (receive p e es)
  then show ?thesis by (auto simp: nth_update_field [where f = SubTopic])
qed (auto simp: nth_append)

lemma hub_inv_receive:
  assumes "hub_inv h" "p < length (sub_heap h)" "Events (sub_heap h ! p) = e # es"
  shows "hub_inv (h\<lparr>sub_heap := (sub_heap h)[p := (sub_heap h ! p)\<lparr>Events := es\<rparr>]\<rparr>)"
proof (rule hub_inv_heap [OF assms(1)])
  fix s
  assume "s \<in> set (sub_heap (h\<lparr>sub_heap := (sub_heap h)[p := (sub_heap h ! p)\<lparr>Events := es\<rparr>]\<rparr>))"
  then have "s = (sub_heap h ! p)\<lparr>Events := es\<rparr> \<or> s \<in> set (sub_heap h)"
    by (auto dest!: set_update_subset_insert [THEN subsetD])
  moreover have "length (Events s) \<le> event_buffer \<and> (\<forall>e \<in> set (Events s). EvTopic e = SubTopic s)"
    if "s \<in> set (sub_heap h)" for s
    using assms(1) that by (simp add: hub_inv_def)
  ultimately show "length (Events s) \<le> event_buffer \<and> (\<forall>e \<in> set (Events s). EvTopic e = SubTopic s)"
    using nth_mem [OF assms(2)] assms(3) by fastforce
qed (simp_all add: nth_update_field [where f = SubID] nth_update_field [where f = SubTopic]
    nth_update_field [where f = SubDone])

lemma hub_step_hub_inv:
  assumes "hub_step (h, ps) (h', ps')" "hub_state_inv (h, ps)"
  shows "hub_inv h'"
  using assms(1)
proof (cases rule: hub_step.cases)
  case (send as evt xs p ys bs)
  then show ?thesis using assms(2) by (auto simp: hub_state_inv_def intro: hub_inv_send)
qed (use assms(2) in \<open>auto simp: hub_state_inv_def intro: hub_inv_Subscribe hub_inv_Unsubscribe hub_inv_receive\<close>)

lemma hub_step_pending:
  assumes "hub_step (h, ps) (h', ps')" "hub_inv h" "(evt, dest') \<in> set ps'" "p \<in> set dest'"
  shows "(\<exists>dest. (evt, dest) \<in> set ps \<and> p \<in> set dest) \<or> (\<exists>i. sub_at h (EvTopic evt) i = Some p)"
  using assms(1)
proof (cases rule: hub_step.cases)
  case (publish now t payload)
  then show ?thesis using assms(2-4) snapshot_dest [OF assms(2), of p now t payload]
    by (auto simp: publish_snapshot_def)
qed (use assms(3,4) in auto)

lemma hub_step_inv:
  assumes "hub_step st st'" "hub_state_inv st"
  shows "hub_state_inv st'"
proof -
  obtain h ps h' ps' where st: "st = (h, ps)" "st' = (h', ps')" by (cases st, cases st') auto
  have step: "hub_step (h, ps) (h', ps')" using assms(1) st by simp
  have inv: "hub_inv h" using assms(2) st by (simp add: hub_state_inv_def)
  have "p < length (sub_heap h') \<and> SubTopic (sub_heap h' ! p) = EvTopic evt"
    if "(evt, dest) \<in> set ps'" "p \<in> set dest" for evt dest p
  proof -
    have "p < length (sub_heap h) \<and> SubTopic (sub_heap h ! p) = EvTopic evt"
      using hub_step_pending [OF step inv that]
    proof
      assume "\<exists>dest. (evt, dest) \<in> set ps \<and> p \<in> set dest"
      then show ?thesis using assms(2) st by (fastforce simp: hub_state_inv_def)
    next
      assume "\<exists>i. sub_at h (EvTopic evt) i = Some p"
      then show ?thesis using inv by (auto simp: hub_inv_def)
    qed
    then show ?thesis using hub_step_heap [OF step inv] by auto
  qed
  then show ?thesis
    using hub_step_hub_inv [OF step] assms(2) st by (auto simp: hub_state_inv_def)
qed

interpretation hub: step_system hub_step hub_state_inv
  by unfold_locales (rule hub_step_inv)

lemma hub_reach_inv: "hub_step\<^sup>*\<^sup>* (NewHub, []) st \<Longrightarrow> hub_state_inv st"
  by (erule hub.reach_inv)
    (simp add: hub_state_inv_def hub_inv_def hub_maps_def NewHub_def sub_at_def topic_subs_def)

section \<open>Publishing\<close>

lemma snapshot_dest_iff:
  assumes "hub_inv h"
  shows "p \<in> set (snd (publish_snapshot now t payload h)) \<longleftrightarrow> (\<exists>i. sub_at h t i = Some p)"
proof
  assume "\<exists>i. sub_at h t i = Some p"
  then show "p \<in> set (snd (publish_snapshot now t payload h))"
    by (force simp: sub_at_def gm_get_def publish_snapshot_def dest: map_of_SomeD)
qed (rule snapshot_dest [OF assms])

lemma snapshot_distinct:
  assumes "hub_inv h"
  shows "distinct (snd (publish_snapshot now t payload h))"
proof -
  have g: "gm_inv (topic_subs h t)" using assms by (simp add: hub_inv_def topic_subs_inv)
  have "i = j" if "(i, p) \<in> set (topic_subs h t)" "(j, p) \<in> set (topic_subs h t)" for i j p
  proof -
    have "sub_at h t i = Some p" "sub_at h t j = Some p"
      using that g by (simp_all add: sub_at_def gm_get_def gm_inv_def)
    then show ?thesis using hub_invD [OF assms] by blast
  qed
  then have "inj_on snd (set (topic_subs h t))" by (auto simp: inj_on_def)
  moreover have "distinct (topic_subs h t)" using g by (simp add: gm_inv_def distinct_map)
  ultimately show ?thesis by (simp add: publish_snapshot_def distinct_map)
qed

lemma fold_send:
  assumes "distinct dest" "\<forall>p \<in> set dest. p < length (sub_heap h)"
  shows "subscribers (fold (publish_send evt) dest h) = subscribers h \<and>
    length (sub_heap (fold (publish_send evt) dest h)) = length (sub_heap h) \<and>
    sub_heap (fold (publish_send evt) dest h) ! q =
      (if q \<in> set dest \<and> length (Events (sub_heap h ! q)) < event_buffer
       then (sub_heap h ! q)\<lparr>Events := Events (sub_heap h ! q) @ [evt]\<rparr> else sub_heap h ! q)"
  using assms
proof (induction dest arbitrary: h)
  case (Cons p dest)
  then show ?case
    using Cons.IH [of "publish_send evt p h"] by (auto simp: sub_heap_send)
qed simp

lemma Publish_exact:
  assumes "hub_inv h" "evt = \<lparr>EvTopic = t, EvPayload = payload, EvTime = now\<rparr>"
  shows "subscribers (Publish now t payload h) = subscribers h"
    "length (sub_heap (Publish now t payload h)) = length (sub_heap h)"
    "sub_heap (Publish now t payload h) ! q =
      (if (\<exists>i. sub_at h t i = Some q) \<and> length (Events (sub_heap h ! q)) < event_buffer
       then (sub_heap h ! q)\<lparr>Events := Events (sub_heap h ! q) @ [evt]\<rparr> else sub_heap h ! q)"
proof -
  let ?d = "snd (publish_snapshot now t payload h)"
  have p: "Publish now t payload h = fold (publish_send evt) ?d h"
    by (simp add: Publish_def publish_snapshot_def assms(2))
  have "\<forall>p \<in> set ?d. p < length (sub_heap h)"
    using snapshot_dest_iff [OF assms(1)] assms(1) by (auto simp: hub_inv_def)
  note f = fold_send [OF snapshot_distinct [OF assms(1)] this]
  show "subscribers (Publish now t payload h) = subscribers h"
    "length (sub_heap (Publish now t payload h)) = length (sub_heap h)"
    "sub_heap (Publish now t payload h) ! q =
      (if (\<exists>i. sub_at h t i = Some q) \<and> length (Events (sub_heap h ! q)) < event_buffer
       then (sub_heap h ! q)\<lparr>Events := Events (sub_heap h ! q) @ [evt]\<rparr> else sub_heap h ! q)"
    unfolding p using f by (simp_all add: snapshot_dest_iff [OF assms(1)])
qed

text \<open>A publication that nobody interrupts is \<^verbatim>\<open>Publish\<close>: the snapshot and then the sends.\<close>

lemma sends_steps:
  "hub_step\<^sup>*\<^sup>* (h, ps @ [(evt, dest)]) (fold (publish_send evt) dest h, ps @ [(evt, [])])"
proof (induction dest arbitrary: h)
  case (Cons p dest)
  have "hub_step (h, ps @ [(evt, p # dest)]) (publish_send evt p h, ps @ [(evt, dest)])"
    using hub_step.send [of h ps evt "[]" p dest "[]"] by simp
  then show ?case using Cons.IH [of "publish_send evt p h"] by (simp add: converse_rtranclp_into_rtranclp)
qed simp

end
