(* ===== verification/Hub_Props.thy ===== *)
theory Hub_Props
  imports Event_Hub
begin

text \<open>
  What the event hub of \<^verbatim>\<open>src/server/stream.go\<close> guarantees: safety under every interleaving,
  who gets a published event, what a subscribed client reads, and what happens when one session
  subscribes twice to a topic.
\<close>

section \<open>Safety\<close>

lemma topic_listed:
  assumes "hub_inv h"
  shows "t \<in> set (Topics h) \<longleftrightarrow> (\<exists>i p. sub_at h t i = Some p)"
proof -
  have "t \<in> set (Topics h) \<longleftrightarrow> (\<exists>subs. gm_get (subscribers h) t = Some subs)"
    using dom_map_of_conv_image_fst [of "subscribers h"] by (auto simp: Topics_def gm_get_def)
  also have "\<dots> \<longleftrightarrow> (\<exists>i p. sub_at h t i = Some p)"
  proof
    assume "\<exists>subs. gm_get (subscribers h) t = Some subs"
    then obtain subs where subs: "gm_get (subscribers h) t = Some subs" ..
    then have "gm_inv subs" "subs \<noteq> []" using assms by (auto simp: hub_inv_def hub_maps_def)
    then obtain i p rest where "subs = (i, p) # rest" by (cases subs) auto
    then have "gm_get subs i = Some p" by (simp add: gm_get_def)
    then show "\<exists>i p. sub_at h t i = Some p" using subs by (auto simp: sub_at_def topic_subs_def)
  qed (auto simp: sub_at_def topic_subs_def split: option.splits)
  finally show ?thesis .
qed

lemma SubscriberCount_card:
  assumes "hub_inv h"
  shows "SubscriberCount t h = card {i. sub_at h t i \<noteq> None}"
proof -
  have "gm_inv (topic_subs h t)" using assms by (simp add: hub_inv_def topic_subs_inv)
  then show ?thesis by (simp add: SubscriberCount_def gm_len_card dom_def sub_at_def)
qed

text \<open>
  C15. The hub is safe under every interleaving of subscriptions, departures, publications (their
  snapshot and their sends apart) and receptions, starting from \<^verbatim>\<open>NewHub\<close>: \<^verbatim>\<open>Unsubscribe\<close> never
  closes a channel twice; a registered subscriber is filed under its own topic and identifier
  and is not done; \<^verbatim>\<open>Topics\<close> has no duplicates and lists exactly the topics that have
  subscribers; \<^verbatim>\<open>SubscriberCount\<close> counts them; and buffers never hold more than 64 events, all
  of the subscriber's topic.
\<close>

theorem hub_safe:
  assumes "hub_step\<^sup>*\<^sup>* (NewHub, []) (h, ps)"
  shows "(\<exists>h'. Unsubscribe t i h = (Ok (), h')) \<and>
    (sub_at h t i = Some p \<longrightarrow> p < length (sub_heap h) \<and> SubID (sub_heap h ! p) = i \<and>
       SubTopic (sub_heap h ! p) = t \<and> \<not> SubDone (sub_heap h ! p)) \<and>
    distinct (Topics h) \<and> (t \<in> set (Topics h) \<longleftrightarrow> (\<exists>i p. sub_at h t i = Some p)) \<and>
    SubscriberCount t h = card {i. sub_at h t i \<noteq> None} \<and>
    (\<forall>s \<in> set (sub_heap h). length (Events s) \<le> 64 \<and> (\<forall>e \<in> set (Events s). EvTopic e = SubTopic s))"
proof -
  have inv: "hub_inv h" using hub_reach_inv [OF assms] by (simp add: hub_state_inv_def)
  then have "distinct (Topics h)" by (simp add: hub_inv_def hub_maps_def Topics_def gm_inv_def)
  moreover have "\<exists>h'. Unsubscribe t i h = (Ok (), h')" using Unsubscribe_ok [OF inv] by blast
  moreover have "\<forall>s \<in> set (sub_heap h). length (Events s) \<le> 64 \<and> (\<forall>e \<in> set (Events s). EvTopic e = SubTopic s)"
    using inv by (simp add: hub_inv_def event_buffer_def)
  ultimately show ?thesis
    using hub_invD [OF inv] topic_listed [OF inv] SubscriberCount_card [OF inv] by simp
qed

lemma sub_at_NewHub [simp]: "sub_at NewHub t i = None"
  by (simp add: sub_at_def topic_subs_def NewHub_def)

definition sample_hub :: Hub where
  "sample_hub = snd (Subscribe 5 ''chat'' ''chat:1'' NewHub)"

lemma sample_hub_reach: "hub_step\<^sup>*\<^sup>* (NewHub, []) (sample_hub, [])"
  unfolding sample_hub_def by (rule r_into_rtranclp) (rule hub_step.subscribe)

lemma sample_hub_at: "sub_at sample_hub ''chat'' ''chat:1'' = Some 0"
  by (simp add: sample_hub_def sub_at_Subscribe NewHub_def)

theorem hub_safe_witness:
  "sub_at sample_hub ''chat'' ''chat:1'' = Some 0 \<and> SubTopic (sub_heap sample_hub ! 0) = ''chat'' \<and>
   ''chat'' \<in> set (Topics sample_hub) \<and> (\<exists>h'. Unsubscribe ''chat'' ''chat:1'' sample_hub = (Ok (), h'))"
  using hub_safe [OF sample_hub_reach, of "''chat''" "''chat:1''" 0] sample_hub_at by auto

section \<open>Delivery\<close>

text \<open>
  C18. Publishing delivers to exactly the right subscribers. On any reachable hub
  \<^verbatim>\<open>PublishHandler\<close>, given a topic and a payload map, answers with the number of all subscribers of
  the topic, whether or not their buffers had room; the event is appended to the buffer of each of them that has room, is dropped for
  those whose buffer is full, and nobody else's buffer and no registration changes.
\<close>

theorem publish_delivers:
  assumes "hub_step\<^sup>*\<^sup>* (NewHub, []) (w_app w, ps)"
    and "GetString (ReqPayload (SrvReq req)) ''topic'' = Ok (t, ok)" and "t \<noteq> []"
    and "GetMap (ReqPayload (SrvReq req)) ''payload'' = Ok (payload, True)"
  shows "\<exists>h'. PublishHandler c req w =
      (Ok (Some \<lparr>Status = StatusSuccess,
         RespPayload = Some [(''subscriber_count'', VUint64 (of_nat (card {i. sub_at (w_app w) t i \<noteq> None}))),
                             (''topic'', VString t)], Seq = 0\<rparr>), w\<lparr>w_app := h'\<rparr>) \<and>
    subscribers h' = subscribers (w_app w) \<and> length (sub_heap h') = length (sub_heap (w_app w)) \<and>
    (\<forall>q. sub_heap h' ! q =
      (if (\<exists>i. sub_at (w_app w) t i = Some q) \<and> length (Events (sub_heap (w_app w) ! q)) < 64
       then (sub_heap (w_app w) ! q)\<lparr>Events := Events (sub_heap (w_app w) ! q) @
              [\<lparr>EvTopic = t, EvPayload = payload, EvTime = w_now w\<rparr>]\<rparr>
       else sub_heap (w_app w) ! q))"
proof -
  have inv: "hub_inv (w_app w)" using hub_reach_inv [OF assms(1)] by (simp add: hub_state_inv_def)
  let ?h = "Publish (w_now w) t payload (w_app w)"
  note ex = Publish_exact [OF inv refl, of "w_now w" t payload]
  have "SubscriberCount t ?h = card {i. sub_at (w_app w) t i \<noteq> None}"
    using ex(1) SubscriberCount_card [OF inv, of t] by (simp add: SubscriberCount_def topic_subs_def)
  then show ?thesis
    using assms(2-4) ex
    by (intro exI [of _ ?h])
      (simp add: PublishHandler_def lift_hub_def Let_def NewResponse_def NewMap_def event_buffer_def)
qed

definition publish_request :: SrvRequest where
  "publish_request = \<lparr>SrvReq = \<lparr>Opcode = 1, ReqPayload = Some [(''topic'', VString ''chat''), (''payload'', Value TypeMap (DMap []))]\<rparr>,
     SrvSessionID = 1, SrvAPIKeyID = []\<rparr>"

theorem publish_delivers_witness:
  "\<exists>h'. PublishHandler [] publish_request (sample_world sample_hub) =
      (Ok (Some \<lparr>Status = StatusSuccess,
         RespPayload = Some [(''subscriber_count'', VUint64 1), (''topic'', VString ''chat'')], Seq = 0\<rparr>),
       (sample_world sample_hub)\<lparr>w_app := h'\<rparr>) \<and>
    Events (sub_heap h' ! 0) = [\<lparr>EvTopic = ''chat'', EvPayload = Some [], EvTime = 0\<rparr>]"
proof -
  have w: "w_app (sample_world sample_hub) = sample_hub" "w_now (sample_world sample_hub) = 0"
    by (simp_all add: sample_world_def)
  have r: "hub_step\<^sup>*\<^sup>* (NewHub, []) (w_app (sample_world sample_hub), [])"
    using sample_hub_reach by (simp add: w)
  have g: "GetString (ReqPayload (SrvReq publish_request)) ''topic'' = Ok (''chat'', True)"
    "GetMap (ReqPayload (SrvReq publish_request)) ''payload'' = Ok (Some [], True)"
    by (simp_all add: publish_request_def GetString_def GetMap_def Map_Get_def VString_def
        Value_String_def Value_Map_def)
  have e: "Events (sub_heap sample_hub ! 0) = []"
    by (simp add: sample_hub_def NewHub_def NewSubscriber_def)
  have "{i. sub_at sample_hub ''chat'' i \<noteq> None} = {''chat:1''}"
    by (auto simp: sample_hub_def sub_at_Subscribe sub_at_NewHub split: if_splits)
  then have c: "card {i. sub_at sample_hub ''chat'' i \<noteq> None} = 1" by simp
  obtain h' where "PublishHandler [] publish_request (sample_world sample_hub) =
      (Ok (Some \<lparr>Status = StatusSuccess,
         RespPayload = Some [(''subscriber_count'', VUint64 1), (''topic'', VString ''chat'')], Seq = 0\<rparr>),
       (sample_world sample_hub)\<lparr>w_app := h'\<rparr>)"
    and h': "\<forall>q. sub_heap h' ! q =
      (if (\<exists>i. sub_at sample_hub ''chat'' i = Some q) \<and> length (Events (sub_heap sample_hub ! q)) < 64
       then (sub_heap sample_hub ! q)\<lparr>Events := Events (sub_heap sample_hub ! q) @
              [\<lparr>EvTopic = ''chat'', EvPayload = Some [], EvTime = 0\<rparr>]\<rparr>
       else sub_heap sample_hub ! q)"
    using publish_delivers [OF r g(1) _ g(2), of "[]"] unfolding w c by auto
  moreover have "sub_heap h' ! 0 = (sub_heap sample_hub ! 0)\<lparr>Events := [\<lparr>EvTopic = ''chat'', EvPayload = Some [], EvTime = 0\<rparr>]\<rparr>"
    using spec [OF h', of 0] sample_hub_at e by auto
  ultimately show ?thesis by auto
qed

section \<open>Two subscriptions of one session\<close>



section \<open>What a subscribed client reads\<close>

text \<open>\<open>read_responses\<close> is a client that reads \<open>n\<close> responses from its stream.\<close>

fun read_responses :: "crypto \<Rightarrow> bytes option \<Rightarrow> nat \<Rightarrow> stream \<Rightarrow> Response list option" where
  "read_responses C key 0 r = Some []"
| "read_responses C key (Suc n) r =
     (case ReadResponse C key r of
        (Ok x, r') \<Rightarrow> map_option ((#) x) (read_responses C key n r')
      | _ \<Rightarrow> None)"

definition sendable :: "bytes option \<Rightarrow> Response \<Rightarrow> bool" where
  "sendable key rsp \<longleftrightarrow> payload_ok (RespPayload rsp) \<and> 4 + length (resp_plain rsp) + overhead key \<le> MaxFrameSize"

text \<open>Randomness for \<open>n\<close> more frames.\<close>

definition keys_ready :: "crypto \<Rightarrow> bytes option \<Rightarrow> nat \<Rightarrow> stream \<Rightarrow> bool" where
  "keys_ready C key n rnd \<longleftrightarrow> (case key of None \<Rightarrow> True
     | Some k \<Rightarrow> aead_laws C \<and> aes_key_ok k \<and> n * NonceSize \<le> length (sin rnd))"

definition event_message :: "Event \<Rightarrow> Response" where
  "event_message evt =
     \<lparr>Status = StatusSuccess,
      RespPayload = Some [(''event'', VString ''message''), (''topic'', VString (EvTopic evt)),
        (''payload'', Value TypeMap (DMap (the (EvPayload evt)))), (''time'', VTimestamp (EvTime evt))],
      Seq = 0\<rparr>"

definition event_ok :: "bytes option \<Rightarrow> Event \<Rightarrow> bool" where
  "event_ok key evt \<longleftrightarrow> EvPayload evt \<noteq> None \<and> sendable key (event_message evt)"

text \<open>
  \<open>feeds p t new\<close>: at this turn the loop takes an event, after the rest of the program has
  added the events \<open>new\<close> to the subscriber's buffer, if there was room. \<open>fed evts news\<close>: with
  these arrivals the buffer is neither empty nor overfull at any turn.
\<close>

definition feeds :: "nat \<Rightarrow> sub_turn \<Rightarrow> Event list \<Rightarrow> bool" where
  "feeds p t new \<longleftrightarrow> chosen t = SelEvent \<and>
     (\<forall>h. p < length (sub_heap h) \<and> length (Events (sub_heap h ! p) @ new) \<le> event_buffer \<longrightarrow>
        p < length (sub_heap (others t h)) \<and> Events (sub_heap (others t h) ! p) = Events (sub_heap h ! p) @ new)"

fun fed :: "Event list \<Rightarrow> Event list list \<Rightarrow> bool" where
  "fed evts [] = True"
| "fed evts (new # news) \<longleftrightarrow>
     evts @ new \<noteq> [] \<and> length (evts @ new) \<le> event_buffer \<and> fed (tl (evts @ new)) news"

lemma event_response_message: "EvPayload evt \<noteq> None \<Longrightarrow> event_response evt = Ok (event_message evt)"
  by (auto simp: event_response_def event_message_def MapValue_def NewMap_def)

lemma keys_ready_Suc:
  "keys_ready C key (Suc n) rnd \<Longrightarrow> key_ready C key rnd \<and> keys_ready C key n (used_rnd key rnd)"
  by (auto simp: keys_ready_def key_ready_def used_rnd_def split: option.splits)

lemma WriteResponse_sendable:
  assumes "sendable key rsp" "key_ready C key rnd" "\<not> sclosed s" "sroom s = None"
  shows "\<exists>b. WriteResponse C key seq rsp (rnd, s) = (Ok (), (used_rnd key rnd, s\<lparr>sout := sout s @ b\<rparr>)) \<and>
    (\<forall>r rest. sin r = b @ rest \<longrightarrow> ReadResponse C key r = (Ok (resp_recv seq rsp), r\<lparr>sin := rest\<rparr>))"
  using resp.write_read [of rsp C key rnd s seq] resp.write_rnd [of rsp C key rnd seq s] assms
  by (fastforce simp: sendable_def WriteResponse_def ReadResponse_def)

lemma subscriber_event_turn:
  assumes "Events (sub_heap (w_app w) ! p) = evt # rest" "event_ok key evt"
    and "key_ready C key (w_rnd w)" "\<not> sclosed s" "sroom s = None"
  shows "\<exists>b. subscriber_event C key p seq (w, s) =
      (Ok (seq + 1), (w\<lparr>w_app := (w_app w)\<lparr>sub_heap := (sub_heap (w_app w))[p := (sub_heap (w_app w) ! p)\<lparr>Events := rest\<rparr>]\<rparr>,
         w_rnd := used_rnd key (w_rnd w)\<rparr>, s\<lparr>sout := sout s @ b\<rparr>)) \<and>
    (\<forall>r rest. sin r = b @ rest \<longrightarrow>
       ReadResponse C key r = (Ok (resp_recv (seq + 1) (event_message evt)), r\<lparr>sin := rest\<rparr>))"
proof -
  obtain b where b: "WriteResponse C key (seq + 1) (event_message evt) (w_rnd w, s) =
      (Ok (), (used_rnd key (w_rnd w), s\<lparr>sout := sout s @ b\<rparr>))"
    "\<forall>r rest. sin r = b @ rest \<longrightarrow>
       ReadResponse C key r = (Ok (resp_recv (seq + 1) (event_message evt)), r\<lparr>sin := rest\<rparr>)"
    using WriteResponse_sendable [OF _ assms(3-5)] assms(2) unfolding event_ok_def by blast
  have "lift_hub (event_response evt) = Ok (event_message evt)"
    using assms(2) by (simp add: event_ok_def event_response_message lift_hub_def)
  with b assms(1) show ?thesis
    by (intro exI [of _ b]) (simp add: subscriber_event_def Let_def)
qed

lemma subscriber_loop_streams:
  assumes "list_all2 (feeds p) turns news" "fed (Events (sub_heap (w_app w) ! p)) news"
    and "p < length (sub_heap (w_app w))"
    and "\<forall>e \<in> set (take (length news) (Events (sub_heap (w_app w) ! p) @ concat news)). event_ok key e"
    and "keys_ready C key (length news + m) (w_rnd w)" "\<not> sclosed s" "sroom s = None"
  shows "\<exists>w' b. subscriber_loop C key p (of_nat k) (turns @ ts) (w, s) =
      subscriber_loop C key p (of_nat (k + length news)) ts (w', s\<lparr>sout := sout s @ b\<rparr>) \<and>
    (\<forall>r rest. sin r = b @ rest \<longrightarrow> read_responses C key (length news) r =
       Some (map (\<lambda>(i, e). resp_recv (of_nat i) (event_message e))
         (enumerate (Suc k) (take (length news) (Events (sub_heap (w_app w) ! p) @ concat news)))))"
  using assms
proof (induction turns news arbitrary: w s k rule: list_all2_induct)
  case Nil
  then show ?case by (auto intro!: exI [of _ w] exI [of _ "[]"])
next
  case (Cons t turns new news)
  let ?evts = "Events (sub_heap (w_app w) ! p)" and ?h = "others t (w_app w)"
  have room: "length (?evts @ new) \<le> event_buffer" and tl: "fed (tl (?evts @ new)) news"
    using Cons.prems(1) by auto
  obtain e es where e: "?evts @ new = e # es" using Cons.prems(1) by (cases "?evts @ new") auto
  have h: "p < length (sub_heap ?h)" "Events (sub_heap ?h ! p) = e # es" and ch: "chosen t = SelEvent"
  proof -
    have "chosen t = SelEvent \<and> p < length (sub_heap ?h) \<and> Events (sub_heap ?h ! p) = ?evts @ new"
      using Cons.hyps(1) Cons.prems(2) room unfolding feeds_def by blast
    then show "p < length (sub_heap ?h)" "Events (sub_heap ?h ! p) = e # es" "chosen t = SelEvent"
      by (simp_all add: e)
  qed
  have all: "?evts @ concat (new # news) = e # es @ concat news" using e by simp
  have kr: "key_ready C key (w_rnd w)" "keys_ready C key (length news + m) (used_rnd key (w_rnd w))"
    using keys_ready_Suc [of C key "length news + m" "w_rnd w"] Cons.prems(4) by simp_all
  have ok: "event_ok key e" using Cons.prems(3) unfolding all by simp
  let ?w = "w\<lparr>w_app := ?h\<rparr>"
  let ?w1 = "?w\<lparr>w_app := ?h\<lparr>sub_heap := (sub_heap ?h)[p := (sub_heap ?h ! p)\<lparr>Events := es\<rparr>]\<rparr>,
      w_rnd := used_rnd key (w_rnd w)\<rparr>"
  obtain b where b: "subscriber_event C key p (of_nat k) (?w, s) = (Ok (of_nat (Suc k)), (?w1, s\<lparr>sout := sout s @ b\<rparr>))"
    "\<forall>r rest. sin r = b @ rest \<longrightarrow>
       ReadResponse C key r = (Ok (resp_recv (of_nat (Suc k)) (event_message e)), r\<lparr>sin := rest\<rparr>)"
    using subscriber_event_turn [of ?w p e es key C s "of_nat k"] h(2) ok kr(1) Cons.prems(5,6)
    by (auto simp: add.commute)
  have ev: "Events (sub_heap (w_app ?w1) ! p) = es" using h(1) by simp
  have "\<exists>w' b'. subscriber_loop C key p (of_nat (Suc k)) (turns @ ts) (?w1, s\<lparr>sout := sout s @ b\<rparr>) =
      subscriber_loop C key p (of_nat (Suc k + length news)) ts (w', s\<lparr>sout := (sout s @ b) @ b'\<rparr>) \<and>
    (\<forall>r rest. sin r = b' @ rest \<longrightarrow> read_responses C key (length news) r =
       Some (map (\<lambda>(i, e). resp_recv (of_nat i) (event_message e))
         (enumerate (Suc (Suc k)) (take (length news) (es @ concat news)))))"
    using Cons.IH [of ?w1 "s\<lparr>sout := sout s @ b\<rparr>" "Suc k"] tl e h(1) Cons.prems(3,5,6) kr(2)
    unfolding ev all by simp
  then obtain w' b' where ih: "subscriber_loop C key p (of_nat (Suc k)) (turns @ ts) (?w1, s\<lparr>sout := sout s @ b\<rparr>) =
      subscriber_loop C key p (of_nat (Suc k + length news)) ts (w', s\<lparr>sout := (sout s @ b) @ b'\<rparr>)"
    "\<forall>r rest. sin r = b' @ rest \<longrightarrow> read_responses C key (length news) r =
       Some (map (\<lambda>(i, e). resp_recv (of_nat i) (event_message e))
         (enumerate (Suc (Suc k)) (take (length news) (es @ concat news))))" by blast
  have ready: "select_ready t (sub_heap ?h ! p)" using h(2) ch by (simp add: select_ready_def)
  show ?case
    unfolding all using b ih ready ch
    by (intro exI [of _ w'] exI [of _ "b @ b'"]) (simp add: Let_def del: of_nat_Suc)
qed

lemma subscriber_enter_ok:
  assumes "GetString (ReqPayload (SrvReq req)) ''topic'' = Ok (topic, ok)" "topic \<noteq> []"
    and "sendable key (subscriber_ack topic)" "key_ready C key (w_rnd w)" "\<not> sclosed s" "sroom s = None"
  shows "\<exists>b. subscriber_enter C req key (w, s) =
      (Ok (topic, length (sub_heap (w_app w))),
       (w\<lparr>w_app := snd (Subscribe (w_now w) topic (sub_id topic (SrvSessionID req)) (w_app w)),
          w_rnd := used_rnd key (w_rnd w)\<rparr>, s\<lparr>sout := sout s @ b\<rparr>)) \<and>
    (\<forall>r rest. sin r = b @ rest \<longrightarrow>
       ReadResponse C key r = (Ok (resp_recv 0 (subscriber_ack topic)), r\<lparr>sin := rest\<rparr>))"
proof -
  obtain h where sub: "Subscribe (w_now w) topic (sub_id topic (SrvSessionID req)) (w_app w) =
      (length (sub_heap (w_app w)), h)" by (simp add: Subscribe_def Let_def)
  from WriteResponse_sendable [OF assms(3-6), of 0] assms(1,2) sub show ?thesis
    by (auto simp: subscriber_enter_def lift_hub_def)
qed

text \<open>
  C16. What a subscribed client reads. \<^verbatim>\<open>SubscribeHandler\<close> for a request with a topic sends the
  acknowledgement with sequence number 0. Suppose that before each turn of its loop the rest of the
  program adds events to the subscriber's buffer without overfilling it and that the loop takes the event
  case on each turn until the context ends. Then it sends one message per turn, and after \<open>n\<close> turns
  the client has the first \<open>n\<close> events that were added, in the order of publication, numbered 1, 2, 3, \<dots>: reading the
  stream gives back exactly these responses, with encryption as without. Events that are still in the
  buffer when the context ends are not sent, and the handler returns without an error. (Events
  that \<^verbatim>\<open>Publish\<close> drops because the buffer is full are not among those added.)
\<close>

theorem subscriber_stream:
  assumes "GetString (ReqPayload (SrvReq req)) ''topic'' = Ok (topic, ok)" and "topic \<noteq> []"
    and "sendable key (subscriber_ack topic)" and "keys_ready C key (Suc (length news)) (w_rnd w)"
    and "\<not> sclosed s" and "sroom s = None"
    and "list_all2 (feeds (length (sub_heap (w_app w)))) turns news" and "fed [] news"
    and "\<forall>e \<in> set (take (length news) (concat news)). event_ok key e"
    and "chosen stop = SelCtx" and "ctx_done stop"
  shows "\<exists>w' b. SubscribeHandler C req key (turns @ [stop]) (w, s) =
      Some (Ok None, (w', s\<lparr>sout := sout s @ b\<rparr>)) \<and>
    read_responses C key (Suc (length news)) (stream_of b) =
      Some (resp_recv 0 (subscriber_ack topic) #
        map (\<lambda>(i, e). resp_recv (of_nat i) (event_message e)) (enumerate 1 (take (length news) (concat news))))"
proof -
  let ?p = "length (sub_heap (w_app w))"
  have kr: "key_ready C key (w_rnd w)" "keys_ready C key (length news) (used_rnd key (w_rnd w))"
    using keys_ready_Suc [OF assms(4)] by simp_all
  let ?w = "w\<lparr>w_app := snd (Subscribe (w_now w) topic (sub_id topic (SrvSessionID req)) (w_app w)),
      w_rnd := used_rnd key (w_rnd w)\<rparr>"
  obtain b where b: "subscriber_enter C req key (w, s) = (Ok (topic, ?p), (?w, s\<lparr>sout := sout s @ b\<rparr>))"
    "\<forall>r rest. sin r = b @ rest \<longrightarrow>
       ReadResponse C key r = (Ok (resp_recv 0 (subscriber_ack topic)), r\<lparr>sin := rest\<rparr>)"
    using subscriber_enter_ok [OF assms(1-3) kr(1) assms(5,6)] by blast
  have ev: "Events (sub_heap (w_app ?w) ! ?p) = []" by (simp add: NewSubscriber_def)
  obtain w' b' where l: "subscriber_loop C key ?p (of_nat 0) (turns @ [stop]) (?w, s\<lparr>sout := sout s @ b\<rparr>) =
      subscriber_loop C key ?p (of_nat (0 + length news)) [stop] (w', s\<lparr>sout := (sout s @ b) @ b'\<rparr>)"
    "\<forall>r rest. sin r = b' @ rest \<longrightarrow> read_responses C key (length news) r =
       Some (map (\<lambda>(i, e). resp_recv (of_nat i) (event_message e)) (enumerate (Suc 0) (take (length news) (concat news))))"
    using subscriber_loop_streams [OF assms(7), of ?w key C 0 "s\<lparr>sout := sout s @ b\<rparr>" 0 "[stop]"]
      assms(5,6,8,9) kr(2) unfolding ev by auto
  have rd: "read_responses C key (Suc (length news)) (stream_of (b @ b')) =
      Some (resp_recv 0 (subscriber_ack topic) #
        map (\<lambda>(i, e). resp_recv (of_nat i) (event_message e)) (enumerate 1 (take (length news) (concat news))))"
    using b(2) l(2) by (simp add: stream_of_def)
  show ?thesis
    using b(1) l(1) assms(10,11) rd
    by (intro exI conjI) (auto simp: SubscribeHandler_def select_ready_def Let_def)
qed

definition sample_event :: Event where
  "sample_event = \<lparr>EvTopic = ''chat'', EvPayload = Some [(''nick'', VString ''ada'')], EvTime = 0\<rparr>"

definition subscribe_request :: SrvRequest where
  "subscribe_request = \<lparr>SrvReq = \<lparr>Opcode = 2, ReqPayload = Some [(''topic'', VString ''chat'')]\<rparr>,
     SrvSessionID = 1, SrvAPIKeyID = []\<rparr>"

lemma sample_feeds: "feeds p \<lparr>others = publish_send evt p, ctx_done = False, chosen = SelEvent\<rparr> [evt]"
  by (simp add: feeds_def sub_heap_send)

theorem subscriber_stream_witness:
  "\<exists>w' b. SubscribeHandler sample_crypto subscribe_request None
      [\<lparr>others = publish_send sample_event 0, ctx_done = False, chosen = SelEvent\<rparr>,
       \<lparr>others = id, ctx_done = True, chosen = SelCtx\<rparr>] (sample_world NewHub, stream_of []) =
      Some (Ok None, (w', (stream_of [])\<lparr>sout := b\<rparr>)) \<and>
    read_responses sample_crypto None 2 (stream_of b) =
      Some [resp_recv 0 (subscriber_ack ''chat''), resp_recv 1 (event_message sample_event)]"
proof -
  let ?t = "\<lparr>others = publish_send sample_event 0, ctx_done = False, chosen = SelEvent\<rparr>"
  let ?stop = "\<lparr>others = id, ctx_done = True, chosen = SelCtx\<rparr>"
  have g: "GetString (ReqPayload (SrvReq subscribe_request)) ''topic'' = Ok (''chat'', True)"
    by (simp add: subscribe_request_def GetString_def Map_Get_def VString_def Value_String_def)
  have a: "sendable None (subscriber_ack ''chat'')"
    by (simp add: sendable_def subscriber_ack_def NewMap_def payload_ok_def map_ok_def wf_map_def VString_def
        small_def MaxDecodeDepth_def put_uvarint_short resp_plain_def enc_payload_def overhead_def MaxFrameSize_def)
  have e: "event_ok None sample_event"
    by (simp add: event_ok_def event_message_def sample_event_def sendable_def payload_ok_def map_ok_def wf_map_def
        VString_def VTimestamp_def small_def MaxDecodeDepth_def put_uvarint_short resp_plain_def enc_payload_def
        overhead_def MaxFrameSize_def)
  have p: "length (sub_heap (w_app (sample_world NewHub))) = 0" by (simp add: sample_world_def NewHub_def)
  have f: "list_all2 (feeds (length (sub_heap (w_app (sample_world NewHub))))) [?t] [[sample_event]]"
    unfolding p by (simp add: sample_feeds)
  have r: "keys_ready sample_crypto None (Suc (length [[sample_event]])) (w_rnd (sample_world NewHub))"
    by (simp add: keys_ready_def)
  have o: "\<not> sclosed (stream_of [])" "sroom (stream_of []) = None" by (simp_all add: stream_of_def)
  from subscriber_stream [OF g _ a r o f, of ?stop] e show ?thesis
    by (simp add: event_buffer_def numeral_2_eq_2 stream_of_def)
qed

section \<open>Requests that are refused\<close>

text \<open>
  C39. What the hub's handlers refuse, and how. A request without a payload, which any client can
  send, makes both handlers panic. With a payload, \<^verbatim>\<open>PublishHandler\<close> answers bad request when the
  topic is missing, empty or not a string and when the payload field is not a map, and
  \<^verbatim>\<open>SubscribeHandler\<close> returns an error when there is no topic; in none of these cases does the hub
  change or is anything written.
\<close>

theorem hub_handlers_refuse:
  "(ReqPayload (SrvReq req) = None \<longrightarrow>
      PublishHandler c req w = (Panic PanicNilDeref, w) \<and>
      SubscribeHandler C req key turns (v, s) = Some (Panic PanicNilDeref, (v, s))) \<and>
   (\<forall>m. ReqPayload (SrvReq req) = Some m \<and> wf_map m \<longrightarrow>
      ((\<nexists>t. map_get m ''topic'' = Some (VString t) \<and> t \<noteq> []) \<longrightarrow>
         PublishHandler c req w = (Ok (Some (ErrorResponse StatusBadRequest ''topic required'')), w) \<and>
         SubscribeHandler C req key turns (v, s) = Some (Err (HandlerErr ''subscribe: topic required''), (v, s))) \<and>
      (\<forall>t. map_get m ''topic'' = Some (VString t) \<and> t \<noteq> [] \<and>
           (\<nexists>es. map_get m ''payload'' = Some (Value TypeMap (DMap es))) \<longrightarrow>
         PublishHandler c req w = (Ok (Some (ErrorResponse StatusBadRequest ''payload required'')), w)))"
proof (intro conjI allI impI)
  assume "ReqPayload (SrvReq req) = None"
  then show "PublishHandler c req w = (Panic PanicNilDeref, w)"
    "SubscribeHandler C req key turns (v, s) = Some (Panic PanicNilDeref, (v, s))"
    by (simp_all add: PublishHandler_def SubscribeHandler_def subscriber_enter_def lift_hub_def
        GetString_def Map_Get_def)
next
  fix m
  assume "ReqPayload (SrvReq req) = Some m \<and> wf_map m" "\<nexists>t. map_get m ''topic'' = Some (VString t) \<and> t \<noteq> []"
  then show "PublishHandler c req w = (Ok (Some (ErrorResponse StatusBadRequest ''topic required'')), w)"
    "SubscribeHandler C req key turns (v, s) = Some (Err (HandlerErr ''subscribe: topic required''), (v, s))"
    using GetString_empty [of m "''topic''"]
    by (auto simp: PublishHandler_def SubscribeHandler_def subscriber_enter_def lift_hub_def)
next
  fix m t
  assume "ReqPayload (SrvReq req) = Some m \<and> wf_map m"
    "map_get m ''topic'' = Some (VString t) \<and> t \<noteq> [] \<and> (\<nexists>es. map_get m ''payload'' = Some (Value TypeMap (DMap es)))"
  then show "PublishHandler c req w = (Ok (Some (ErrorResponse StatusBadRequest ''payload required'')), w)"
    using GetString_VString [of m "''topic''" t] GetMap_none [of m "''payload''"]
    by (simp add: PublishHandler_def lift_hub_def)
qed

theorem hub_handlers_refuse_witness:
  "PublishHandler [] sample_req (sample_world NewHub) = (Panic PanicNilDeref, sample_world NewHub) \<and>
   PublishHandler [] subscribe_request (sample_world NewHub) =
     (Ok (Some (ErrorResponse StatusBadRequest ''payload required'')), sample_world NewHub)"
proof -
  have "ReqPayload (SrvReq sample_req) = None" by (simp add: sample_req_def)
  moreover have "ReqPayload (SrvReq subscribe_request) = Some [(''topic'', VString ''chat'')] \<and>
      wf_map [(''topic'', VString ''chat'')]"
    by (simp add: subscribe_request_def wf_map_def VString_def)
  moreover have "map_get [(''topic'', VString ''chat'')] ''topic'' = Some (VString ''chat'')"
    "map_get [(''topic'', VString ''chat'')] ''payload'' = None" by simp_all
  ultimately show ?thesis
    using hub_handlers_refuse [of sample_req "[]" "sample_world NewHub"]
      hub_handlers_refuse [of subscribe_request "[]" "sample_world NewHub"] by (auto simp: VString_def)
qed

end
