(* ===== verification/Example_Notes.thy ===== *)
theory Example_Notes
  imports Server_Run
begin

text \<open>
  The notes server of \<^verbatim>\<open>src/examples/crud/main.go\<close>: five handlers on an in-memory table, as an
  application on top of the server's handler interface. Ranging over a Go map has no fixed
  order; the model takes the order of the table, and no theorem depends on it.
\<close>

section \<open>State and handlers\<close>

record Notes =
  notes_tab :: "(u64, string) gomap"
  nextID :: u64

definition NoNotes :: Notes where
  "NoNotes = \<lparr>notes_tab = [], nextID = 1\<rparr>"

text \<open>A payload getter used by a handler: its panic is the handler's.\<close>

definition getter :: "(tlv_err, 'b) result \<Rightarrow> 'a world \<Rightarrow> (handler_err, 'b) result \<times> 'a world" where
  "getter r w = (map_err (\<lambda>_. HandlerErr []) r, w)"

definition respond :: "Response \<Rightarrow> 'a world \<Rightarrow> (handler_err, Response option) result \<times> 'a world" where
  "respond r w = (Ok (Some r), w)"

definition notes_create :: "Notes hfun" where
  "notes_create c req w =
     sbind (getter (GetString (ReqPayload (SrvReq req)) ''text'') w) (\<lambda>(text, _) w.
       if text = [] then respond (ErrorResponse StatusBadRequest ''text required'') w
       else
         let i = nextID (w_app w);
             st = (w_app w)\<lparr>nextID := nextID (w_app w) + 1\<rparr>;
             st = st\<lparr>notes_tab := gm_set i text (notes_tab st)\<rparr>
         in respond (NewResponse (Some (map_set NewMap ''id'' (VUint64 i)))) (w\<lparr>w_app := st\<rparr>))"

definition note_entry :: "u64 \<times> string \<Rightarrow> Value" where
  "note_entry e = (case e of (i, text) \<Rightarrow>
     Value TypeMap (DMap (map_set (map_set NewMap ''id'' (VUint64 i)) ''text'' (VString text))))"

definition notes_list :: "Notes hfun" where
  "notes_list c req w =
     (let arr = map note_entry (notes_tab (w_app w))
      in respond (NewResponse (Some (map_set (map_set NewMap ''notes'' (VArray arr))
           ''count'' (VUint64 (of_nat (length arr)))))) w)"

definition notes_get :: "Notes hfun" where
  "notes_get c req w =
     sbind (getter (GetUint64 (ReqPayload (SrvReq req)) ''id'') w) (\<lambda>(i, _) w.
       if i = 0 then respond (ErrorResponse StatusBadRequest ''id required'') w
       else case gm_get (notes_tab (w_app w)) i of
         None \<Rightarrow> respond (ErrorResponse StatusNotFound ''note not found'') w
       | Some text \<Rightarrow>
           respond (NewResponse (Some (map_set (map_set NewMap ''id'' (VUint64 i)) ''text'' (VString text)))) w)"

definition notes_update :: "Notes hfun" where
  "notes_update c req w =
     sbind (getter (GetUint64 (ReqPayload (SrvReq req)) ''id'') w) (\<lambda>(i, _) w.
       if i = 0 then respond (ErrorResponse StatusBadRequest ''id required'') w
       else
         sbind (getter (GetString (ReqPayload (SrvReq req)) ''text'') w) (\<lambda>(text, _) w.
           if text = [] then respond (ErrorResponse StatusBadRequest ''text required'') w
           else case gm_get (notes_tab (w_app w)) i of
             None \<Rightarrow> respond (ErrorResponse StatusNotFound ''note not found'') w
           | Some _ \<Rightarrow>
               respond (NewResponse (Some (map_set (map_set NewMap ''id'' (VUint64 i)) ''updated'' (VBool True))))
                 (w\<lparr>w_app := (w_app w)\<lparr>notes_tab := gm_set i text (notes_tab (w_app w))\<rparr>\<rparr>)))"

definition notes_delete :: "Notes hfun" where
  "notes_delete c req w =
     sbind (getter (GetUint64 (ReqPayload (SrvReq req)) ''id'') w) (\<lambda>(i, _) w.
       if i = 0 then respond (ErrorResponse StatusBadRequest ''id required'') w
       else
         let ok = gm_get (notes_tab (w_app w)) i \<noteq> None
         in respond (NewResponse (Some (map_set NewMap ''deleted'' (VBool ok))))
              (w\<lparr>w_app := (w_app w)\<lparr>notes_tab := gm_delete i (notes_tab (w_app w))\<rparr>\<rparr>))"

definition notes_routes :: "Notes Server \<Rightarrow> Notes Server" where
  "notes_routes srv =
     HandleFunc 5 notes_delete (HandleFunc 4 notes_update (HandleFunc 3 notes_get
       (HandleFunc 2 notes_list (HandleFunc 1 notes_create srv))))"

section \<open>Specification\<close>

text \<open>The service as commands on a finite map and a counter, without the wire format.\<close>

datatype note_cmd = NCreate string | NList | NGet u64 | NUpdate u64 string | NDelete u64

datatype note_reply =
    RId u64 | RNotes "(u64 \<times> string) set" nat | RNote u64 string | RUpdated u64 | RDeleted bool
  | RBadRequest | RNotFound

type_synonym note_state = "(u64 \<rightharpoonup> string) \<times> u64"

fun note_spec :: "note_cmd \<Rightarrow> note_state \<Rightarrow> note_reply \<times> note_state" where
  "note_spec (NCreate text) (m, n) =
     (if text = [] then (RBadRequest, (m, n)) else (RId n, (m(n \<mapsto> text), n + 1)))"
| "note_spec NList (m, n) = (RNotes {(i, t). m i = Some t} (card (dom m)), (m, n))"
| "note_spec (NGet i) (m, n) =
     (if i = 0 then (RBadRequest, (m, n))
      else case m i of None \<Rightarrow> (RNotFound, (m, n)) | Some t \<Rightarrow> (RNote i t, (m, n)))"
| "note_spec (NUpdate i text) (m, n) =
     (if i = 0 \<or> text = [] then (RBadRequest, (m, n))
      else if m i = None then (RNotFound, (m, n)) else (RUpdated i, (m(i \<mapsto> text), n)))"
| "note_spec (NDelete i) (m, n) =
     (if i = 0 then (RBadRequest, (m, n)) else (RDeleted (m i \<noteq> None), (m(i := None), n)))"

text \<open>How a client sends a command, and how a response is understood.\<close>

fun note_request :: "note_cmd \<Rightarrow> u16 \<times> tlv_map" where
  "note_request (NCreate text) = (1, [(''text'', VString text)])"
| "note_request NList = (2, [])"
| "note_request (NGet i) = (3, [(''id'', VUint64 i)])"
| "note_request (NUpdate i text) = (4, [(''id'', VUint64 i), (''text'', VString text)])"
| "note_request (NDelete i) = (5, [(''id'', VUint64 i)])"

fun note_response :: "note_reply \<Rightarrow> Response \<Rightarrow> bool" where
  "note_response (RId i) r \<longleftrightarrow> Status r = StatusSuccess \<and> RespPayload r = Some [(''id'', VUint64 i)]"
| "note_response (RNotes s n) r \<longleftrightarrow> Status r = StatusSuccess \<and>
     (\<exists>es. RespPayload r = Some [(''notes'', VArray (map note_entry es)), (''count'', VUint64 (of_nat n))] \<and>
        distinct es \<and> set es = s \<and> length es = n)"
| "note_response (RNote i t) r \<longleftrightarrow> Status r = StatusSuccess \<and>
     RespPayload r = Some [(''id'', VUint64 i), (''text'', VString t)]"
| "note_response (RUpdated i) r \<longleftrightarrow> Status r = StatusSuccess \<and>
     RespPayload r = Some [(''id'', VUint64 i), (''updated'', VBool True)]"
| "note_response (RDeleted b) r \<longleftrightarrow> Status r = StatusSuccess \<and> RespPayload r = Some [(''deleted'', VBool b)]"
| "note_response RBadRequest r \<longleftrightarrow> Status r = StatusBadRequest"
| "note_response RNotFound r \<longleftrightarrow> Status r = StatusNotFound"

definition notes_abs :: "Notes \<Rightarrow> note_state" where
  "notes_abs st = (gm_get (notes_tab st), nextID st)"

definition notes_handler :: "u16 \<Rightarrow> Notes hfun" where
  "notes_handler op =
     (if op = 1 then notes_create else if op = 2 then notes_list else if op = 3 then notes_get
      else if op = 4 then notes_update else notes_delete)"

section \<open>Refinement\<close>

lemma getter_fields [simp]:
  "getter (GetString (Some ((''text'', VString t) # m)) ''text'') w = (Ok (t, True), w)"
  "getter (GetString (Some [(''id'', VUint64 i), (''text'', VString t)]) ''text'') w = (Ok (t, True), w)"
  "getter (GetUint64 (Some ((''id'', VUint64 i) # m)) ''id'') w = (Ok (i, True), w)"
  by (simp_all add: getter_def GetString_def GetUint64_def Map_Get_def VString_def VUint64_def
      Value_String_def Value_Uint64_def)

lemma gm_list:
  assumes "gm_inv m"
  shows "distinct m" "set m = {(i, t). gm_get m i = Some t}" "length m = card (dom (gm_get m))"
  using assms gm_len_card [OF assms]
  by (auto simp: gm_inv_def gm_get_def gm_len_def distinct_map dest: map_of_SomeD)

lemmas notes_handlers = notes_create_def notes_list_def notes_get_def notes_update_def notes_delete_def

lemma notes_refine:
  assumes "gm_inv (notes_tab (w_app w))" "note_request cmd = (op, payload)"
    and "ReqPayload (SrvReq req) = Some payload" "note_spec cmd (notes_abs (w_app w)) = (reply, st)"
  shows "\<exists>resp w'. notes_handler op c req w = (Ok (Some resp), w') \<and> note_response reply resp \<and>
    notes_abs (w_app w') = st \<and> gm_inv (notes_tab (w_app w')) \<and> w' = w\<lparr>w_app := w_app w'\<rparr>"
  using assms gm_list [OF assms(1)]
  by (cases cmd)
    (auto simp: notes_handler_def notes_handlers Let_def respond_def NewResponse_def ErrorResponse_def NewMap_def
      notes_abs_def gm.get_put gm.get_del gm.inv_put gm.inv_del split: if_splits option.splits)

lemma notes_routed:
  assumes "note_request cmd = (op, payload)" "middlewares srv = []"
  shows "gm_get (srv_handlers (notes_routes srv)) op = Some (HandlerFunc (notes_handler op))"
  using assms by (cases cmd) (auto simp: notes_routes_def HandleFunc_def notes_handler_def gm.get_put)

text \<open>
  C17. The notes server is a finite map. For every command sent to the opcode it is documented
  under, the handler answers and never fails or panics; the response is the one that the
  specification gives (identifiers, texts, the whole list in some order with its count, not found,
  bad request), and the server's table and counter afterwards are those of the specification.
\<close>

theorem notes_refine_map:
  assumes "gm_inv (notes_tab (w_app w))" and "note_request cmd = (op, payload)"
    and "ReqPayload (SrvReq req) = Some payload" and "middlewares srv = []"
    and "note_spec cmd (notes_abs (w_app w)) = (reply, st)"
  shows "\<exists>h resp w'. gm_get (srv_handlers (notes_routes srv)) op = Some h \<and>
    HandleHush h c req w = (Ok (Some resp), w') \<and> note_response reply resp \<and>
    notes_abs (w_app w') = st \<and> gm_inv (notes_tab (w_app w')) \<and> w' = w\<lparr>w_app := w_app w'\<rparr>"
  using notes_refine [OF assms(1-3,5), of c] notes_routed [OF assms(2,4)] by (auto simp: HandlerFunc_def)

section \<open>Notes are kept\<close>

text \<open>A session of commands: each is handled in turn.\<close>

definition note_req :: "note_cmd \<Rightarrow> SrvRequest" where
  "note_req cmd = (case note_request cmd of (op, payload) \<Rightarrow>
     \<lparr>SrvReq = \<lparr>Opcode = op, ReqPayload = Some payload\<rparr>, SrvSessionID = 1, SrvAPIKeyID = []\<rparr>)"

definition handle_note :: "note_cmd \<Rightarrow> Notes world \<Rightarrow> (handler_err, Response option) result \<times> Notes world" where
  "handle_note cmd w = notes_handler (fst (note_request cmd)) [] (note_req cmd) w"

definition handle_notes :: "note_cmd list \<Rightarrow> Notes world \<Rightarrow> Notes world" where
  "handle_notes cmds w = fold (\<lambda>cmd w. snd (handle_note cmd w)) cmds w"

abbreviation spec_run :: "note_cmd list \<Rightarrow> note_state \<Rightarrow> note_state" where
  "spec_run \<equiv> fold (\<lambda>cmd st. snd (note_spec cmd st))"

lemma handle_note_refines:
  assumes "gm_inv (notes_tab (w_app w))"
  shows "\<exists>resp w'. handle_note cmd w = (Ok (Some resp), w') \<and>
    note_response (fst (note_spec cmd (notes_abs (w_app w)))) resp \<and>
    notes_abs (w_app w') = snd (note_spec cmd (notes_abs (w_app w))) \<and> gm_inv (notes_tab (w_app w'))"
proof -
  obtain op payload where r: "note_request cmd = (op, payload)" by fastforce
  obtain reply st where sp: "note_spec cmd (notes_abs (w_app w)) = (reply, st)" by (rule prod.exhaust)
  have "ReqPayload (SrvReq (note_req cmd)) = Some payload" by (simp add: note_req_def r)
  from notes_refine [OF assms r this sp, of "[]"] show ?thesis
    by (auto simp: handle_note_def r sp)
qed

interpretation table: functional_refinement "\<lambda>cmd w. snd (handle_note cmd w)" "\<lambda>cmd st. snd (note_spec cmd st)"
  "\<lambda>w. notes_abs (w_app w)" "\<lambda>w. gm_inv (notes_tab (w_app w))"
proof
  fix w :: "Notes world" and cmd
  assume "gm_inv (notes_tab (w_app w))"
  from handle_note_refines [OF this, of cmd]
  show "notes_abs (w_app (snd (handle_note cmd w))) = snd (note_spec cmd (notes_abs (w_app w)))"
    "gm_inv (notes_tab (w_app (snd (handle_note cmd w))))" by auto
qed

definition below_next :: "note_state \<Rightarrow> bool" where
  "below_next st \<longleftrightarrow> 0 < snd st \<and> (\<forall>i \<in> dom (fst st). i < snd st)"

lemma spec_step:
  assumes "below_next (m, n)" "unat n + 1 < 2 ^ 64" "note_spec cmd (m, n) = (r, (m', n'))"
  shows "below_next (m', n') \<and> n \<le> n' \<and> unat n' \<le> unat n + 1"
proof -
  have n1: "unat (n + 1) = unat n + 1" using unat_plus_if' [of n 1] assms(2) by simp
  then have "n < n + 1" "n \<le> n + 1" by (simp_all add: word_less_nat_alt word_le_nat_alt)
  with assms n1 show ?thesis
    by (cases cmd) (auto simp: below_next_def split: if_splits option.splits dest: order_less_trans)
qed

lemma spec_run_below:
  "below_next st \<Longrightarrow> unat (snd st) + length cmds < 2 ^ 64 \<Longrightarrow>
   below_next (spec_run cmds st) \<and> unat (snd (spec_run cmds st)) \<le> unat (snd st) + length cmds"
proof (induction cmds arbitrary: st)
  case (Cons cmd cmds)
  obtain m n where st: "st = (m, n)" by fastforce
  obtain r m' n' where sp: "note_spec cmd (m, n) = (r, (m', n'))" by (metis surj_pair)
  have "below_next (m', n')" "unat n' \<le> unat n + 1"
    using spec_step [OF _ _ sp] Cons.prems st by auto
  then show ?case using Cons.IH [of "(m', n')"] Cons.prems(2) st sp by auto
qed simp

lemma spec_run_keeps:
  "below_next st \<Longrightarrow> unat (snd st) + length cmds < 2 ^ 64 \<Longrightarrow> fst st i = Some t \<Longrightarrow>
   \<forall>cmd \<in> set cmds. cmd \<noteq> NDelete i \<and> (\<forall>x. cmd \<noteq> NUpdate i x) \<Longrightarrow> fst (spec_run cmds st) i = Some t"
proof (induction cmds arbitrary: st)
  case (Cons cmd cmds)
  obtain m n where st: "st = (m, n)" by fastforce
  obtain r m' n' where sp: "note_spec cmd (m, n) = (r, (m', n'))" by (metis surj_pair)
  have b: "below_next (m', n')" "unat n' \<le> unat n + 1"
    using spec_step [OF _ _ sp] Cons.prems st by auto
  have "i < n" using Cons.prems(1,3) st by (auto simp: below_next_def)
  then have "m' i = Some t"
    using sp Cons.prems(3,4) st by (cases cmd) (auto split: if_splits option.splits)
  then show ?case using Cons.IH [of "(m', n')"] Cons.prems(2,4) b st sp by auto
qed simp

text \<open>
  A note once created is kept. Starting from the empty server, after any commands, creating a
  note with a text gives an identifier that no note has, and after any further commands that
  neither update nor delete that note, getting the identifier returns the text; as long as fewer
  than \<open>2 ^ 64 - 1\<close> commands are handled in all, so that the counter does not wrap around.
\<close>

theorem note_kept:
  assumes "w_app w = NoNotes" and "length before + length after + 2 < 2 ^ 64" and "text \<noteq> []"
    and "handle_note (NCreate text) (handle_notes before w) = (Ok (Some resp), w1)"
    and "note_response (RId i) resp"
    and "\<forall>cmd \<in> set after. cmd \<noteq> NDelete i \<and> (\<forall>x. cmd \<noteq> NUpdate i x)"
  shows "gm_get (notes_tab (w_app (handle_notes before w))) i = None \<and>
    (\<exists>resp' w2. handle_note (NGet i) (handle_notes after w1) = (Ok (Some resp'), w2) \<and>
       note_response (RNote i text) resp')"
proof -
  let ?w = "handle_notes before w"
  obtain m n where a: "notes_abs (w_app ?w) = (m, n)" by fastforce
  have init: "notes_abs (w_app w) = (Map.empty, 1)" "gm_inv (notes_tab (w_app w))" "below_next (Map.empty, 1)"
    by (simp_all add: assms(1) NoNotes_def notes_abs_def gm_get_def gm_inv_def below_next_def fun_eq_iff)
  have b: "spec_run before (Map.empty, 1) = (m, n)" "gm_inv (notes_tab (w_app ?w))"
    using table.run_refines [OF init(2), of before] table.run_inv [OF init(2), of before] a init(1)
    by (simp_all add: handle_notes_def)
  have bn: "below_next (m, n)" "unat n \<le> 1 + length before"
    using spec_run_below [OF init(3), of before] b(1) assms(2) by simp_all
  have c: "note_response (RId n) resp" "notes_abs (w_app w1) = (m(n \<mapsto> text), n + 1)" "gm_inv (notes_tab (w_app w1))"
    using handle_note_refines [OF b(2), of "NCreate text"] assms(3,4) a by auto
  have i: "i = n" using c(1) assms(5) by (simp add: VUint64_def)
  have fresh: "m n = None" using bn(1) by (auto simp: below_next_def domIff)
  have step: "below_next (m(n \<mapsto> text), n + 1)" "unat (n + 1) \<le> unat n + 1"
    using spec_step [of m n "NCreate text" "RId n"] bn assms(2,3) by simp_all
  let ?w2 = "handle_notes after w1"
  have "notes_abs (w_app ?w2) = spec_run after (m(n \<mapsto> text), n + 1)" and g: "gm_inv (notes_tab (w_app ?w2))"
    using table.run_refines [OF c(3), of after] table.run_inv [OF c(3), of after] c(2)
    by (simp_all add: handle_notes_def)
  moreover have "fst (spec_run after (m(n \<mapsto> text), n + 1)) n = Some text"
    using step bn(2) assms(2,6) i by (intro spec_run_keeps) auto
  ultimately obtain m' n' where "notes_abs (w_app ?w2) = (m', n')" "m' n = Some text"
    by (metis fst_conv surj_pair)
  moreover have "n \<noteq> 0" using bn(1) by (auto simp: below_next_def)
  ultimately have "note_spec (NGet n) (notes_abs (w_app ?w2)) = (RNote n text, (m', n'))" by simp
  then have "\<exists>resp' w2. handle_note (NGet n) ?w2 = (Ok (Some resp'), w2) \<and> note_response (RNote n text) resp'"
    using handle_note_refines [OF g, of "NGet n"] by (metis fst_conv)
  then show ?thesis using fresh a i by (simp add: notes_abs_def)
qed

lemma sample_world_app [simp]: "w_app (sample_world a) = a"
  by (simp add: sample_world_def)

theorem note_kept_witness:
  "\<exists>resp w1 resp' w2.
     handle_note (NCreate ''call mom'') (handle_notes [NCreate ''buy milk''] (sample_world NoNotes)) = (Ok (Some resp), w1) \<and>
     handle_note (NGet 2) (handle_notes [NDelete 1, NCreate ''fix the bug''] w1) = (Ok (Some resp'), w2) \<and>
     note_response (RNote 2 ''call mom'') resp'"
proof -
  let ?w = "handle_notes [NCreate ''buy milk''] (sample_world NoNotes)"
  have w: "w_app (sample_world NoNotes) = NoNotes" by simp
  obtain resp w1 where c: "handle_note (NCreate ''call mom'') ?w = (Ok (Some resp), w1)" "note_response (RId 2) resp"
    by (simp add: handle_notes_def handle_note_def note_req_def notes_handler_def notes_create_def NoNotes_def respond_def
        NewResponse_def NewMap_def Let_def)
  from note_kept [OF w _ _ c, of "[NDelete 1, NCreate ''fix the bug'']"] c show ?thesis by auto
qed

theorem notes_refine_map_witness:
  "\<exists>srv h resp w'. gm_get (srv_handlers (notes_routes srv)) 3 = Some h \<and>
     HandleHush h [] (note_req (NGet 7)) (sample_world NoNotes) = (Ok (Some resp), w') \<and> Status resp = StatusNotFound"
proof -
  let ?srv = "\<lparr>srv_handlers = [], middlewares = [], streamMiddlewares = [], keyStore = None, serverPriv = [],
    tlsConf = None, mediaURL = None, sessionCfg = zero_config, srv_logger = None\<rparr> :: Notes Server"
  have g: "gm_inv (notes_tab (w_app (sample_world NoNotes)))" by (simp add: NoNotes_def gm_inv_def)
  have r: "note_request (NGet 7) = (3, [(''id'', VUint64 7)])" "middlewares ?srv = []" by simp_all
  have p: "ReqPayload (SrvReq (note_req (NGet 7))) = Some [(''id'', VUint64 7)]" by (simp add: note_req_def)
  have s: "note_spec (NGet 7) (notes_abs (w_app (sample_world NoNotes))) = (RNotFound, (gm_get [], 1))"
    by (simp add: NoNotes_def notes_abs_def gm_get_def)
  from notes_refine_map [OF g r(1) p r(2) s, of "[]"] show ?thesis by auto
qed

end
