(* ===== verification/Example_Chat.thy ===== *)
theory Example_Chat
  imports Hub_Props Example_Notes
begin

text \<open>
  The handlers of the other example servers: the chat room of \<^verbatim>\<open>src/examples/chat/main.go\<close>, on top
  of the event hub, and the weather proxy of \<^verbatim>\<open>src/examples/weather/main.go\<close>, whose HTTP client
  is a parameter.
\<close>

section \<open>Chat\<close>

definition chat_payload :: "string \<Rightarrow> string \<Rightarrow> gotime \<Rightarrow> tlv_map" where
  "chat_payload nick msg now =
     map_set (map_set (map_set NewMap ''nick'' (VString nick)) ''message'' (VString msg)) ''time'' (VTimestamp now)"

definition chat_send :: "Hub hfun" where
  "chat_send c req w =
     sbind (getter (GetString (ReqPayload (SrvReq req)) ''nick'') w) (\<lambda>(nick, _) w.
     sbind (getter (GetString (ReqPayload (SrvReq req)) ''message'') w) (\<lambda>(msg, _) w.
       if nick = [] \<or> msg = [] then respond (ErrorResponse StatusBadRequest ''nick and message required'') w
       else respond (NewResponse (Some (map_set NewMap ''sent'' (VBool True))))
              (w\<lparr>w_app := Publish (w_now w) ''chat'' (Some (chat_payload nick msg (w_now w))) (w_app w)\<rparr>)))"

text \<open>
  A chat message reaches everyone in the room. On any reachable hub, sending a nick and a message
  answers \<^verbatim>\<open>sent\<close> and puts one event with both into the buffer of every subscriber of the topic
  \<^verbatim>\<open>chat\<close> that has room, and into no other.
\<close>

lemma chat_reaches_room:
  assumes "hub_step\<^sup>*\<^sup>* (NewHub, []) (w_app w, ps)" and "nick \<noteq> []" and "msg \<noteq> []"
    and "ReqPayload (SrvReq req) = Some [(''nick'', VString nick), (''message'', VString msg)]"
  shows "\<exists>h'. chat_send c req w =
      (Ok (Some \<lparr>Status = StatusSuccess, RespPayload = Some [(''sent'', VBool True)], Seq = 0\<rparr>), w\<lparr>w_app := h'\<rparr>) \<and>
    (\<forall>q. Events (sub_heap h' ! q) =
      (if (\<exists>i. sub_at (w_app w) ''chat'' i = Some q) \<and> length (Events (sub_heap (w_app w) ! q)) < 64
       then Events (sub_heap (w_app w) ! q) @
         [\<lparr>EvTopic = ''chat'', EvPayload = Some [(''nick'', VString nick), (''message'', VString msg),
             (''time'', VTimestamp (w_now w))], EvTime = w_now w\<rparr>]
       else Events (sub_heap (w_app w) ! q)))"
proof -
  have inv: "hub_inv (w_app w)" using hub_reach_inv [OF assms(1)] by (simp add: hub_state_inv_def)
  have g: "getter (GetString (ReqPayload (SrvReq req)) ''nick'') w = (Ok (nick, True), w)"
    "getter (GetString (ReqPayload (SrvReq req)) ''message'') w = (Ok (msg, True), w)"
    by (simp_all add: assms(4) getter_def GetString_def Map_Get_def VString_def Value_String_def)
  have p: "chat_payload nick msg t = [(''nick'', VString nick), (''message'', VString msg), (''time'', VTimestamp t)]" for t
    by (simp add: chat_payload_def NewMap_def)
  show ?thesis
    using assms(2,3) g
    by (intro exI [of _ "Publish (w_now w) ''chat'' (Some (chat_payload nick msg (w_now w))) (w_app w)"])
      (simp add: chat_send_def respond_def NewResponse_def NewMap_def Publish_exact(3) [OF inv refl] event_buffer_def p)
qed

section \<open>Weather\<close>

text \<open>The HTTP library is a parameter: \<open>valid\<close> tells whether a request can be made for a URL, which the
  handler does not check before it uses the request, and \<open>fetch\<close> gives the body of the answer or
  the text of an error.\<close>

definition weather_url :: "string \<Rightarrow> string" where
  "weather_url city = ''https://wttr.in/'' @ city @ ''?format=%C+%t+%w+%h''"

definition weather_handler :: "(string \<Rightarrow> bool) \<Rightarrow> (string \<Rightarrow> string + string) \<Rightarrow> 'a hfun" where
  "weather_handler valid fetch c req w =
     sbind (getter (GetString (ReqPayload (SrvReq req)) ''city'') w) (\<lambda>(city, _) w.
       if city = [] then respond (ErrorResponse StatusBadRequest ''city required'') w
       else if \<not> valid (weather_url city) then (Panic PanicNilDeref, w)
       else case fetch (weather_url city) of
         Inl err \<Rightarrow> respond (ErrorResponse StatusInternalError (''fetch failed: '' @ err)) w
       | Inr body \<Rightarrow>
           respond (NewResponse (Some (map_set (map_set NewMap ''city'' (VString city)) ''weather'' (VString body)))) w)"

lemma weather_total:
  assumes "wf_map m" "ReqPayload (SrvReq req) = Some m" "\<And>city. valid (weather_url city)"
  shows "\<exists>resp. weather_handler valid fetch c req w = (Ok (Some resp), w) \<and>
    (Status resp = StatusSuccess \<longleftrightarrow>
      (\<exists>city body. map_get m ''city'' = Some (VString city) \<and> city \<noteq> [] \<and> fetch (weather_url city) = Inr body))"
proof (cases "\<exists>city. map_get m ''city'' = Some (VString city) \<and> city \<noteq> []")
  case True
  then obtain city where "map_get m ''city'' = Some (VString city)" "city \<noteq> []" by blast
  with assms(2,3) GetString_wf(1) [OF assms(1), of "''city''"] show ?thesis
    by (cases "fetch (weather_url city)")
      (auto simp: weather_handler_def getter_def respond_def NewResponse_def ErrorResponse_def VString_def
        StatusSuccess_def StatusInternalError_def)
next
  case False
  then have "\<exists>ok. GetString (Some m) ''city'' = Ok ([], ok)" by (intro GetString_empty assms(1)) simp
  with assms(2,3) False show ?thesis
    by (auto simp: weather_handler_def getter_def respond_def ErrorResponse_def StatusSuccess_def StatusBadRequest_def)
qed

lemma weather_bad_city:
  assumes "map_get m ''city'' = Some (VString city)" "ReqPayload (SrvReq req) = Some m" "city \<noteq> []"
    and "\<not> valid (weather_url city)"
  shows "weather_handler valid fetch c req w = (Panic PanicNilDeref, w)"
  using assms GetString_VString [OF assms(1)] by (simp add: weather_handler_def getter_def)

end
