(* ===== verification/Example_Main.thy ===== *)
theory Example_Main
  imports Example_Chat Server_Listen Client
begin

text \<open>
  The example programs around their handlers (\<^verbatim>\<open>src/examples/crud\<close>, \<^verbatim>\<open>chat\<close>, \<^verbatim>\<open>weather\<close>): command
  lines, start of the servers, and the demonstration clients. A client program uses the client
  library through four calls, which are an argument of its model; what a program prints is a list
  with one constructor per format string. \<^verbatim>\<open>log.Fatal\<close> ends the process at once, so it is an error
  after which no deferred call runs; a panic runs them.
\<close>

section \<open>Standard library\<close>

text \<open>\<^verbatim>\<open>hex.DecodeString\<close>, which takes digits of both cases; the program only tests for an error.\<close>

definition hex_value :: "char \<Rightarrow> nat option" where
  "hex_value c =
     (let n = of_char c in
      if of_char CHR ''0'' \<le> n \<and> n \<le> of_char CHR ''9'' then Some (n - of_char CHR ''0'')
      else if of_char CHR ''a'' \<le> n \<and> n \<le> of_char CHR ''f'' then Some (n - of_char CHR ''a'' + 10)
      else if of_char CHR ''A'' \<le> n \<and> n \<le> of_char CHR ''F'' then Some (n - of_char CHR ''A'' + 10)
      else None)"

fun hex_DecodeString :: "string \<Rightarrow> bytes option" where
  "hex_DecodeString [] = Some []"
| "hex_DecodeString [c] = None"
| "hex_DecodeString (c # d # cs) =
     (case (hex_value c, hex_value d) of
        (Some m, Some n) \<Rightarrow> map_option (\<lambda>b. of_nat (16 * m + n) # b) (hex_DecodeString cs)
      | _ \<Rightarrow> None)"

lemma hex_value_digit:
  assumes "n < 16"
  shows "hex_value (hex_digit n) = Some n"
proof -
  have "list_all (\<lambda>n. hex_value (hex_digit n) = Some n) [0..<16]" by code_simp
  with assms show ?thesis by (simp add: list_all_iff)
qed

lemma hex_DecodeString_hex_bytes: "hex_DecodeString (hex_bytes b) = Some b"
proof (induction b)
  case (Cons x b)
  have "unat x div 16 < 16" "unat x mod 16 < 16" using unsigned_less [where 'a = nat and w = x] by (simp_all add: less_mult_imp_div_less)
  moreover have "of_nat (16 * (unat x div 16) + unat x mod 16) = x" by simp
  ultimately show ?case using Cons by (simp add: hex_bytes_def hex_byte_def hex_value_digit)
qed (simp add: hex_bytes_def)

text \<open>\<^verbatim>\<open>strings.TrimSpace\<close>: the UTF-8 encodings of the code points with the property White Space.\<close>

definition space_runes :: "string list" where
  "space_runes =
     [[CHR 0x09], [CHR 0x0A], [CHR 0x0B], [CHR 0x0C], [CHR 0x0D], [CHR 0x20],
      [CHR 0xC2, CHR 0x85], [CHR 0xC2, CHR 0xA0], [CHR 0xE1, CHR 0x9A, CHR 0x80]] @
     map (\<lambda>c. [CHR 0xE2, CHR 0x80, c])
       [CHR 0x80, CHR 0x81, CHR 0x82, CHR 0x83, CHR 0x84, CHR 0x85, CHR 0x86, CHR 0x87, CHR 0x88, CHR 0x89, CHR 0x8A,
        CHR 0xA8, CHR 0xA9, CHR 0xAF] @
     [[CHR 0xE2, CHR 0x81, CHR 0x9F], [CHR 0xE3, CHR 0x80, CHR 0x80]]"

function trim_left :: "string list \<Rightarrow> string \<Rightarrow> string" where
  "trim_left rs s =
     (case find (\<lambda>r. r \<noteq> [] \<and> take (length r) s = r) rs of
        None \<Rightarrow> s
      | Some r \<Rightarrow> trim_left rs (drop (length r) s))"
  by pat_completeness auto
termination
proof (relation "measure (\<lambda>(rs, s). length s)")
  fix rs :: "string list" and s r
  assume "find (\<lambda>r. r \<noteq> [] \<and> take (length r) s = r) rs = Some r"
  then have "r \<noteq> []" "take (length r) s = r" by (auto simp: find_Some_iff)
  then show "((rs, drop (length r) s), rs, s) \<in> measure (\<lambda>(rs, s). length s)"
    by (cases s) auto
qed simp

declare trim_left.simps [simp del]

definition strings_TrimSpace :: "string \<Rightarrow> string" where
  "strings_TrimSpace s = rev (trim_left (map rev space_runes) (rev (trim_left space_runes s)))"

section \<open>Command lines\<close>

text \<open>What \<^verbatim>\<open>main\<close> does with \<^verbatim>\<open>os.Args\<close>, the program's name first; \<open>n\<close> arguments make a client.\<close>

datatype main_run = PrintUsage | RunServer | RunClient "string list" | FatalUsage | FatalCommand string

definition example_main :: "nat \<Rightarrow> string list \<Rightarrow> main_run" where
  "example_main n args =
     (if length args < 2 then PrintUsage
      else if args ! 1 = ''server'' then RunServer
      else if args ! 1 = ''client'' then
        (if length args < n then FatalUsage else RunClient (take (n - 2) (drop 2 args)))
      else FatalCommand (args ! 1))"

definition crud_main :: "string list \<Rightarrow> main_run" where
  "crud_main args = example_main 5 args"

definition chat_main :: "string list \<Rightarrow> main_run" where
  "chat_main args = example_main 6 args"

definition weather_main :: "string list \<Rightarrow> main_run" where
  "weather_main args = example_main 6 args"

section \<open>Servers\<close>

datatype server_exit = FatalCert | FatalNewServer server_err | FatalListen server_err

datatype server_line =
    ReadyLine string nat
  | KeyIDLine string
  | KeySecretLine string
  | PortLine nat
  | OpsLine
  | OpLine string string string
  | JoinLine string string nat
  | TryLine string string nat

text \<open>
  The part of \<^verbatim>\<open>runServer\<close> before the handlers are registered. The error of \<^verbatim>\<open>GenerateAPIKey\<close> is
  ignored, and the nil key dereferenced. \<open>cert\<close> is the configuration with the loaded certificate,
  if it could be loaded.
\<close>

definition example_server ::
    "crypto \<Rightarrow> tls_config option \<Rightarrow> colorWriter \<Rightarrow> ('a world, server_exit, APIKey \<times> 'a Server) io" where
  "example_server C cert lg w =
     (case GenerateAPIKey (w_rnd w) of
        (Err e, rnd) \<Rightarrow> (Panic PanicNilDeref, w\<lparr>w_rnd := rnd\<rparr>)
      | (Panic q, rnd) \<Rightarrow> (Panic q, w\<lparr>w_rnd := rnd\<rparr>)
      | (Ok key, rnd) \<Rightarrow>
          (let w = w\<lparr>w_rnd := rnd\<rparr>; ks = gm_set (KeyID key) (Some (Secret key)) [] in
           case cert of
             None \<Rightarrow> (Err FatalCert, w)
           | Some conf \<Rightarrow>
               sbind (swrap FatalNewServer
                   (NewServer C (Some (MapKeyStore_Get ks)) [WithTLSConfig (Some conf), WithLogger (Some lg)] w))
                 (\<lambda>srv w. (Ok (key, srv), w))))"

text \<open>
  The part after registration: a UDP socket on the loopback address, whose errors are ignored
  (\<open>port\<close> gives the port of a socket), the text for the user, and \<^verbatim>\<open>ListenAndServeOnConn\<close>. The
  result has what was printed, and the server's state, or the reason for leaving.
\<close>

definition example_listen ::
    "network \<Rightarrow> (handle \<Rightarrow> nat) \<Rightarrow> (handle \<Rightarrow> ('c accept \<times> bool) list) \<Rightarrow> (nat \<Rightarrow> server_line list) \<Rightarrow> 'a Server \<Rightarrow>
     handle list \<Rightarrow> (server_exit, 'c serving) result \<times> server_line list \<times> handle list" where
  "example_listen N port script banner srv op =
     (case (case net_ResolveUDPAddr N ''127.0.0.1:0'' of Ok a \<Rightarrow> net_ListenUDP N a | Err e \<Rightarrow> net_ListenUDP N []
              | Panic q \<Rightarrow> Panic q) of
        Err e \<Rightarrow> (Panic PanicNilDeref, [], op)
      | Panic q \<Rightarrow> (Panic q, [], op)
      | Ok h \<Rightarrow>
          (case ListenAndServeOnConn N srv script h (h # op) of
             (Returned (Err e) gs, op) \<Rightarrow> (Err (FatalListen e), banner (port h), op)
           | (Returned (Panic q) gs, op) \<Rightarrow> (Panic q, banner (port h), op)
           | (sv, op) \<Rightarrow> (Ok sv, banner (port h), op)))"

definition crud_banner :: "APIKey \<Rightarrow> nat \<Rightarrow> server_line list" where
  "crud_banner key p =
     [ReadyLine ''CRUD Notes'' p, ReadyLine ''CRUD Notes'' p, ReadyLine ''CRUD Notes'' p,
      KeyIDLine (KeyID key), KeySecretLine (hex_bytes (Secret key)), PortLine p,
      OpsLine, OpLine ''0x0001'' ''Create(text)'' ''id'', OpLine ''0x0002'' ''List()'' ''notes[]'',
      OpLine ''0x0003'' ''Get(id)'' ''note'', OpLine ''0x0004'' ''Update(id, text)'' ''ok'', OpLine ''0x0005'' ''Delete(id)'' ''ok'']"

definition chat_banner :: "APIKey \<Rightarrow> nat \<Rightarrow> server_line list" where
  "chat_banner key p =
     [ReadyLine ''Chat'' p, KeyIDLine (KeyID key), KeySecretLine (hex_bytes (Secret key)), PortLine p,
      JoinLine (KeyID key) (hex_bytes (Secret key)) p]"

definition weather_banner :: "APIKey \<Rightarrow> nat \<Rightarrow> server_line list" where
  "weather_banner key p =
     [ReadyLine ''Weather'' p, KeyIDLine (KeyID key), KeySecretLine (hex_bytes (Secret key)), PortLine p,
      TryLine (KeyID key) (hex_bytes (Secret key)) p]"

definition crud_runServer ::
    "crypto \<Rightarrow> tls_config option \<Rightarrow> stream \<Rightarrow> network \<Rightarrow> (handle \<Rightarrow> nat) \<Rightarrow> (handle \<Rightarrow> ('c accept \<times> bool) list) \<Rightarrow>
     handle list \<Rightarrow> (Notes world, server_exit, Notes Server \<times> (server_exit, 'c serving) result \<times> server_line list \<times> handle list) io" where
  "crud_runServer C cert stderr N port script op w =
     sbind (example_server C cert (NewLogger stderr ''crud'') w) (\<lambda>(key, srv) w.
       let srv = notes_routes srv
       in (Ok (srv, example_listen N port script (crud_banner key) srv op), w))"

text \<open>The chat server's hub is the application state of its world; \<open>subscribe\<close> is what its
  \<^verbatim>\<open>SubscribeHandler\<close> does under the schedule that the goroutine meets.\<close>

definition chat_routes :: "Hub sfun \<Rightarrow> Hub Server \<Rightarrow> Hub Server" where
  "chat_routes subscribe srv = HandleStreamFunc 2 subscribe (HandleFunc 1 chat_send srv)"

definition chat_runServer ::
    "crypto \<Rightarrow> tls_config option \<Rightarrow> stream \<Rightarrow> Hub sfun \<Rightarrow> network \<Rightarrow> (handle \<Rightarrow> nat) \<Rightarrow> (handle \<Rightarrow> ('c accept \<times> bool) list) \<Rightarrow>
     handle list \<Rightarrow> (Hub world, server_exit, Hub Server \<times> (server_exit, 'c serving) result \<times> server_line list \<times> handle list) io" where
  "chat_runServer C cert stderr subscribe N port script op w =
     sbind (example_server C cert (NewLogger stderr ''chat'') w) (\<lambda>(key, srv) w.
       let w = w\<lparr>w_app := NewHub\<rparr>; srv = chat_routes subscribe srv
       in (Ok (srv, example_listen N port script (chat_banner key) srv op), w))"

definition weather_routes :: "(string \<Rightarrow> bool) \<Rightarrow> (string \<Rightarrow> string + string) \<Rightarrow> 'a Server \<Rightarrow> 'a Server" where
  "weather_routes valid fetch srv = HandleFunc 1 (weather_handler valid fetch) srv"

definition weather_runServer ::
    "crypto \<Rightarrow> tls_config option \<Rightarrow> stream \<Rightarrow> (string \<Rightarrow> bool) \<Rightarrow> (string \<Rightarrow> string + string) \<Rightarrow> network \<Rightarrow>
     (handle \<Rightarrow> nat) \<Rightarrow> (handle \<Rightarrow> ('c accept \<times> bool) list) \<Rightarrow>
     handle list \<Rightarrow> ('a world, server_exit, 'a Server \<times> (server_exit, 'c serving) result \<times> server_line list \<times> handle list) io" where
  "weather_runServer C cert stderr valid fetch N port script op w =
     sbind (example_server C cert (NewLogger stderr ''weather'') w) (\<lambda>(key, srv) w.
       let srv = weather_routes valid fetch srv
       in (Ok (srv, example_listen N port script (weather_banner key) srv op), w))"

section \<open>Clients\<close>

text \<open>The client library as a program sees it: \<^verbatim>\<open>Dial\<close> with an API key, \<^verbatim>\<open>SessionID\<close>, \<^verbatim>\<open>Do\<close> and
  \<^verbatim>\<open>Close\<close>, on a state of which the program knows nothing else.\<close>

record 's client_api =
  api_Dial :: "string \<Rightarrow> APIKey \<Rightarrow> ('s, client_err, unit) io"
  api_SessionID :: "'s \<Rightarrow> u64"
  api_Do :: "u16 \<Rightarrow> tlv_map option \<Rightarrow> ('s, client_err, Response) io"
  api_Close :: "'s \<Rightarrow> 's"

datatype client_exit =
    FatalHex
  | FatalConnect client_err
  | FatalCreate client_err
  | FatalRequest client_err
  | FatalReply string

type_synonym ('s, 'l, 'r) program = "('s \<times> 'l list, client_exit, 'r) io"

definition say :: "'l \<Rightarrow> ('s, 'l, unit) program" where
  "say l st = (case st of (s, out) \<Rightarrow> (Ok (), (s, out @ [l])))"

definition on_client :: "('s, 'e, 'r) io \<Rightarrow> ('s \<times> 'l list, 'e, 'r) io" where
  "on_client f st = (case st of (s, out) \<Rightarrow> (case f s of (r, s) \<Rightarrow> (r, (s, out))))"

text \<open>\<^verbatim>\<open>resp, _ := c.Do(...)\<close>: after an error the response is nil.\<close>

definition ignoring :: "('e, 'r) result \<times> 's \<Rightarrow> ('f, 'r option) result \<times> 's" where
  "ignoring rs = (case rs of (Ok r, s) \<Rightarrow> (Ok (Some r), s) | (Err e, s) \<Rightarrow> (Ok None, s) | (Panic q, s) \<Rightarrow> (Panic q, s))"

definition resp_payload :: "Response option \<Rightarrow> (tlv_err, tlv_map option) result" where
  "resp_payload r = (case r of None \<Rightarrow> Panic PanicNilDeref | Some resp \<Rightarrow> Ok (RespPayload resp))"

text \<open>A getter on a payload: it returns or panics, never an error.\<close>

definition field :: "(tlv_err, tlv_map option) result \<Rightarrow> (tlv_map option \<Rightarrow> (tlv_err, 'r) result) \<Rightarrow> ('s, 'l, 'r) program" where
  "field mp get st = (map_err (\<lambda>_. FatalReply []) (rbind mp get), st)"

text \<open>The start and the end that the clients share: decode the secret, connect, and close at the
  end, unless the process was left through \<^verbatim>\<open>log.Fatal\<close>.\<close>

definition with_client ::
    "'s client_api \<Rightarrow> string \<Rightarrow> string \<Rightarrow> string \<Rightarrow> ('s, 'l, unit) program \<Rightarrow> ('s, 'l, unit) program" where
  "with_client A keyID keySecretHex port body st =
     (case hex_DecodeString keySecretHex of
        None \<Rightarrow> (Err FatalHex, st)
      | Some secret \<Rightarrow>
          sbind (swrap FatalConnect
              (on_client (api_Dial A (''127.0.0.1:'' @ port) \<lparr>KeyID = keyID, Secret = secret\<rparr>) st)) (\<lambda>_ st.
            case body st of
              (Err e, st) \<Rightarrow> (Err e, st)
            | (r, (s, out)) \<Rightarrow> (r, (api_Close A s, out))))"

subsection \<open>Notes\<close>

datatype crud_line =
    SessionLine u64
  | CreatedLine u64 string
  | TotalLine u64
  | NoteLine u64 string
  | UpdatedLine u64
  | GotLine u64 string
  | DeletedLine u64
  | RemainingLine u64

fun crud_create :: "'s client_api \<Rightarrow> string list \<Rightarrow> u64 list \<Rightarrow> ('s, crud_line, u64 list) program" where
  "crud_create A [] ids st = (Ok ids, st)"
| "crud_create A (title # titles) ids st =
     sbind (swrap FatalCreate (on_client (api_Do A 1 (Some (map_set NewMap ''text'' (VString title)))) st)) (\<lambda>resp st.
     sbind (field (Ok (RespPayload resp)) (\<lambda>m. GetUint64 m ''id'') st) (\<lambda>(i, _) st.
     sbind (say (CreatedLine i title) st) (\<lambda>_. crud_create A titles (ids @ [i]))))"

fun crud_print :: "Value list \<Rightarrow> ('s, crud_line, unit) program" where
  "crud_print [] st = (Ok (), st)"
| "crud_print (nv # nvs) st =
     sbind (field (Ok None) (\<lambda>_. Value_Map nv) st) (\<lambda>m st.
     sbind (field (Ok (Some m)) (\<lambda>m. GetUint64 m ''id'') st) (\<lambda>(i, _) st.
     sbind (field (Ok (Some m)) (\<lambda>m. GetString m ''text'') st) (\<lambda>(text, _) st.
     sbind (say (NoteLine i text) st) (\<lambda>_. crud_print nvs))))"

definition crud_list :: "'s client_api \<Rightarrow> (u64 \<Rightarrow> crud_line) \<Rightarrow> ('s, crud_line, unit) program" where
  "crud_list A heading st =
     sbind (ignoring (on_client (api_Do A 2 None) st)) (\<lambda>resp st.
     sbind (field (resp_payload resp) (\<lambda>m. GetUint64 m ''count'') st) (\<lambda>(count, _) st.
     sbind (say (heading count) st) (\<lambda>_ st.
     sbind (field (resp_payload resp) (\<lambda>m. Map_Get m ''notes'') st) (\<lambda>v st.
       case v of
         None \<Rightarrow> (Ok (), st)
       | Some notesVal \<Rightarrow> sbind (field (Ok None) (\<lambda>_. Value_Array notesVal) st) crud_print))))"

text \<open>There are three titles, so the indices into the identifiers are in range.\<close>

definition crud_body :: "'s client_api \<Rightarrow> ('s, crud_line, unit) program" where
  "crud_body A st =
     sbind (say (SessionLine (api_SessionID A (fst st))) st) (\<lambda>_ st.
     sbind (crud_create A [''buy milk'', ''call mom'', ''fix the bug''] [] st) (\<lambda>ids st.
     sbind (crud_list A TotalLine st) (\<lambda>_ st.
     sbind (ignoring (on_client (api_Do A 4 (Some (map_set (map_set NewMap ''id'' (VUint64 (ids ! 0)))
         ''text'' (VString ''buy milk and eggs'')))) st)) (\<lambda>_ st.
     sbind (say (UpdatedLine (ids ! 0)) st) (\<lambda>_ st.
     sbind (ignoring (on_client (api_Do A 3 (Some (map_set NewMap ''id'' (VUint64 (ids ! 0))))) st)) (\<lambda>resp st.
     sbind (field (resp_payload resp) (\<lambda>m. GetString m ''text'') st) (\<lambda>(text, _) st.
     sbind (say (GotLine (ids ! 0) text) st) (\<lambda>_ st.
     sbind (ignoring (on_client (api_Do A 5 (Some (map_set NewMap ''id'' (VUint64 (ids ! 2))))) st)) (\<lambda>_ st.
     sbind (say (DeletedLine (ids ! 2)) st) (\<lambda>_ st.
       crud_list A RemainingLine st))))))))))"

definition crud_runClient :: "'s client_api \<Rightarrow> string \<Rightarrow> string \<Rightarrow> string \<Rightarrow> ('s, crud_line, unit) program" where
  "crud_runClient A keyID keySecretHex port = with_client A keyID keySecretHex port (crud_body A)"

subsection \<open>Chat\<close>

datatype chat_line = JoinedLine string u64 | HelpLine | SendErrorLine client_err | PromptLine

text \<open>The loop over the lines that the scanner gives.\<close>

fun chat_loop :: "'s client_api \<Rightarrow> string \<Rightarrow> string list \<Rightarrow> ('s, chat_line, unit) program" where
  "chat_loop A nick [] st = (Ok (), st)"
| "chat_loop A nick (line # ls) st =
     (let msg = strings_TrimSpace line in
      if msg = [] then chat_loop A nick ls st
      else if msg = ''/quit'' \<or> msg = ''/exit'' then (Ok (), st)
      else case on_client (api_Do A 1 (Some (map_set (map_set NewMap ''nick'' (VString nick)) ''message'' (VString msg)))) st of
        (Panic q, st) \<Rightarrow> (Panic q, st)
      | (Ok _, st) \<Rightarrow> sbind (say PromptLine st) (\<lambda>_. chat_loop A nick ls)
      | (Err e, st) \<Rightarrow>
          sbind (say (SendErrorLine e) st) (\<lambda>_ st. sbind (say PromptLine st) (\<lambda>_. chat_loop A nick ls)))"

definition chat_body :: "'s client_api \<Rightarrow> string \<Rightarrow> string list \<Rightarrow> ('s, chat_line, unit) program" where
  "chat_body A nick input st =
     sbind (say (JoinedLine nick (api_SessionID A (fst st))) st) (\<lambda>_ st.
     sbind (say HelpLine st) (\<lambda>_. chat_loop A nick input))"

definition chat_runClient ::
    "'s client_api \<Rightarrow> string list \<Rightarrow> string \<Rightarrow> string \<Rightarrow> string \<Rightarrow> string \<Rightarrow> ('s, chat_line, unit) program" where
  "chat_runClient A input keyID keySecretHex port nick =
     with_client A keyID keySecretHex port (chat_body A nick input)"

subsection \<open>Weather\<close>

datatype weather_line = CityLine string | WeatherLine string

definition weather_body :: "'s client_api \<Rightarrow> string \<Rightarrow> ('s, weather_line, unit) program" where
  "weather_body A city st =
     sbind (swrap FatalRequest (on_client (api_Do A 1 (Some (map_set NewMap ''city'' (VString city)))) st)) (\<lambda>resp st.
       if Status resp \<noteq> 0 then
         sbind (field (Ok (RespPayload resp)) (\<lambda>m. GetString m ''error'') st) (\<lambda>(errMsg, _) st.
           (Err (FatalReply errMsg), st))
       else
         sbind (field (Ok (RespPayload resp)) (\<lambda>m. GetString m ''weather'') st) (\<lambda>(weather, _) st.
         sbind (say (CityLine city) st) (\<lambda>_. say (WeatherLine weather))))"

definition weather_runClient ::
    "'s client_api \<Rightarrow> string \<Rightarrow> string \<Rightarrow> string \<Rightarrow> string \<Rightarrow> ('s, weather_line, unit) program" where
  "weather_runClient A keyID keySecretHex port city =
     with_client A keyID keySecretHex port (weather_body A city)"

section \<open>Properties of the clients\<close>

subsection \<open>Trimming\<close>

lemma trim_left_prefix: "\<exists>p. s = p @ trim_left rs s"
proof (induction rs s rule: trim_left.induct)
  case (1 rs s)
  show ?case
  proof (cases "find (\<lambda>r. r \<noteq> [] \<and> take (length r) s = r) rs")
    case None
    then show ?thesis by (simp add: trim_left.simps [of rs s])
  next
    case (Some r)
    have t: "trim_left rs s = trim_left rs (drop (length r) s)" using Some by (simp add: trim_left.simps [of rs s])
    from 1 [OF Some] obtain q where "drop (length r) s = q @ trim_left rs (drop (length r) s)" by blast
    then have "s = (take (length r) s @ q) @ trim_left rs s"
      unfolding t by (metis append.assoc append_take_drop_id)
    then show ?thesis by blast
  qed
qed

lemma trim_left_done: "r \<in> set rs \<Longrightarrow> r \<noteq> [] \<Longrightarrow> take (length r) (trim_left rs s) \<noteq> r"
proof (induction rs s rule: trim_left.induct)
  case (1 rs s)
  show ?case
  proof (cases "find (\<lambda>r. r \<noteq> [] \<and> take (length r) s = r) rs")
    case None
    then have "trim_left rs s = s" by (simp add: trim_left.simps [of rs s])
    with None 1 show ?thesis by (auto simp: find_None_iff)
  next
    case (Some r')
    with 1 show ?thesis by (simp add: trim_left.simps [of rs s])
  qed
qed

text \<open>A trimmed string neither begins nor ends with white space, and only its ends were cut.\<close>

lemma strings_TrimSpace_done:
  assumes "r \<in> set space_runes"
  shows "take (length r) (strings_TrimSpace s) \<noteq> r" "take (length r) (rev (strings_TrimSpace s)) \<noteq> rev r"
    "\<exists>p q. s = p @ strings_TrimSpace s @ q"
proof -
  have r: "r \<noteq> []" using assms by (auto simp: space_runes_def)
  let ?t = "trim_left space_runes s"
  obtain p where p: "s = p @ ?t" using trim_left_prefix by blast
  obtain q where "rev ?t = q @ trim_left (map rev space_runes) (rev ?t)" using trim_left_prefix by blast
  then have q: "?t = strings_TrimSpace s @ rev q"
    by (simp add: strings_TrimSpace_def) (metis rev_append rev_rev_ident)
  show "take (length r) (strings_TrimSpace s) \<noteq> r"
  proof
    assume a: "take (length r) (strings_TrimSpace s) = r"
    then have "length r \<le> length (strings_TrimSpace s)" by (metis length_take min.bounded_iff order_refl)
    with a q have "take (length r) ?t = r" by simp
    with trim_left_done [OF assms r] show False by blast
  qed
  show "take (length r) (rev (strings_TrimSpace s)) \<noteq> rev r"
    using trim_left_done [of "rev r" "map rev space_runes" "rev ?t"] assms r by (simp add: strings_TrimSpace_def)
  show "\<exists>p q. s = p @ strings_TrimSpace s @ q" using p q by metis
qed

subsection \<open>Chat\<close>

text \<open>What the user says, up to the command that ends the program.\<close>

definition chat_messages :: "string list \<Rightarrow> string list" where
  "chat_messages input =
     takeWhile (\<lambda>m. m \<noteq> ''/quit'' \<and> m \<noteq> ''/exit'') (filter (\<lambda>m. m \<noteq> []) (map strings_TrimSpace input))"

definition send_chat :: "'s client_api \<Rightarrow> string \<Rightarrow> string \<Rightarrow> 's \<Rightarrow> (client_err, Response) result \<times> 's" where
  "send_chat A nick msg s = api_Do A 1 (Some [(''nick'', VString nick), (''message'', VString msg)]) s"

lemma chat_loop_exact:
  assumes "\<And>msg s q. fst (send_chat A nick msg s) \<noteq> Panic q"
  shows "\<exists>out'. chat_loop A nick input (s, out) =
    (Ok (), (fold (\<lambda>msg s. snd (send_chat A nick msg s)) (chat_messages input) s, out'))"
proof (induction input arbitrary: s out)
  case (Cons line ls)
  let ?msg = "strings_TrimSpace line"
  consider "?msg = []" | "?msg = ''/quit'' \<or> ?msg = ''/exit''"
    | "?msg \<noteq> []" "?msg \<noteq> ''/quit''" "?msg \<noteq> ''/exit''" by blast
  then show ?case
  proof cases
    case 3
    obtain r s' where c: "send_chat A nick ?msg s = (r, s')" by fastforce
    then have "\<exists>out1. chat_loop A nick (line # ls) (s, out) = chat_loop A nick ls (s', out1)"
      using 3 assms [of ?msg s]
      by (cases r) (auto simp: send_chat_def on_client_def say_def NewMap_def Let_def)
    with Cons.IH [of s'] c 3 show ?thesis by (auto simp: chat_messages_def)
  qed (use Cons.IH [of s out] in \<open>auto simp: chat_messages_def Let_def\<close>)
qed (simp add: chat_messages_def)

text \<open>
  C30. The chat client sends what the user types and does nothing else. Once connected it sends each
  line of input that is not blank, trimmed of white space, in order and once, under the user's
  nick, until the input ends or the user says so, whatever errors the calls return; then it
  closes the connection. All of its calls are of the opcode that sends a message: it never
  subscribes to the room, so it shows no message of anyone.
\<close>

theorem chat_client_sends:
  assumes "api_Dial A (''127.0.0.1:'' @ port) \<lparr>KeyID = keyID, Secret = secret\<rparr> s = (Ok (), s1)"
    and "\<And>msg s q. fst (send_chat A nick msg s) \<noteq> Panic q"
  shows "\<exists>out. chat_runClient A input keyID (hex_bytes secret) port nick (s, []) =
    (Ok (), (api_Close A (fold (\<lambda>msg s. snd (send_chat A nick msg s)) (chat_messages input) s1), out))"
proof -
  let ?out = "[JoinedLine nick (api_SessionID A s1), HelpLine]"
  obtain out' where "chat_loop A nick input (s1, ?out) =
      (Ok (), (fold (\<lambda>msg s. snd (send_chat A nick msg s)) (chat_messages input) s1, out'))"
    using chat_loop_exact [OF assms(2), of input s1 ?out] by blast
  then show ?thesis
    using assms(1)
    by (simp add: chat_runClient_def with_client_def chat_body_def on_client_def say_def hex_DecodeString_hex_bytes)
qed

text \<open>A client library that answers every call and writes it down.\<close>

definition recorder :: "(u16 \<times> tlv_map option) list client_api" where
  "recorder = \<lparr>api_Dial = (\<lambda>a k s. (Ok (), s)), api_SessionID = (\<lambda>s. 1),
     api_Do = (\<lambda>op m s. (Ok (NewResponse None), s @ [(op, m)])), api_Close = id\<rparr>"

theorem chat_client_sends_witness:
  "\<exists>out. chat_runClient recorder ['' hello '', ''  '', ''bye'', ''/quit'', ''late''] ''id'' (hex_bytes [1, 2]) ''9'' ''ann'' ([], []) =
     (Ok (), ([(1, Some [(''nick'', VString ''ann''), (''message'', VString ''hello'')]),
       (1, Some [(''nick'', VString ''ann''), (''message'', VString ''bye'')])], out))"
proof -
  have d: "api_Dial recorder (''127.0.0.1:'' @ ''9'') \<lparr>KeyID = ''id'', Secret = [1, 2]\<rparr> [] = (Ok (), [])"
    by (simp add: recorder_def)
  have m: "chat_messages ['' hello '', ''  '', ''bye'', ''/quit'', ''late''] = [''hello'', ''bye'']" by code_simp
  have p: "fst (send_chat recorder ''ann'' msg s) \<noteq> Panic q" for msg s q by (simp add: send_chat_def recorder_def)
  from chat_client_sends [OF d p, of "['' hello '', ''  '', ''bye'', ''/quit'', ''late'']"]
  show ?thesis unfolding m by (simp add: send_chat_def recorder_def)
qed

subsection \<open>Errors of the clients\<close>

text \<open>The notes client ignores the error of a listing and uses the response; and it reports an
  update or a deletion whether or not it happened.\<close>

lemma crud_list_panics:
  "api_Do A 2 None s = (Err e, s') \<Longrightarrow> crud_list A heading (s, out) = (Panic PanicNilDeref, (s', out))"
  by (simp add: crud_list_def on_client_def ignoring_def field_def resp_payload_def)

lemma weather_body_exact:
  assumes "api_Do A 1 (Some [(''city'', VString city)]) s = (Ok resp, s')" "RespPayload resp = Some m" "wf_map m"
  shows "Status resp = StatusSuccess \<and> map_get m ''weather'' = Some (VString t) \<Longrightarrow>
      weather_body A city (s, out) = (Ok (), (s', out @ [CityLine city, WeatherLine t]))"
    "Status resp \<noteq> StatusSuccess \<and> map_get m ''error'' = Some (VString t) \<Longrightarrow>
      weather_body A city (s, out) = (Err (FatalReply t), (s', out))"
  using assms
  by (auto simp: weather_body_def on_client_def NewMap_def field_def GetString_VString say_def StatusSuccess_def)

end
