(* ===== verification/Example_Demo.thy ===== *)
theory Example_Demo
  imports Example_Main Rpc_Calls
begin

text \<open>
  The example programs at work: what the demonstration client of the notes server prints when it
  talks to that server, first over any service that behaves like the notes specification (locale
  \<open>notes_service\<close>), then over the model of the client library, the handshake, the encrypted
  frames and the server, connected stream by stream.
\<close>

section \<open>A service that keeps notes\<close>

definition note_payload :: "note_cmd \<Rightarrow> tlv_map option" where
  "note_payload cmd = (if cmd = NList then None else Some (snd (note_request cmd)))"

text \<open>Commands and tables small enough for every message to fit into a frame.\<close>

fun cmd_text :: "note_cmd \<Rightarrow> string" where
  "cmd_text (NCreate t) = t"
| "cmd_text (NUpdate i t) = t"
| "cmd_text cmd = []"

definition modest :: "note_cmd \<Rightarrow> note_state \<Rightarrow> bool" where
  "modest cmd st \<longleftrightarrow> length (cmd_text cmd) \<le> 1000 \<and> finite (dom (fst st)) \<and> card (dom (fst st)) \<le> 100 \<and>
     (\<forall>t \<in> ran (fst st). length t \<le> 1000)"

text \<open>The contract: as long as there are calls left, a call answers as the specification does.\<close>

locale notes_service =
  fixes A :: "'s client_api" and tab :: "'s \<Rightarrow> note_state" and ready :: "nat \<Rightarrow> 's \<Rightarrow> bool"
  assumes call: "ready (Suc n) s \<Longrightarrow> modest cmd (tab s) \<Longrightarrow> note_spec cmd (tab s) = (reply, st) \<Longrightarrow>
    \<exists>resp s'. api_Do A (fst (note_request cmd)) (note_payload cmd) s = (Ok resp, s') \<and>
      note_response reply resp \<and> tab s' = st \<and> ready n s'"
begin

lemma call1:
  assumes "ready n s" "0 < n" "modest cmd (tab s)" "note_spec cmd (tab s) = (reply, st)"
  shows "\<exists>resp s'. api_Do A (fst (note_request cmd)) (note_payload cmd) s = (Ok resp, s') \<and>
      note_response reply resp \<and> tab s' = st \<and> ready (n - 1) s'"
  using call [of "n - 1"] assms by simp

lemma create:
  assumes "ready n s" "0 < n" "tab s = (m, k)" "modest (NCreate t) (m, k)" "t \<noteq> []"
  shows "\<exists>s'. crud_create A (t # ts) ids (s, out) = crud_create A ts (ids @ [k]) (s', out @ [CreatedLine k t]) \<and>
    tab s' = (m(k \<mapsto> t), k + 1) \<and> ready (n - 1) s'"
proof -
  have "note_spec (NCreate t) (tab s) = (RId k, (m(k \<mapsto> t), k + 1))" using assms(3,5) by simp
  from call1 [OF assms(1,2) assms(4) [folded assms(3)] this] obtain resp s' where
    c: "api_Do A 1 (Some [(''text'', VString t)]) s = (Ok resp, s')" "RespPayload resp = Some [(''id'', VUint64 k)]"
      "tab s' = (m(k \<mapsto> t), k + 1)" "ready (n - 1) s'"
    by (auto simp: note_payload_def)
  then show ?thesis
    by (intro exI [of _ s']) (simp add: on_client_def field_def say_def NewMap_def GetUint64_def Map_Get_def
        Value_Uint64_def VUint64_def)
qed

end

lemma crud_print_entries:
  "crud_print (map note_entry es) (s, out) = (Ok (), (s, out @ map (\<lambda>(i, t). NoteLine i t) es))"
  by (induction es arbitrary: out)
    (auto simp: note_entry_def field_def say_def Value_Map_def NewMap_def GetUint64_def GetString_def Map_Get_def
      Value_Uint64_def VUint64_def Value_String_def VString_def)

lemma NewMap_set: "map_set NewMap k v = [(k, v)]"
  by (simp add: NewMap_def)

context notes_service
begin

lemma list_all_notes:
  assumes "ready n s" "0 < n" "tab s = (m, k)" "modest NList (m, k)"
  shows "\<exists>es s'. crud_list A heading (s, out) =
      (Ok (), (s', out @ heading (of_nat (card (dom m))) # map (\<lambda>(i, t). NoteLine i t) es)) \<and>
    distinct es \<and> set es = {(i, t). m i = Some t} \<and> tab s' = (m, k) \<and> ready (n - 1) s'"
proof -
  have "note_spec NList (tab s) = (RNotes {(i, t). m i = Some t} (card (dom m)), (m, k))" using assms(3) by simp
  from call1 [OF assms(1,2) assms(4) [folded assms(3)] this] obtain resp s' es where
    c: "api_Do A 2 None s = (Ok resp, s')"
      "RespPayload resp = Some [(''notes'', VArray (map note_entry es)), (''count'', VUint64 (of_nat (card (dom m))))]"
      "distinct es" "set es = {(i, t). m i = Some t}" "tab s' = (m, k)" "ready (n - 1) s'"
    by (auto simp: note_payload_def)
  then show ?thesis
    by (intro exI [of _ es] exI [of _ s'])
      (simp add: crud_list_def on_client_def ignoring_def resp_payload_def field_def say_def GetUint64_def Map_Get_def
        Value_Uint64_def VUint64_def Value_Array_def VArray_def crud_print_entries)
qed

lemma update:
  assumes "ready n s" "0 < n" "tab s = (m, k)" "modest (NUpdate i t) (m, k)" "t \<noteq> []" "i \<noteq> 0" "m i \<noteq> None"
  shows "\<exists>resp s'. api_Do A 4 (Some [(''id'', VUint64 i), (''text'', VString t)]) s = (Ok resp, s') \<and>
    tab s' = (m(i \<mapsto> t), k) \<and> ready (n - 1) s'"
proof -
  have "note_spec (NUpdate i t) (tab s) = (RUpdated i, (m(i \<mapsto> t), k))" using assms(3,5-7) by simp
  from call1 [OF assms(1,2) assms(4) [folded assms(3)] this] show ?thesis by (auto simp: note_payload_def)
qed

lemma get:
  assumes "ready n s" "0 < n" "tab s = (m, k)" "modest (NGet i) (m, k)" "i \<noteq> 0" "m i = Some t"
  shows "\<exists>resp s'. api_Do A 3 (Some [(''id'', VUint64 i)]) s = (Ok resp, s') \<and>
    RespPayload resp = Some [(''id'', VUint64 i), (''text'', VString t)] \<and> tab s' = (m, k) \<and> ready (n - 1) s'"
proof -
  have "note_spec (NGet i) (tab s) = (RNote i t, (m, k))" using assms(3,5,6) by simp
  from call1 [OF assms(1,2) assms(4) [folded assms(3)] this] show ?thesis by (auto simp: note_payload_def)
qed

lemma delete:
  assumes "ready n s" "0 < n" "tab s = (m, k)" "modest (NDelete i) (m, k)" "i \<noteq> 0"
  shows "\<exists>resp s'. api_Do A 5 (Some [(''id'', VUint64 i)]) s = (Ok resp, s') \<and>
    tab s' = (m(i := None), k) \<and> ready (n - 1) s'"
proof -
  have "note_spec (NDelete i) (tab s) = (RDeleted (m i \<noteq> None), (m(i := None), k))" using assms(3,5) by simp
  from call1 [OF assms(1,2) assms(4) [folded assms(3)] this] show ?thesis by (auto simp: note_payload_def)
qed

end

text \<open>What the demonstration prints; the order of the lists is the server's.\<close>

definition crud_output :: "u64 \<Rightarrow> (u64 \<times> string) list \<Rightarrow> (u64 \<times> string) list \<Rightarrow> crud_line list" where
  "crud_output sid es1 es2 =
     [SessionLine sid, CreatedLine 1 ''buy milk'', CreatedLine 2 ''call mom'', CreatedLine 3 ''fix the bug'', TotalLine 3] @
     map (\<lambda>(i, t). NoteLine i t) es1 @
     [UpdatedLine 1, GotLine 1 ''buy milk and eggs'', DeletedLine 3, RemainingLine 2] @
     map (\<lambda>(i, t). NoteLine i t) es2"

definition first_list :: "(u64 \<times> string) list \<Rightarrow> bool" where
  "first_list es \<longleftrightarrow> distinct es \<and> set es = {(1, ''buy milk''), (2, ''call mom''), (3, ''fix the bug'')}"

definition second_list :: "(u64 \<times> string) list \<Rightarrow> bool" where
  "second_list es \<longleftrightarrow> distinct es \<and> set es = {(1, ''buy milk and eggs''), (2, ''call mom'')}"

abbreviation tab1 :: "u64 \<rightharpoonup> string" where
  "tab1 \<equiv> [1 \<mapsto> ''buy milk'']"

abbreviation tab2 :: "u64 \<rightharpoonup> string" where
  "tab2 \<equiv> tab1(2 \<mapsto> ''call mom'')"

abbreviation tab3 :: "u64 \<rightharpoonup> string" where
  "tab3 \<equiv> tab2(3 \<mapsto> ''fix the bug'')"

abbreviation tab4 :: "u64 \<rightharpoonup> string" where
  "tab4 \<equiv> tab3(1 \<mapsto> ''buy milk and eggs'')"

abbreviation tab5 :: "u64 \<rightharpoonup> string" where
  "tab5 \<equiv> tab4(3 := None)"

lemma demo_tabs:
  "{(i, t). tab3 i = Some t} = {(1, ''buy milk''), (2, ''call mom''), (3, ''fix the bug'')}"
  "{(i, t). tab5 i = Some t} = {(1, ''buy milk and eggs''), (2, ''call mom'')}"
  "dom tab3 = {1, 2, 3}" "dom tab5 = {1, 2}"
  by (auto split: if_splits)

lemma demo_card: "card {1, 2, 3 :: u64} = 3" "card {1, 2 :: u64} = 2"
  by simp_all

lemma demo_modest:
  "modest (NCreate ''buy milk'') (Map.empty, 1)" "modest (NCreate ''call mom'') (tab1, 2)"
  "modest (NCreate ''fix the bug'') (tab2, 3)" "modest NList (tab3, 4)"
  "modest (NUpdate 1 ''buy milk and eggs'') (tab3, 4)" "modest (NGet 1) (tab4, 4)" "modest (NDelete 3) (tab4, 4)"
  "modest NList (tab5, 4)"
  by (auto simp: modest_def ran_def card_insert_if split: if_splits)

context notes_service
begin

lemma demo_creates:
  assumes "ready 8 s" "tab s = (Map.empty, 1)"
  shows "\<exists>s'. crud_create A [''buy milk'', ''call mom'', ''fix the bug''] [] (s, out) =
      (Ok [1, 2, 3], (s', out @ [CreatedLine 1 ''buy milk'', CreatedLine 2 ''call mom'', CreatedLine 3 ''fix the bug''])) \<and>
    tab s' = (tab3, 4) \<and> ready 5 s'"
proof -
  obtain s1 where 1: "crud_create A [''buy milk'', ''call mom'', ''fix the bug''] [] (s, out) =
      crud_create A [''call mom'', ''fix the bug''] [1] (s1, out @ [CreatedLine 1 ''buy milk''])"
    "tab s1 = (tab1, 2)" "ready 7 s1"
    using create [OF assms(1) _ assms(2) demo_modest(1), of "[''call mom'', ''fix the bug'']" "[]" out]
    by (auto simp del: crud_create.simps)
  obtain s2 where 2: "crud_create A [''call mom'', ''fix the bug''] [1] (s1, out @ [CreatedLine 1 ''buy milk'']) =
      crud_create A [''fix the bug''] [1, 2] (s2, out @ [CreatedLine 1 ''buy milk'', CreatedLine 2 ''call mom''])"
    "tab s2 = (tab2, 3)" "ready 6 s2"
    using create [OF 1(3) _ 1(2) demo_modest(2), of "[''fix the bug'']" "[1]" "out @ [CreatedLine 1 ''buy milk'']"]
    by (auto simp del: crud_create.simps)
  obtain s3 where 3: "crud_create A [''fix the bug''] [1, 2] (s2, out @ [CreatedLine 1 ''buy milk'', CreatedLine 2 ''call mom'']) =
      crud_create A [] [1, 2, 3] (s3, out @ [CreatedLine 1 ''buy milk'', CreatedLine 2 ''call mom'', CreatedLine 3 ''fix the bug''])"
    "tab s3 = (tab3, 4)" "ready 5 s3"
    using create [OF 2(3) _ 2(2) demo_modest(3), of "[]" "[1, 2]" "out @ [CreatedLine 1 ''buy milk'', CreatedLine 2 ''call mom'']"]
    by (auto simp del: crud_create.simps)
  show ?thesis using 1(1) 2(1) 3 by (simp only: crud_create.simps(1)) blast
qed

text \<open>The demonstration after the notes are created.\<close>

lemma demo_body:
  assumes "ready 8 s" "tab s = (Map.empty, 1)"
  shows "\<exists>es1 es2 s'. crud_body A (s, out) = (Ok (), (s', out @ crud_output (api_SessionID A s) es1 es2)) \<and>
    first_list es1 \<and> second_list es2 \<and> tab s' = (tab5, 4) \<and> ready 0 s'"
proof -
  let ?o1 = "out @ [SessionLine (api_SessionID A s)]"
  let ?o2 = "?o1 @ [CreatedLine 1 ''buy milk'', CreatedLine 2 ''call mom'', CreatedLine 3 ''fix the bug'']"
  obtain s1 where 1: "crud_create A [''buy milk'', ''call mom'', ''fix the bug''] [] (s, ?o1) = (Ok [1, 2, 3], (s1, ?o2))"
    "tab s1 = (tab3, 4)" "ready 5 s1"
    using demo_creates [OF assms, of ?o1] by auto
  obtain es1 s2 where 2: "crud_list A TotalLine (s1, ?o2) = (Ok (), (s2, ?o2 @ TotalLine 3 # map (\<lambda>(i, t). NoteLine i t) es1))"
    "first_list es1" "tab s2 = (tab3, 4)" "ready 4 s2"
    using list_all_notes [OF 1(3) _ 1(2) demo_modest(4), of TotalLine ?o2]
    unfolding demo_tabs demo_card first_list_def by auto
  obtain r3 s3 where 3: "api_Do A 4 (Some [(''id'', VUint64 1), (''text'', VString ''buy milk and eggs'')]) s2 = (Ok r3, s3)"
    "tab s3 = (tab4, 4)" "ready 3 s3"
    using update [OF 2(4) _ 2(3) demo_modest(5)] by auto
  obtain r4 s4 where 4: "api_Do A 3 (Some [(''id'', VUint64 1)]) s3 = (Ok r4, s4)"
    "RespPayload r4 = Some [(''id'', VUint64 1), (''text'', VString ''buy milk and eggs'')]"
    "tab s4 = (tab4, 4)" "ready 2 s4"
    using get [OF 3(3) _ 3(2) demo_modest(6)] by auto
  obtain r5 s5 where 5: "api_Do A 5 (Some [(''id'', VUint64 3)]) s4 = (Ok r5, s5)" "tab s5 = (tab5, 4)" "ready 1 s5"
    using delete [OF 4(4) _ 4(3) demo_modest(7)] by auto
  let ?o3 = "?o2 @ TotalLine 3 # map (\<lambda>(i, t). NoteLine i t) es1"
  let ?o4 = "?o3 @ [UpdatedLine 1, GotLine 1 ''buy milk and eggs'', DeletedLine 3]"
  obtain es2 s6 where 6: "crud_list A RemainingLine (s5, ?o4) =
      (Ok (), (s6, ?o4 @ RemainingLine 2 # map (\<lambda>(i, t). NoteLine i t) es2))"
    "second_list es2" "tab s6 = (tab5, 4)" "ready 0 s6"
    using list_all_notes [OF 5(3) _ 5(2) demo_modest(8), of RemainingLine ?o4]
    unfolding demo_tabs demo_card second_list_def by auto
  have "crud_body A (s, out) = (Ok (), (s6, ?o4 @ RemainingLine 2 # map (\<lambda>(i, t). NoteLine i t) es2))"
    using 1(1) 2(1) 3(1) 4(1,2) 5(1) 6(1)
    by (simp add: crud_body_def say_def on_client_def ignoring_def resp_payload_def field_def NewMap_set
        GetString_def Map_Get_def Value_String_def VString_def VUint64_def del: crud_create.simps)
  with 2(2) 6(2-4) show ?thesis by (intro exI [of _ es1] exI [of _ es2] exI [of _ s6]) (simp add: crud_output_def)
qed

end

end
