(* ===== verification/Notes_Quic.thy ===== *)
theory Notes_Quic
  imports Example_Demo
begin

text \<open>
  The notes server and its demonstration client over the protocol: every message of the notes
  service survives encoding, and the link of a client and a server over QUIC streams meets the
  contract \<open>notes_service\<close>. So the whole example works, from the key that the server prints to
  the last line of the client.
\<close>

section \<open>Messages of the notes service\<close>

text \<open>A payload that arrives as it was sent, with a bound on its length.\<close>

definition travels :: "nat \<Rightarrow> tlv_map \<Rightarrow> bool" where
  "travels n m \<longleftrightarrow> map_ok m \<and> norm_map m = m \<and> length (enc (Value TypeMap (DMap m))) \<le> n"

definition scalar :: "nat \<Rightarrow> Value \<Rightarrow> bool" where
  "scalar n v \<longleftrightarrow> (\<exists>s. v = VString s \<and> length s \<le> n) \<or> (\<exists>i. v = VUint64 i) \<or> (\<exists>b. v = VBool b)"

lemma scalar_simps [simp]:
  "scalar n (VString s) \<longleftrightarrow> length s \<le> n" "scalar n (VUint64 i)" "scalar n (VBool b)"
  by (auto simp: scalar_def VString_def VUint64_def VBool_def)

lemma scalar_facts:
  assumes "scalar n v" "8 \<le> n"
  shows "wf_value v" "norm v = v" "length (encp (data v)) \<le> n" "d \<le> 64 \<Longrightarrow> fits d v"
  using assms by (auto simp: scalar_def VString_def VUint64_def VBool_def MaxDecodeDepth_def)

lemma length_enc_le: "length (enc v) \<le> 11 + length (encp (data v))"
  using length_put_uvarint_bounds(2) [of "of_nat (length (encp (data v)))"] by (simp add: length_enc)

lemma length_enc_entries_le:
  assumes "\<And>k v. (k, v) \<in> set es \<Longrightarrow> length k \<le> 20 \<and> length (encp (data v)) \<le> n"
  shows "length (enc_entries es) \<le> length es * (n + 42)"
  using assms
proof (induction es)
  case (Cons e es)
  obtain k v where e: "e = (k, v)" by (cases e)
  have "length (enc_entries es) \<le> length es * (n + 42)" by (intro Cons.IH Cons.prems) simp
  moreover have "length (enc (VString k)) \<le> 31" "length (enc v) \<le> 11 + n"
    using Cons.prems [of k v] e length_enc_le [of "VString k"] length_enc_le [of v] by (auto simp: VString_def)
  ultimately show ?case by (simp add: e)
qed simp

lemma map_ok_small:
  assumes "wf_map m" "\<And>k v. (k, v) \<in> set m \<Longrightarrow> length k \<le> 20 \<and> length (encp (data v)) \<le> n \<and> fits 2 v \<and> norm v = v"
    and "n \<le> 500000" "length m \<le> 2"
  shows "travels (2 * n + 100) m"
proof -
  have len: "length (enc_entries m) \<le> length m * (n + 42)"
    using assms(2) by (intro length_enc_entries_le) blast
  also have "\<dots> \<le> 2 * (n + 42)" using assms(4) by (rule mult_right_mono) simp
  finally have "length (enc (Value TypeMap (DMap m))) \<le> 2 * n + 100"
    using length_enc_le [of "Value TypeMap (DMap m)"] by (simp add: encp_DMap del: enc.simps encp.simps)
  moreover have "fits 0 (Value TypeMap (DMap m))"
  proof -
    have "length k \<le> 524288 \<and> small (encp (data v)) \<and> fits 2 v" if "(k, v) \<in> set m" for k v
      using assms(2) [OF that] assms(3) by (simp add: small_def)
    then show ?thesis by (auto simp: MaxDecodeDepth_def numeral_2_eq_2 [symmetric])
  qed
  moreover have "norm_map m = m"
    unfolding norm_map_def using assms(2) by (intro map_idI) auto
  ultimately show ?thesis
    using assms(1,3) by (simp add: travels_def map_ok_def del: enc.simps)
qed

lemma scalars_travel:
  assumes "\<And>k v. (k, v) \<in> set m \<Longrightarrow> length k \<le> 20 \<and> scalar 1000 v" "distinct (map fst m)" "length m \<le> 2"
  shows "travels 2100 m"
proof -
  have "wf_map m" using assms(1,2) scalar_facts(1) by (fastforce simp: wf_map_def)
  moreover have "length k \<le> 20 \<and> length (encp (data v)) \<le> 1000 \<and> fits 2 v \<and> norm v = v" if "(k, v) \<in> set m" for k v
    using assms(1) [OF that] scalar_facts [of 1000 v] by simp
  ultimately show ?thesis using map_ok_small [of m 1000] assms(3) by simp
qed

lemma note_entry_facts:
  assumes "length t \<le> 1000"
  shows "wf_value (note_entry (i, t))" "norm (note_entry (i, t)) = note_entry (i, t)"
    "length (encp (data (note_entry (i, t)))) \<le> 2100" "fits 3 (note_entry (i, t))"
proof -
  let ?m = "[(''id'', VUint64 i), (''text'', VString t)]"
  have n: "note_entry (i, t) = Value TypeMap (DMap ?m)" by (simp add: note_entry_def NewMap_def)
  have s: "length k \<le> 20 \<and> length (encp (data v)) \<le> 1000" if "(k, v) \<in> set ?m" for k v
    using that assms by (auto simp: VUint64_def VString_def)
  show "wf_value (note_entry (i, t))" "norm (note_entry (i, t)) = note_entry (i, t)"
    unfolding n by (simp_all add: type_codes VUint64_def VString_def)
  show "length (encp (data (note_entry (i, t)))) \<le> 2100"
    using length_enc_entries_le [of ?m 1000, OF s] by (simp add: n encp_DMap del: enc_entries_simps encp.simps)
  show "fits 3 (note_entry (i, t))"
    unfolding n using assms by (simp add: MaxDecodeDepth_def small_def VUint64_def VString_def)
qed

lemma length_concat_enc_le:
  assumes "\<And>v. v \<in> set vs \<Longrightarrow> length (encp (data v)) \<le> n"
  shows "length (concat (map enc vs)) \<le> length vs * (n + 11)"
  using assms
proof (induction vs)
  case (Cons v vs)
  have "length (concat (map enc vs)) \<le> length vs * (n + 11)" by (intro Cons.IH Cons.prems) simp
  then show ?case using length_enc_le [of v] Cons.prems [of v] by simp
qed simp

lemma note_list_travels:
  assumes "\<And>i t. (i, t) \<in> set es \<Longrightarrow> length t \<le> 1000" "length es \<le> 100"
  shows "travels 500000 [(''notes'', VArray (map note_entry es)), (''count'', VUint64 c)]"
proof -
  let ?vs = "map note_entry es" and ?m = "[(''notes'', VArray (map note_entry es)), (''count'', VUint64 c)]"
  have e: "wf_value v \<and> norm v = v \<and> length (encp (data v)) \<le> 2100 \<and> fits 3 v" if "v \<in> set ?vs" for v
    using that assms(1) note_entry_facts by force
  then have sm: "small (encp (data v))" if "v \<in> set ?vs" for v using that by (fastforce simp: small_def)
  have "length (concat (map enc ?vs)) \<le> length ?vs * (2100 + 11)"
    using e by (intro length_concat_enc_le) blast
  also have "\<dots> \<le> 100 * (2100 + 11)" using assms(2) by (intro mult_right_mono) simp_all
  finally have len: "length (encp (DArray ?vs)) \<le> 240000" by simp
  have arr: "length (encp (data (VArray ?vs))) \<le> 240000 \<and> fits 2 (VArray ?vs) \<and> norm (VArray ?vs) = VArray ?vs"
    using len e sm by (auto simp: VArray_def MaxDecodeDepth_def intro!: map_idI)
  have cnt: "length (encp (data (VUint64 c))) \<le> 240000 \<and> fits 2 (VUint64 c) \<and> norm (VUint64 c) = VUint64 c"
    by (simp add: VUint64_def MaxDecodeDepth_def)
  have "wf_map ?m" using e by (auto simp: wf_map_def VArray_def type_codes)
  moreover have "length k \<le> 20 \<and> length (encp (data v)) \<le> 240000 \<and> fits 2 v \<and> norm v = v" if kv: "(k, v) \<in> set ?m" for k v
  proof -
    consider "k = ''notes''" "v = VArray ?vs" | "k = ''count''" "v = VUint64 c" using kv by auto
    then show ?thesis using arr cnt by cases simp_all
  qed
  ultimately have "travels (2 * 240000 + 100) ?m" by (rule map_ok_small) simp_all
  then show ?thesis by (simp add: travels_def del: enc.simps)
qed

text \<open>Every request and every answer of the service travels.\<close>

lemma note_payload_travels:
  assumes "modest cmd st"
  shows "case note_payload cmd of None \<Rightarrow> True | Some m \<Rightarrow> travels 2100 m"
  using assms
  by (cases cmd) (auto simp: note_payload_def modest_def intro!: scalars_travel)

lemma ran_gm_get: "(i, t) \<in> set m \<Longrightarrow> gm_inv m \<Longrightarrow> t \<in> ran (gm_get m)"
  using gm_list(2) [of m] by (auto simp: ran_def)

lemma travels_mono: "travels n m \<Longrightarrow> n \<le> n' \<Longrightarrow> travels n' m"
  by (simp add: travels_def del: enc.simps)

lemmas scalars_travel_far = travels_mono [OF scalars_travel, of _ 500000]

lemma note_response_travels:
  assumes "gm_inv (notes_tab (w_app w))" "modest cmd (notes_abs (w_app w))"
    and "ReqPayload (SrvReq req) = Some (snd (note_request cmd))"
    and "notes_handler (fst (note_request cmd)) c req w = (Ok (Some resp), w')"
  shows "\<exists>m. RespPayload resp = Some m \<and> travels 500000 m"
proof -
  have texts: "length t \<le> 1000" if "(i, t) \<in> set (notes_tab (w_app w))" for i t
    using ran_gm_get [OF that assms(1)] assms(2) by (simp add: modest_def notes_abs_def)
  have got: "length t \<le> 1000" if "gm_get (notes_tab (w_app w)) i = Some t" for i t
    using that assms(2) by (auto simp: modest_def notes_abs_def intro: ranI)
  have len: "length (notes_tab (w_app w)) \<le> 100"
    using assms(2) gm_list(3) [OF assms(1)] by (simp add: modest_def notes_abs_def)
  have lst: "travels 500000 [(''notes'', VArray (map note_entry (notes_tab (w_app w)))), (''count'', VUint64 k)]" for k
    by (rule note_list_travels [OF texts len])
  show ?thesis
    using assms(3,4) lst got
    by (cases cmd)
      (auto simp: notes_handler_def notes_handlers Let_def respond_def NewResponse_def ErrorResponse_def NewMap_def
        split: if_splits option.splits intro!: scalars_travel_far)
qed

lemma notes_serve:
  assumes "gm_inv (notes_tab (w_app w))" "modest cmd (notes_abs (w_app w))"
    and "ReqPayload (SrvReq req) = note_payload cmd" "note_spec cmd (notes_abs (w_app w)) = (reply, st)"
  shows "\<exists>resp w' m. notes_handler (fst (note_request cmd)) c req w = (Ok (Some resp), w') \<and> note_response reply resp \<and>
    notes_abs (w_app w') = st \<and> gm_inv (notes_tab (w_app w')) \<and> w' = w\<lparr>w_app := w_app w'\<rparr> \<and>
    RespPayload resp = Some m \<and> travels 500000 m"
proof -
  let ?req = "req\<lparr>SrvReq := (SrvReq req)\<lparr>ReqPayload := Some (snd (note_request cmd))\<rparr>\<rparr>"
  have same: "notes_handler (fst (note_request cmd)) c req w = notes_handler (fst (note_request cmd)) c ?req w"
  proof (cases "cmd = NList")
    case False
    then have "?req = req" using assms(3) by (cases req; cases "SrvReq req") (simp add: note_payload_def)
    then show ?thesis by simp
  qed (simp add: notes_handler_def notes_list_def)
  have p: "ReqPayload (SrvReq ?req) = Some (snd (note_request cmd))" by simp
  from notes_refine [OF assms(1) prod.collapse [symmetric] p assms(4), of c]
  obtain resp w' where "notes_handler (fst (note_request cmd)) c ?req w = (Ok (Some resp), w')" "note_response reply resp"
    "notes_abs (w_app w') = st" "gm_inv (notes_tab (w_app w'))" "w' = w\<lparr>w_app := w_app w'\<rparr>" by blast
  with same note_response_travels [OF assms(1,2) p, of c resp w'] show ?thesis by auto
qed

section \<open>Client and server linked over QUIC streams\<close>

text \<open>
  A network that delivers: what one side writes on a stream is what the other reads. The client
  writes a whole message before it reads, so the bytes it writes are found by letting it run on
  a stream with nothing to read; the server runs on them; then the client runs on the server's
  answer. While a call is under way nothing else happens, and the clocks stand still.
\<close>

record 'a link =
  l_client :: Client
  l_rnd :: stream
  l_world :: "'a world"
  l_sess :: sptr

definition link_Do ::
    "crypto \<Rightarrow> gotime \<Rightarrow> 'a Server \<Rightarrow> ctx \<Rightarrow> string \<Rightarrow> u16 \<Rightarrow> tlv_map option \<Rightarrow> ('a link, client_err, Response) io" where
  "link_Do C now srv c remote op payload l =
     (case doQUIC C now (Ok (stream_of [])) op payload (l_client l, l_rnd l, None) of
        (r, (cl, rnd, None)) \<Rightarrow> (r, l\<lparr>l_client := cl, l_rnd := rnd\<rparr>)
      | (_, (_, _, Some s)) \<Rightarrow>
          (case handleStream C srv id c (l_sess l) remote (l_world l, stream_of (sout s)) of
             (_, (w, s')) \<Rightarrow>
               (case client_Do C now (Ok (stream_of (sout s'))) op payload (l_client l, l_rnd l) of
                  (r, (cl, rnd)) \<Rightarrow> (r, l\<lparr>l_client := cl, l_rnd := rnd, l_world := w\<rparr>))))"

definition link_Dial ::
    "crypto \<Rightarrow> gotime \<Rightarrow> (string \<Rightarrow> (string \<times> string) option) \<Rightarrow> (io_err, stream) dialer \<Rightarrow> (io_err, unit) dialer \<Rightarrow>
     'a Server \<Rightarrow> tls_config \<Rightarrow> string \<Rightarrow> APIKey \<Rightarrow> ('a link, client_err, unit) io" where
  "link_Dial C now parse tcpDial quicDial srv cfg a key l =
     (let hello = (case GenerateKeyPair C (l_rnd l) of
                     (Ok priv, _) \<Rightarrow> sout (snd (NegotiateClient C now (Some key) priv (stream_of [])))
                   | _ \<Rightarrow> []) in
      case establish C srv (l_world l, stream_of hello) of
        (r, (w, s)) \<Rightarrow>
          (case Dial C now parse tcpDial quicDial (Ok (stream_of (sout s))) a (Some key)
                  [client_WithTLSConfig (Some cfg)] (l_rnd l) of
             (Ok cl, rnd) \<Rightarrow>
               (Ok (), l\<lparr>l_client := cl, l_rnd := rnd, l_world := w,
                         l_sess := (case r of Ok p \<Rightarrow> p | _ \<Rightarrow> l_sess l)\<rparr>)
           | (Err e, rnd) \<Rightarrow> (Err e, l\<lparr>l_rnd := rnd, l_world := w\<rparr>)
           | (Panic q, rnd) \<Rightarrow> (Panic q, l\<lparr>l_rnd := rnd, l_world := w\<rparr>)))"

definition link_api ::
    "crypto \<Rightarrow> gotime \<Rightarrow> (string \<Rightarrow> (string \<times> string) option) \<Rightarrow> (io_err, stream) dialer \<Rightarrow> (io_err, unit) dialer \<Rightarrow>
     'a Server \<Rightarrow> tls_config \<Rightarrow> ctx \<Rightarrow> string \<Rightarrow> 'a link client_api" where
  "link_api C now parse tcpDial quicDial srv cfg c remote =
     \<lparr>api_Dial = link_Dial C now parse tcpDial quicDial srv cfg,
      api_SessionID = (\<lambda>l. client_SessionID (l_client l)),
      api_Do = link_Do C now srv c remote,
      api_Close = (\<lambda>l. l\<lparr>l_client := snd (client_Close (l_client l))\<rparr>)\<rparr>"

text \<open>A link over which \<open>n\<close> more calls can be made.\<close>

definition link_ready :: "crypto \<Rightarrow> Notes Server \<Rightarrow> nat \<Rightarrow> Notes link \<Rightarrow> bool" where
  "link_ready C srv n l \<longleftrightarrow>
     (\<forall>cmd. let op = fst (note_request cmd) in
        gm_get (srv_handlers srv) op = Some (HandlerFunc (notes_handler op))) \<and>
     (\<exists>sess k. dialed (l_client l) \<and> qconn (l_client l) \<noteq> None \<and> mode (l_client l) = TransportQUIC \<and>
        csess (l_client l) = Some sess \<and> Key sess = Some k \<and> aes_key_ok k \<and> skey (l_world l) (l_sess l) = Some k) \<and>
     aead_laws C \<and> NonceSize * n \<le> length (sin (l_rnd l)) \<and> NonceSize * n \<le> length (sin (w_rnd (l_world l))) \<and>
     l_sess l < length (w_heap (l_world l)) \<and> \<not> session_dead (l_world l) (l_sess l) \<and>
     0 \<le> IdleTimeout (ss_config (w_sessions (l_world l))) \<and> gm_inv (notes_tab (w_app (l_world l)))"

lemma touch_at_alive:
  assumes "p < length (w_heap w)" "\<not> session_dead w p" "0 \<le> IdleTimeout (ss_config (w_sessions w))"
  shows "\<not> session_dead (touch_at p w) p" "skey (touch_at p w) p = skey w p"
  using assms by (simp_all add: session_dead_def touch_at_def Touch_def IsExpired_def IsIdleDead_def skey_def time_since_def)

lemma note_response_cong:
  "Status r = Status r' \<Longrightarrow> RespPayload r = RespPayload r' \<Longrightarrow> note_response reply r = note_response reply r'"
  by (cases reply) simp_all

lemma travels_payload:
  assumes "case mp of None \<Rightarrow> True | Some m \<Rightarrow> travels n m"
  shows "payload_ok mp" "map_option norm_map mp = mp" "length (enc_payload mp) \<le> n"
  using assms by (simp_all add: payload_ok_def enc_payload_def travels_def del: enc.simps split: option.splits)

text \<open>The handler's part of a call, after the session was touched: the answer is small and arrives as
  it was sent, and of the world only the table of notes has changed.\<close>

lemma touched_notes:
  assumes "gm_inv (notes_tab (w_app w))" "modest cmd (notes_abs (w_app w))" "note_spec cmd (notes_abs (w_app w)) = (reply, st)"
    and "ReqPayload (SrvReq req) = note_payload cmd"
  obtains resp w2 where "HandleHush (HandlerFunc (notes_handler (fst (note_request cmd)))) c req (touch_at p w) = (Ok (Some resp), w2)"
    "\<And>seq. note_response reply (resp_recv seq resp)" "notes_abs (w_app w2) = st" "gm_inv (notes_tab (w_app w2))"
    "w2 = (touch_at p w)\<lparr>w_app := w_app w2\<rparr>" "payload_ok (RespPayload resp)" "length (resp_plain resp) \<le> 500001"
proof -
  have app: "w_app (touch_at p w) = w_app w" by (simp add: touch_at_def)
  obtain resp w2 m where hd: "notes_handler (fst (note_request cmd)) c req (touch_at p w) = (Ok (Some resp), w2)"
    "note_response reply resp" "notes_abs (w_app w2) = st" "gm_inv (notes_tab (w_app w2))"
    "w2 = (touch_at p w)\<lparr>w_app := w_app w2\<rparr>" "RespPayload resp = Some m" "travels 500000 m"
    using notes_serve [of "touch_at p w" cmd req reply st c, unfolded app, OF assms(1,2,4,3)] by blast
  have rp: "payload_ok (RespPayload resp)" "map_option norm_map (RespPayload resp) = RespPayload resp"
      "length (enc_payload (RespPayload resp)) \<le> 500000"
    using travels_payload [of 500000 "RespPayload resp"] hd(6,7) by simp_all
  have "note_response reply (resp_recv seq resp)" for seq
    using hd(2) by (subst note_response_cong [of _ resp]) (simp_all add: resp_recv_def rp(2))
  with hd(1,3-5) rp(1,3) show thesis by (intro that) (simp_all add: HandlerFunc_def resp_plain_def)
qed

lemma link_call:
  assumes "link_ready C srv (Suc n) l" "modest cmd (notes_abs (w_app (l_world l)))"
    and "note_spec cmd (notes_abs (w_app (l_world l))) = (reply, st)"
  shows "\<exists>resp l'. link_Do C now srv c remote (fst (note_request cmd)) (note_payload cmd) l = (Ok resp, l') \<and>
    note_response reply resp \<and> notes_abs (w_app (l_world l')) = st \<and> link_ready C srv n l'"
proof -
  let ?cl = "l_client l" and ?w = "l_world l" and ?p = "l_sess l" and ?op = "fst (note_request cmd)"
  let ?w1 = "id (touch_at ?p ?w)" and ?req = "\<lparr>Opcode = fst (note_request cmd), ReqPayload = note_payload cmd\<rparr>"
  obtain sess k where cl: "dialed ?cl" "qconn ?cl \<noteq> None" "csess ?cl = Some sess" "Key sess = Some k"
    and m: "mode ?cl = TransportQUIC" and k: "aes_key_ok k" "skey ?w ?p = Some k"
    using assms(1) by (auto simp: link_ready_def)
  have w: "?p < length (w_heap ?w)" "\<not> session_dead ?w ?p" "0 \<le> IdleTimeout (ss_config (w_sessions ?w))"
    "gm_inv (notes_tab (w_app ?w))" "aead_laws C"
    and rnd: "NonceSize * Suc n \<le> length (sin (l_rnd l))" "NonceSize * Suc n \<le> length (sin (w_rnd ?w))"
    and reg: "\<And>cmd. gm_get (srv_handlers srv) (fst (note_request cmd)) = Some (HandlerFunc (notes_handler (fst (note_request cmd))))"
    using assms(1) by (auto simp: link_ready_def Let_def)
  note alive = touch_at_alive [OF w(1-3)] and pay = travels_payload [OF note_payload_travels [OF assms(2)]]
  have "ReqPayload (SrvReq (srv_request (w_heap ?w1 ! ?p) (req_recv ?req))) = note_payload cmd"
    by (simp add: srv_request_def req_recv_def pay(2))
  from touched_notes [OF w(4) assms(2,3) this, of "session_ctx c (w_heap ?w1 ! ?p) remote" ?p]
  obtain resp w2 where hd: "HandleHush (HandlerFunc (notes_handler ?op)) (session_ctx c (w_heap ?w1 ! ?p) remote)
      (srv_request (w_heap ?w1 ! ?p) (req_recv ?req)) ?w1 = (Ok (Some resp), w2)"
    and nr: "\<And>seq. note_response reply (resp_recv seq resp)" "notes_abs (w_app w2) = st" "gm_inv (notes_tab (w_app w2))"
    and eq: "w2 = (touch_at ?p ?w)\<lparr>w_app := w_app w2\<rparr>" and rp: "payload_ok (RespPayload resp)" "length (resp_plain resp) \<le> 500001"
    by (metis id_apply)
  have w2: "w_heap w2 = w_heap (touch_at ?p ?w)" "w_rnd w2 = w_rnd ?w" "w_sessions w2 = w_sessions ?w" "w_now w2 = w_now ?w"
    by (subst eq, simp add: touch_at_def)+
  have key: "key_ready C (Some k) (l_rnd l)" "key_ready C (Some k) (w_rnd w2)"
    using w(5) k(1) rnd by (simp_all add: key_ready_def w2(2))
  have size: "4 + length (req_plain ?req) + overhead (Some k) \<le> MaxFrameSize"
    "4 + length (resp_plain resp) + overhead (Some k) \<le> MaxFrameSize"
    using pay(3) rp(2) by (simp_all add: req_plain_def overhead_def MaxFrameSize_def)
  have keys: "skey (touch_at ?p ?w) ?p = Some k" "skey w2 ?p = Some k"
    using alive(2) k(2) by (simp_all add: w2(1) skey_def)
  have plain: "HandleHushStream (HandlerFunc (notes_handler ?op)) = None" by (simp add: HandlerFunc_def)
  obtain b out where rpc:
    "handleStream C srv id c ?p remote (?w, stream_of b) =
      (Ok (), (w2\<lparr>w_rnd := used_rnd (Some k) (w_rnd w2)\<rparr>, stream_Close ((stream_of [])\<lparr>sout := out\<rparr>)))"
    "doQUIC C now (Ok (stream_of out)) ?op (note_payload cmd) (?cl, l_rnd l, None) =
      (Ok (resp_recv (cseq ?cl + 1) resp), (called now sess ?cl, used_rnd (Some k) (l_rnd l),
        Some (stream_Close ((stream_of [])\<lparr>sout := b\<rparr>))))"
    "\<And>x. \<exists>r s. doQUIC C now (Ok (stream_of x)) ?op (note_payload cmd) (?cl, l_rnd l, None) =
      (r, (called now sess ?cl, used_rnd (Some k) (l_rnd l), Some s)) \<and> sout s = b"
    by (rule rpc_quic [where env = id and now = now and st = None,
          OF cl pay(1) key(1) refl size(1) w(2) keys(1) reg plain refl hd keys(2) rp(1) key(2) size(2)]) blast
  let ?l' = "l\<lparr>l_client := called now sess ?cl, l_rnd := used_rnd (Some k) (l_rnd l),
      l_world := w2\<lparr>w_rnd := used_rnd (Some k) (w_rnd w2)\<rparr>\<rparr>"
  have "link_Do C now srv c remote ?op (note_payload cmd) l = (Ok (resp_recv (cseq ?cl + 1) resp), ?l')"
    using rpc(3) [of "[]"] rpc(1,2) m by (auto simp: link_Do_def client_Do_def stream_Close_def)
  moreover have "link_ready C srv n ?l'"
    using reg cl m k w rnd nr(3) alive
    by (auto simp: link_ready_def Let_def called_def used_rnd_def w2 skey_def session_dead_def touch_at_def Touch_def)
  ultimately show ?thesis using nr(1,2) by (intro exI [of _ "resp_recv (cseq ?cl + 1) resp"] exI [of _ ?l']) simp
qed

interpretation quic_notes: notes_service "link_api C now parse tcpDial quicDial srv cfg c remote"
  "\<lambda>l. notes_abs (w_app (l_world l))" "link_ready C srv"
proof
  fix n l cmd reply st
  assume "link_ready C srv (Suc n) l" "modest cmd (notes_abs (w_app (l_world l)))"
    "note_spec cmd (notes_abs (w_app (l_world l))) = (reply, st)"
  from link_call [OF this] show "\<exists>resp s'. api_Do (link_api C now parse tcpDial quicDial srv cfg c remote)
      (fst (note_request cmd)) (note_payload cmd) l = (Ok resp, s') \<and>
    note_response reply resp \<and> notes_abs (w_app (l_world s')) = st \<and> link_ready C srv n s'"
    by (simp add: link_api_def)
qed

section \<open>Connecting\<close>

lemma Dial_quic:
  assumes "quicDial (resolveHushAddr parse a) (Some cfg) = Ok ()" "GenerateKeyPair C rnd = (Ok priv, rnd')"
    and "NegotiateClient C now (Some key) priv s = (Ok sess, s')"
  shows "Dial C now parse tcpDial quicDial (Ok s) a (Some key) [client_WithTLSConfig (Some cfg)] rnd =
    (Ok ((new_client (Some key) (resolveHushAddr parse a) TransportQUIC)\<lparr>ctlsConf := Some cfg, qconn := Some False,
       csess := Some sess, dialed := True\<rparr>), rnd')"
  using assms
  by (simp add: Dial_def client_dial_def dialQUIC_def new_client_def client_WithTLSConfig_def Let_def)

lemma establish_Ok:
  assumes "NegotiateServer C (w_now w) (serverPriv srv) (keyStore srv) nextSessionID (w_nextID w, s) = (Ok sess, (n, s'))"
  shows "establish C srv (w, s) = (Ok (length (w_heap w)),
    (w\<lparr>w_nextID := n, w_heap := w_heap w @ [sess],
       w_sessions := ss_Set (w_heap w @ [sess]) (length (w_heap w)) (w_sessions w)\<rparr>, s'))"
  using assms by (simp add: establish_def alloc_def Let_def)

text \<open>The handshake makes a link ready, with the next session identifier of the server.\<close>

lemma link_Dial_ready:
  assumes "dh_laws C" "hkdf_laws C" "aead_laws C" "GenerateKeyPair C (l_rnd l) = (Ok priv, rnd)"
    and "key_accepted (Some key) (keyStore srv)" "x25519_ECDH C priv (x25519_PublicKey C (serverPriv srv)) \<noteq> None"
    and "quicDial (resolveHushAddr parse a) (Some cfg) = Ok ()"
    and "\<And>cmd. gm_get (srv_handlers srv) (fst (note_request cmd)) =
      Some (HandlerFunc (notes_handler (fst (note_request cmd))))"
    and "NonceSize * n \<le> length (sin rnd)" "NonceSize * n \<le> length (sin (w_rnd (l_world l)))"
    and "0 \<le> IdleTimeout (ss_config (w_sessions (l_world l)))" "0 \<le> MaxLifetime (ss_config (w_sessions (l_world l)))"
    and "gm_inv (notes_tab (w_app (l_world l)))"
  shows "\<exists>l'. link_Dial C now parse tcpDial quicDial srv cfg a key l = (Ok (), l') \<and> link_ready C srv n l' \<and>
    w_app (l_world l') = w_app (l_world l) \<and> client_SessionID (l_client l') = w_nextID (l_world l) + 1"
proof -
  let ?w = "l_world l" and ?hello = "client_hello (Some key) (x25519_PublicKey C priv)"
  let ?i = "w_nextID (l_world l) + 1"
  obtain k where k: "length k = 32"
    and srv: "\<And>s rest i. sin s = ?hello @ rest \<Longrightarrow> \<not> sclosed s \<Longrightarrow> sroom s = None \<Longrightarrow>
       NegotiateServer C (w_now ?w) (serverPriv srv) (keyStore srv) nextSessionID (i, s) =
         (Ok (NewSession (w_now ?w) (fst (nextSessionID i)) (client_key_id (Some key)) (Some k)),
          (snd (nextSessionID i), s\<lparr>sin := rest,
             sout := sout s @ x25519_PublicKey C (serverPriv srv) @ put_be 8 (fst (nextSessionID i))\<rparr>))"
    and cli: "\<And>s rest i. sin s = (x25519_PublicKey C (serverPriv srv) @ put_be 8 i) @ rest \<Longrightarrow> \<not> sclosed s \<Longrightarrow>
       sroom s = None \<Longrightarrow> NegotiateClient C now (Some key) priv s =
         (Ok (NewSession now i (client_key_id (Some key)) (Some k)), s\<lparr>sin := rest, sout := sout s @ ?hello\<rparr>)"
    by (rule handshake_runs [OF assms(1,2,5,6), of "w_now ?w" nextSessionID now]) blast
  let ?resp = "x25519_PublicKey C (serverPriv srv) @ put_be 8 ?i"
  have sent: "sout (snd (NegotiateClient C now (Some key) priv (stream_of []))) = ?hello"
    by (simp add: NegotiateClient_def stream_Write_def stream_of_def ReadFull_def PubKeySize_def)
  let ?ssess = "NewSession (w_now ?w) ?i (client_key_id (Some key)) (Some k)"
  have est: "establish C srv (?w, stream_of ?hello) = (Ok (length (w_heap ?w)),
    (?w\<lparr>w_nextID := ?i, w_heap := w_heap ?w @ [?ssess],
       w_sessions := ss_Set (w_heap ?w @ [?ssess]) (length (w_heap ?w)) (w_sessions ?w)\<rparr>, (stream_of [])\<lparr>sout := ?resp\<rparr>))"
    using srv [of "stream_of ?hello" "[]" "w_nextID ?w"]
    by (intro establish_Ok) (simp add: nextSessionID_def stream_of_simps)
  have neg: "NegotiateClient C now (Some key) priv (stream_of ?resp) =
      (Ok (NewSession now ?i (client_key_id (Some key)) (Some k)), (stream_of [])\<lparr>sout := ?hello\<rparr>)"
    using cli [of "stream_of ?resp" ?i "[]"] by (simp add: stream_of_simps)
  let ?cl = "(new_client (Some key) (resolveHushAddr parse a) TransportQUIC)\<lparr>ctlsConf := Some cfg, qconn := Some False,
       csess := Some (NewSession now ?i (client_key_id (Some key)) (Some k)), dialed := True\<rparr>"
  note dial = Dial_quic [where quicDial = quicDial and parse = parse and a = a and cfg = cfg and tcpDial = tcpDial,
      OF assms(7,4) neg]
  let ?l' = "l\<lparr>l_client := ?cl, l_rnd := rnd,
      l_world := ?w\<lparr>w_nextID := ?i, w_heap := w_heap ?w @ [?ssess],
        w_sessions := ss_Set (w_heap ?w @ [?ssess]) (length (w_heap ?w)) (w_sessions ?w)\<rparr>,
      l_sess := length (w_heap ?w)\<rparr>"
  have "link_Dial C now parse tcpDial quicDial srv cfg a key l = (Ok (), ?l')"
    by (simp add: link_Dial_def assms(4) sent est dial)
  moreover have "link_ready C srv n ?l'"
    using assms(3,8-13) k
    by (auto simp: link_ready_def new_client_def NewSession_def aes_key_ok_def skey_def session_dead_def
        IsExpired_def IsIdleDead_def ss_Set_def time_since_def)
  ultimately show ?thesis
    by (intro exI [of _ ?l']) (simp add: client_SessionID_def NewSession_def)
qed

section \<open>The server that prints its key\<close>

lemma example_server_Ok:
  assumes "example_server C cert lg w = (Ok (key, srv), w0)"
  shows "key_accepted (Some key) (keyStore srv)" "middlewares srv = []"
    "0 \<le> IdleTimeout (ss_config (w_sessions w0))" "0 \<le> MaxLifetime (ss_config (w_sessions w0))"
    "w_nextID w0 = 0" "w_app w0 = w_app w"
proof -
  obtain rnd conf where g: "GenerateAPIKey (w_rnd w) = (Ok key, rnd)"
    and n: "NewServer C (Some (MapKeyStore_Get (gm_set (KeyID key) (Some (Secret key)) [])))
        [WithTLSConfig (Some conf), WithLogger (Some lg)] (w\<lparr>w_rnd := rnd\<rparr>) = (Ok srv, w0)"
    using assms
    by (auto simp: example_server_def Let_def sbind_eq_Ok_iff swrap_eq_Ok_iff split: prod.splits result.splits option.splits)
  note l = GenerateAPIKey_Ok [OF g]
  obtain priv rnd' where p: "GenerateKeyPair C rnd = (Ok priv, rnd')"
    using n by (auto simp: NewServer_def Let_def split: prod.splits result.splits)
  have s: "srv = \<lparr>srv_handlers = [], middlewares = [], streamMiddlewares = [],
      keyStore = Some (MapKeyStore_Get (gm_set (KeyID key) (Some (Secret key)) [])), serverPriv = priv, tlsConf = Some conf,
      mediaURL = None, sessionCfg = fillDefaults zero_config, srv_logger = Some lg\<rparr>"
    and w: "w0 = w\<lparr>w_rnd := rnd', w_sessions := NewSessionStore zero_config, w_nextID := 0, w_media := None\<rparr>"
    using n p by (auto simp: NewServer_def WithTLSConfig_def WithLogger_def Let_def NewSessionStore_def ss_Config_def)
  show "key_accepted (Some key) (keyStore srv)" using generated_accepted l s by simp
  show "middlewares srv = []" "w_nextID w0 = 0" "w_app w0 = w_app w" by (simp_all add: s w)
  show "0 \<le> IdleTimeout (ss_config (w_sessions w0))" "0 \<le> MaxLifetime (ss_config (w_sessions w0))"
    using fillDefaults_pos [of zero_config] by (simp_all add: w NewSessionStore_def)
qed

lemma crud_lines_key:
  assumes "example_listen N port script (crud_banner key) srv op = (sv, lines, op')"
    and "KeyIDLine kid \<in> set lines" "KeySecretLine hx \<in> set lines"
  shows "kid = KeyID key" "hx = hex_bytes (Secret key)"
proof -
  have "lines = [] \<or> (\<exists>p. lines = crud_banner key p)"
    using assms(1) by (auto simp: example_listen_def split: prod.splits result.splits serving.splits)
  with assms(2,3) show "kid = KeyID key" "hx = hex_bytes (Secret key)" by (auto simp: crud_banner_def)
qed

lemma with_client_ok:
  assumes "api_Dial A (''127.0.0.1:'' @ port) \<lparr>KeyID = kid, Secret = secret\<rparr> s = (Ok (), s1)"
    and "body (s1, out) = (Ok (), (s2, out'))"
  shows "with_client A kid (hex_bytes secret) port body (s, out) = (Ok (), (api_Close A s2, out'))"
  using assms by (simp add: with_client_def hex_DecodeString_hex_bytes on_client_def)

text \<open>
  C3. The notes example works as a whole. Start its server with a certificate, so that it prints a
  key identifier, a secret and a port; start its client with them, over a network that delivers,
  and let the cryptography obey its laws and both random sources hold a nonce for each call. Then
  the handshake succeeds with the first session identifier; every call is encrypted, framed,
  decoded, dispatched and answered; and the client prints exactly what it should: three notes
  created under 1, 2 and 3, all three listed, the first one updated and read back, the third
  deleted, and the two that remain listed, in whatever order the server's map gives them. The
  server is left with those two notes.
\<close>

theorem notes_example_works:
  assumes "aead_laws C" and "dh_laws C" and "hkdf_laws C"
    and "crud_runServer C cert stderr N port script op w = (Ok (srv, sv, lines, op'), w0)" and "w_app w = NoNotes"
    and "KeyIDLine kid \<in> set lines" and "KeySecretLine hx \<in> set lines"
    and "l_world l = w0" and "GenerateKeyPair C (l_rnd l) = (Ok cpriv, rnd)"
    and "x25519_ECDH C cpriv (x25519_PublicKey C (serverPriv srv)) \<noteq> None"
    and "quicDial (''127.0.0.1:'' @ p) (Some cfg) = Ok ()"
    and "8 * NonceSize \<le> length (sin rnd)" and "8 * NonceSize \<le> length (sin (w_rnd w0))"
  shows "\<exists>l' es1 es2. crud_runClient (link_api C now parse tcpDial quicDial srv cfg ctx remote) kid hx p (l, []) =
      (Ok (), (l', crud_output 1 es1 es2)) \<and> first_list es1 \<and> second_list es2 \<and>
    gm_get (notes_tab (w_app (l_world l'))) = [1 \<mapsto> ''buy milk and eggs'', 2 \<mapsto> ''call mom'']"
proof -
  let ?A = "link_api C now parse tcpDial quicDial srv cfg ctx remote"
  obtain key srv0 where es: "example_server C cert (NewLogger stderr ''crud'') w = (Ok (key, srv0), w0)"
    and srv: "srv = notes_routes srv0" and el: "example_listen N port script (crud_banner key) srv op = (sv, lines, op')"
    using assms(4) by (auto simp: crud_runServer_def sbind_eq_Ok_iff Let_def)
  note start = example_server_Ok [OF es] and lns = crud_lines_key [OF el assms(6,7)]
  have reg: "gm_get (srv_handlers srv) (fst (note_request cmd)) = Some (HandlerFunc (notes_handler (fst (note_request cmd))))"
    for cmd unfolding srv by (rule notes_routed [OF prod.collapse [symmetric] start(2)])
  have ks: "keyStore srv = keyStore srv0" by (simp add: srv notes_routes_def HandleFunc_def)
  have app: "w_app (l_world l) = NoNotes" using start(6) assms(5,8) by simp
  have dial: "quicDial (resolveHushAddr parse (''127.0.0.1:'' @ p)) (Some cfg) = Ok ()"
    using assms(11) by (simp add: resolveHushAddr_plain)
  obtain l1 where l1: "link_Dial C now parse tcpDial quicDial srv cfg (''127.0.0.1:'' @ p) key l = (Ok (), l1)"
    "link_ready C srv 8 l1" "w_app (l_world l1) = NoNotes" "client_SessionID (l_client l1) = 1"
    using link_Dial_ready [where quicDial = quicDial and parse = parse and a = "''127.0.0.1:'' @ p" and cfg = cfg and n = 8
        and now = now and tcpDial = tcpDial, OF assms(2,3,1,9) start(1) [folded ks] assms(10) dial reg]
      assms(8,12,13) start(3-5) app by (auto simp: NoNotes_def gm_inv_def mult.commute)
  have "notes_abs (w_app (l_world l1)) = (Map.empty, 1)"
    by (simp add: l1(3) NoNotes_def notes_abs_def gm_get_def fun_eq_iff)
  from quic_notes.demo_body [OF l1(2) this, of now parse tcpDial quicDial cfg ctx remote "[]"]
  obtain es1 es2 l2 where b: "crud_body ?A (l1, []) = (Ok (), (l2, crud_output 1 es1 es2))" "first_list es1" "second_list es2"
    "notes_abs (w_app (l_world l2)) = (tab5, 4)"
    using l1(4) by (auto simp: link_api_def)
  have "api_Dial ?A (''127.0.0.1:'' @ p) \<lparr>KeyID = kid, Secret = Secret key\<rparr> l = (Ok (), l1)"
    using l1(1) by (cases key) (simp add: link_api_def lns(1))
  from with_client_ok [where body = "crud_body ?A", OF this b(1)]
  have "crud_runClient ?A kid hx p (l, []) = (Ok (), (api_Close ?A l2, crud_output 1 es1 es2))"
    by (simp add: crud_runClient_def lns(2))
  moreover have "gm_get (notes_tab (w_app (l_world (api_Close ?A l2)))) = [1 \<mapsto> ''buy milk and eggs'', 2 \<mapsto> ''call mom'']"
    using b(4) by (simp add: link_api_def notes_abs_def fun_eq_iff)
  ultimately show ?thesis using b(2,3) by blast
qed

definition notes_world :: "Notes world" where
  "notes_world = (sample_world NoNotes)\<lparr>w_rnd := stream_of (replicate 200 9)\<rparr>"

definition notes_link :: "Notes world \<Rightarrow> Notes link" where
  "notes_link w = \<lparr>l_client = new_client None [] TransportQUIC, l_rnd = stream_of (replicate 200 5), l_world = w, l_sess = 0\<rparr>"

lemma example_server_sample:
  "example_server sample_crypto (Some tls) lg notes_world =
     (Ok (\<lparr>KeyID = hex_bytes (replicate 8 9), Secret = replicate 32 9\<rparr>,
          \<lparr>srv_handlers = [], middlewares = [], streamMiddlewares = [],
            keyStore = Some (MapKeyStore_Get (gm_set (hex_bytes (replicate 8 9)) (Some (replicate 32 9)) [])),
            serverPriv = replicate 32 9, tlsConf = Some tls, mediaURL = None, sessionCfg = fillDefaults zero_config,
            srv_logger = Some lg\<rparr>),
      notes_world\<lparr>w_rnd := stream_of (replicate 128 9), w_sessions := NewSessionStore zero_config, w_nextID := 0,
        w_media := None\<rparr>)"
  by (simp add: example_server_def GenerateAPIKey_def RandomBytes_def NewServer_def GenerateKeyPair_def sample_crypto_def
      ReadFull_def notes_world_def stream_of_def WithTLSConfig_def WithLogger_def NewSessionStore_def ss_Config_def Let_def)

theorem notes_example_works_witness:
  "\<exists>srv sv lines op' w0 kid hx l' es1 es2.
     crud_runServer sample_crypto (Some \<lparr>NextProtos = [], TLSRest = 1\<rparr>) (stream_of []) sample_network id
       (\<lambda>h. [] :: (unit accept \<times> bool) list) [] notes_world = (Ok (srv, sv, lines, op'), w0) \<and>
     KeyIDLine kid \<in> set lines \<and> KeySecretLine hx \<in> set lines \<and>
     crud_runClient (link_api sample_crypto 7 (\<lambda>a. None) (\<lambda>a c. Err EOF) (\<lambda>a c. Ok ()) srv empty_config [] ''addr'')
       kid hx ''2'' (notes_link w0, []) = (Ok (), (l', crud_output 1 es1 es2)) \<and> first_list es1 \<and> second_list es2"
proof -
  let ?tls = "\<lparr>NextProtos = [], TLSRest = 1\<rparr>" and ?sc = "\<lambda>h. [] :: (unit accept \<times> bool) list"
  let ?kid = "hex_bytes (replicate 8 9)" and ?hx = "hex_bytes (replicate 32 9)"
  let ?w0 = "notes_world\<lparr>w_rnd := stream_of (replicate 128 9), w_sessions := NewSessionStore zero_config, w_nextID := 0,
    w_media := None\<rparr>"
  obtain srv sv lines op' where run: "crud_runServer sample_crypto (Some ?tls) (stream_of []) sample_network id ?sc []
      notes_world = (Ok (srv, sv, lines, op'), ?w0)"
    and lns: "KeyIDLine ?kid \<in> set lines" "KeySecretLine ?hx \<in> set lines"
    by (simp add: crud_runServer_def example_server_sample Let_def example_listen_def sample_network_def
        notes_routes_def HandleFunc_def ListenAndServeOnConn_def listening_def acquire_def serve_accepted_def crud_banner_def)
  have app: "w_app notes_world = NoNotes" by (simp add: notes_world_def)
  have l: "l_world (notes_link ?w0) = ?w0" "GenerateKeyPair sample_crypto (l_rnd (notes_link ?w0)) =
      (Ok (replicate 32 5), stream_of (replicate 168 5))"
    by (simp_all add: notes_link_def GenerateKeyPair_def sample_crypto_def ReadFull_def stream_of_def)
  have e: "x25519_ECDH sample_crypto a b \<noteq> None" for a b by (simp add: sample_crypto_def)
  have r: "8 * NonceSize \<le> length (sin (stream_of (replicate 168 5)))" "8 * NonceSize \<le> length (sin (w_rnd ?w0))"
    by (simp_all add: NonceSize_def stream_of_simps)
  have q: "(\<lambda>a c. Ok () :: (io_err, unit) result) (''127.0.0.1:'' @ ''2'') (Some empty_config) = Ok ()" by simp
  from notes_example_works [where quicDial = "\<lambda>a c. Ok ()" and p = "''2''" and cfg = empty_config and now = 7
      and parse = "\<lambda>a. None" and tcpDial = "\<lambda>a c. Err EOF" and ctx = "[]" and remote = "''addr''",
      OF sample_crypto_laws run app lns l e q r]
  obtain l' es1 es2 where "crud_runClient (link_api sample_crypto 7 (\<lambda>a. None) (\<lambda>a c. Err EOF) (\<lambda>a c. Ok ()) srv
      empty_config [] ''addr'') ?kid ?hx ''2'' (notes_link ?w0, []) = (Ok (), (l', crud_output 1 es1 es2))"
    "first_list es1" "second_list es2" by blast
  with run lns show ?thesis by (intro exI conjI)
qed

end
