(* ===== verification/Spec2Isabelle.thy ===== *)
theory Spec2Isabelle
  imports Tlv_Agreement Frame_Wire Session_Negotiate Media_Tokens Rate_Limit Server_Listen Server_Conn Client_Calls
    Notes_Quic
begin

text \<open>
  \<^bold>\<open>Hush.\<close> A verification development of the Hush protocol library (Go, under
  \<^verbatim>\<open>src/\<close>): a request/response protocol with a typed binary payload format, encrypted frames,
  an authenticated session handshake, a server with middleware, rate limiting and media tokens,
  an event hub and a client, over QUIC or TLS on TCP.

  \<^bold>\<open>How the parts interact.\<close> A client dials a transport and runs the handshake
  (\<^verbatim>\<open>session/negotiate.go\<close>), which gives both sides a session identifier and a key. A call
  encodes an opcode and a TLV map (\<^verbatim>\<open>tlv\<close>), encrypts it (\<^verbatim>\<open>session/crypto.go\<close>) and frames it
  with a sequence number (\<^verbatim>\<open>frame\<close>). The server (\<^verbatim>\<open>server/server.go\<close>) files the session in its
  store (\<^verbatim>\<open>session/session.go\<close>), checks that it is alive, reads the request, finds the handler
  wrapped in middleware (\<^verbatim>\<open>server/handler.go\<close>, \<^verbatim>\<open>server/middleware.go\<close>, with the limiter of
  \<^verbatim>\<open>server/ratelimit.go\<close>), and writes the response. Media tokens (\<^verbatim>\<open>media/media.go\<close>) are bound
  to sessions of the store. Events published to a topic of the hub (\<^verbatim>\<open>server/stream.go\<close>) are pushed to
  the subscribers' streams. The transports (\<^verbatim>\<open>transport\<close>) dial and listen; log lines go through
  \<^verbatim>\<open>server/logger.go\<close>; the example servers (\<^verbatim>\<open>examples\<close>) are applications of all this.

  \<^bold>\<open>Theories and sources.\<close>

  \<^item> \<open>Hush_Prelude\<close>: Go's machine integers as words, results (value, error, panic), strings,
    hexadecimal and decimal notation, big-endian integers (locale \<open>wire_int\<close>, interpreted for
    16, 32 and 64 bits), varints, maps (locale \<open>keyed_store\<close>, interpreted for association
    lists), times and durations with saturation, and the locales \<open>step_system\<close> (invariants of
    reachable states; interpreted by the limiter's cleanup, the hub, the QUIC connection and the
    calls on a TCP client) and
    \<open>functional_refinement\<close> (interpreted by the notes server). \<open>Go_IO\<close>: byte streams with short reads, errors
    and bounded writers.
  \<^item> \<open>Tlv_Types\<close> (\<^verbatim>\<open>tlv/types.go\<close>): type codes, values with a dynamic content, accessors that
    panic on the wrong one, the ordered map (locale \<open>field_map\<close>). \<open>Tlv_Codec\<close>
    (\<^verbatim>\<open>tlv/types.go, encode.go, decode.go\<close>): the encoder and the decoders from slices and from
    streams. \<open>Tlv_Roundtrip\<close>: a declarative encoding \<open>enc\<close>, which the encoder refines, and
    round trips, stability, absence of panics and exact limits of the decoder. \<open>Tlv_Agreement\<close>:
    the two decoders agree.
  \<^item> \<open>Session_Crypto\<close> (\<^verbatim>\<open>session/crypto.go\<close>): encryption and key derivation over AES-GCM, X25519
    and HKDF, which are parameters (record \<open>crypto\<close>) with their documented laws
    \<open>aead_laws\<close>, \<open>dh_laws\<close>, \<open>hkdf_laws\<close>; \<open>sample_crypto\<close> shows that the laws can hold.
  \<^item> \<open>Frame_Wire\<close> (\<^verbatim>\<open>frame/frame.go, request.go, response.go\<close>): frames and messages; the
    locale \<open>sealed_message\<close> proves the round trip once for requests and responses.
  \<^item> \<open>Expiry\<close>: the locale \<open>expiring_table\<close>, interpreted by the session store and the token
    store. \<open>Session_Store\<close> (\<^verbatim>\<open>session/session.go\<close>): sessions in a heap shared by store and
    connections, and the store's life as a step relation. \<open>Session_Negotiate\<close>
    (\<^verbatim>\<open>session/negotiate.go\<close>): both sides of the handshake, API keys.
  \<^item> \<open>Media_Tokens\<close> (\<^verbatim>\<open>media/media.go\<close>): the token store and its events.
  \<^item> \<open>Rate_Limit\<close> (\<^verbatim>\<open>server/ratelimit.go\<close>): the limiter, refined against a specification that
    remembers everything, and the life of its cleanup goroutine as a step relation.
  \<^item> \<open>Server_Handlers\<close> (\<^verbatim>\<open>server/handler.go, middleware.go\<close>): the world that handlers act on,
    contexts, handlers, middleware; the locale \<open>gate\<close> for middleware that guards a handler.
    \<open>Server_Run\<close> (\<^verbatim>\<open>server/server.go\<close>): construction, registration, \<^verbatim>\<open>handleStream\<close>,
    \<^verbatim>\<open>handleTCPConnection\<close>, \<^verbatim>\<open>handleConnection\<close>. \<open>Server_Props\<close>: what they guarantee and what
    they do not. \<open>Server_Conn\<close>: a QUIC connection as a step relation \<open>conn_step\<close>, whose goroutines,
    accept loop, arriving input and end interleave; a goroutine waits until its request is there. \<open>Server_Listen\<close> (\<^verbatim>\<open>server/server.go\<close>): the listeners, their accept loop over a
    script of what \<^verbatim>\<open>Accept\<close> returns, and the collector.
  \<^item> \<open>Event_Hub\<close> (\<^verbatim>\<open>server/stream.go\<close>): hub, subscribers in a heap, handlers, and the step relation
    \<open>hub_step\<close> of everything that can interleave, with its invariant. \<open>Hub_Props\<close>: what the hub
    guarantees.
  \<^item> \<open>Transport\<close> (\<^verbatim>\<open>transport/dial.go, tcp.go\<close>): TLS configuration and sockets, with the network as a
    parameter. \<open>Logger\<close> (\<^verbatim>\<open>server/logger.go\<close>): levels, colours, log lines.
  \<^item> \<open>Client\<close>, \<open>Client_Props\<close> (\<^verbatim>\<open>client/client.go\<close>): dialling, requests, closing. \<open>Rpc_Calls\<close>: both
    sides of a call and the state they leave. \<open>Client_Calls\<close>: concurrent calls on a TCP client as a
    step relation \<open>tcp_step\<close> over the lock sections of \<^verbatim>\<open>doTCP\<close> and \<^verbatim>\<open>Close\<close>.
  \<^item> \<open>Example_Notes\<close>, \<open>Example_Chat\<close> (\<^verbatim>\<open>examples\<close>): the handlers of the example servers, the notes
    server refined against a finite map. \<open>Example_Main\<close>: their command lines, the start of the
    servers, and the client programs over an interface record \<open>client_api\<close>. \<open>Example_Demo\<close>: the
    locale \<open>notes_service\<close>, a service that answers like the specification, and what the
    demonstration client prints on it. \<open>Notes_Quic\<close>: the interpretation of that locale on the
    client library, the handshake, the encrypted frames and the server, so that the example works
    as a whole. This theory: the call from client to server and back, on QUIC and on TCP.

  \<^bold>\<open>State and effects.\<close> Operations take and return the state they touch: a stream, the random
  source, a store, or the world of the handlers. A Go function that returns an error is a
  function into \<open>result\<close> with the constructors \<open>Ok\<close>, \<open>Err\<close> and \<open>Panic\<close>; error values keep
  what the program or a reader of the message could tell apart. Mutexes make operations atomic,
  so one operation is one step; where the code releases a lock in between (\<^verbatim>\<open>Stop\<close> of the
  limiter, \<^verbatim>\<open>Publish\<close> of the hub, \<^verbatim>\<open>doTCP\<close> and \<^verbatim>\<open>Close\<close> of the client) the step relations have the parts as
  separate steps. The functions \<open>PublishHandler\<close>, which counts the subscribers after publishing, and \<open>doTCP\<close>
  put the parts together with nothing in between. A loop that waits for other
  goroutines takes a schedule: what they did before each turn, and which case was chosen. The clock is an argument, read once per operation.
  Application code (handlers, callbacks, key stores, session callbacks) is arbitrary: functions
  over which the theorems quantify.

  \<^bold>\<open>What the theorems show.\<close> The codec is exact: values round trip if and only if they keep
  within the decoder's limits, what is decoded is well formed, and nothing panics except the one
  64-bit overflow that is characterised exactly. Frames and messages round trip and are
  canonical and bounded. The handshake makes both sides agree, admits only anonymous clients and known
  keys, and sends nothing to a client it refuses. Session and token stores keep exactly what should be alive. The limiter
  never exceeds its limit in any window and grants everything else. A QUIC stream never
  takes the process down, however the goroutines of a connection interleave, and gets at most one frame
  if no streaming handler is involved; it is answered once its request has arrived, and a client that
  stops in the middle of a request keeps its goroutine waiting. The TCP loop ends without streaming
  handlers. Calls work on both transports, a whole example program works from the key the server
  prints to the last line of the client, and calls a TCP client starts after its connection was lost or closed are
  refused; calls that already waited are not, and may take another call's response. The hub is safe
  under every interleaving and delivers to exactly the right subscribers that have room, and a
  subscriber's handler that keeps up sends the events in order. Listeners serve every connection, failed dials release their sockets. Where the code
  falls short of its documentation the theorem says what it does: nesting limits, truncated
  sequences, unauthenticated sequence numbers, waiting calls on lost connections, truncated key identifiers, zero values in
  configurations, subscriptions that disturb each other, requests without payload, listeners that
  outlive their context, and the two ways a panic reaches the top of a TCP goroutine.

  \<^bold>\<open>Termination and bounds.\<close> All loops are total functions with a measure on the input, except
  the TCP loop, which is a \<open>partial_function\<close> into \<open>option\<close> because a streaming handler may do
  anything to its stream; that it returns is a theorem for servers without one. No fuel is
  used.

  \<^bold>\<open>Not modelled.\<close> What quic-go, \<^verbatim>\<open>crypto\<close>, \<^verbatim>\<open>net\<close> and \<^verbatim>\<open>net/http\<close> do inside, which are parameters; the
  calls of \<^verbatim>\<open>logf\<close> inside the server's handlers; timeouts and signals in the example programs, whose
  calls may fail at any time instead. What a program prints is kept as data, one constructor per
  format string. Sharing of slices between values is not tracked. A handler runs as one step of
  its goroutine. Ranging over a Go map takes the order of the model's table, on which no theorem
  depends.
\<close>

section \<open>A request from client to server and back\<close>

text \<open>
  C1. Remote calls work end to end. A client with an open QUIC connection calls \<^verbatim>\<open>Do\<close>; the bytes
  it writes are what the server's stream handler reads; the handler registered for the opcode
  runs on the request, its payload as the client gave it (timestamps cut to milliseconds); the
  bytes the server writes are what the client reads; and \<^verbatim>\<open>Do\<close> returns the handler's response
  under the client's next sequence number, with encryption as without.
\<close>

theorem rpc_end_to_end:
  assumes "dialed c" and "qconn c \<noteq> None" and "csess c = Some sess" and "Key sess = key"
    and "payload_ok payload" and "key_ready C key rnd"
    and "req = \<lparr>Opcode = op, ReqPayload = payload\<rparr>"
    and "4 + length (req_plain req) + overhead key \<le> MaxFrameSize"
    and "\<not> session_dead w p" and "skey (touch_at p w) p = key"
    and "gm_get (srv_handlers srv) op = Some h" and "HandleHushStream h = None"
    and "w1 = env (touch_at p w)"
    and "HandleHush h (session_ctx ctx (w_heap w1 ! p) remote) (srv_request (w_heap w1 ! p) (req_recv req)) w1 =
          (Ok (Some rsp), w2)"
    and "skey w2 p = key" and "payload_ok (RespPayload rsp)" and "key_ready C key (w_rnd w2)"
    and "4 + length (resp_plain rsp) + overhead key \<le> MaxFrameSize"
  shows "\<exists>b out w3 rnd'.
    handleStream C srv env ctx p remote (w, stream_of b) =
      (Ok (), (w3, stream_Close ((stream_of [])\<lparr>sout := out\<rparr>))) \<and>
    doQUIC C now (Ok (stream_of out)) op payload (c, rnd, st) =
      (Ok (resp_recv (cseq c + 1) rsp),
       (c\<lparr>csess := Some (sess\<lparr>LastUsed := now\<rparr>), cseq := cseq c + 1\<rparr>, rnd',
        Some (stream_Close ((stream_of [])\<lparr>sout := b\<rparr>))))"
  by (rule rpc_quic [where now = now and st = st and env = env, OF assms]) (auto simp: called_def)

theorem rpc_end_to_end_witness:
  "\<exists>b out w3 rnd' c'.
    handleStream sample_crypto
      (Handle 7 (HandlerFunc (\<lambda>c req w. (Ok (Some (NewResponse (ReqPayload (SrvReq req)))), w))) sample_server)
      (\<lambda>w. w) [] 0 ''addr'' (sample_world (), stream_of b) =
      (Ok (), (w3, stream_Close ((stream_of [])\<lparr>sout := out\<rparr>))) \<and>
    doQUIC sample_crypto 5 (Ok (stream_of out)) 7 None
      ((new_client None ''host:1'' TransportQUIC)\<lparr>qconn := Some False, csess := Some sample_session, dialed := True\<rparr>,
       stream_of [], None) =
      (Ok \<lparr>Status = StatusSuccess, RespPayload = None, Seq = 1\<rparr>,
       (c', rnd', Some (stream_Close ((stream_of [])\<lparr>sout := b\<rparr>))))"
proof -
  let ?h = "HandlerFunc (\<lambda>c req w. (Ok (Some (NewResponse (ReqPayload (SrvReq req)))), w)) :: unit handler"
  let ?c = "(new_client None ''host:1'' TransportQUIC)\<lparr>qconn := Some False, csess := Some sample_session, dialed := True\<rparr>"
  have r: "resp_recv (cseq ?c + 1) (NewResponse None) = \<lparr>Status = StatusSuccess, RespPayload = None, Seq = 1\<rparr>"
    by (simp add: resp_recv_def NewResponse_def new_client_def)
  have k: "Key sample_session = None" by (simp add: sample_session_def NewSession_def)
  have g: "gm_get (srv_handlers (Handle 7 ?h sample_server)) 7 = Some ?h"
    by (simp add: Handle_def sample_server_def gm_get_def gm_set_def)
  have p: "payload_ok None" "key_ready sample_crypto None x" for x
    by (simp_all add: payload_ok_def key_ready_def)
  have sz: "4 + length (req_plain \<lparr>Opcode = 7, ReqPayload = None\<rparr>) + overhead None \<le> MaxFrameSize"
      "4 + length (resp_plain (NewResponse None)) + overhead None \<le> MaxFrameSize"
    by (simp_all add: req_plain_def resp_plain_def NewResponse_def enc_payload_def overhead_def MaxFrameSize_def)
  have run: "HandleHush ?h (session_ctx [] (w_heap (touch_at 0 (sample_world ())) ! 0) ''addr'')
      (srv_request (w_heap (touch_at 0 (sample_world ())) ! 0) (req_recv \<lparr>Opcode = 7, ReqPayload = None\<rparr>))
      (touch_at 0 (sample_world ())) = (Ok (Some (NewResponse None)), touch_at 0 (sample_world ()))"
    by (simp add: HandlerFunc_def srv_request_def req_recv_def)
  have "dialed ?c" "qconn ?c \<noteq> None" "csess ?c = Some sample_session" by simp_all
  from rpc_end_to_end [where env = "\<lambda>w. w" and now = 5 and st = None, OF this k p refl sz(1) sample_live g _ refl run
      sample_live(2) _ p(2) sz(2)]
  show ?thesis unfolding r by (simp add: HandlerFunc_def NewResponse_def p) blast
qed

section \<open>Calls on a TCP connection\<close>

text \<open>
  C2. Calls work on a TCP connection too, one after the other. Client and server each have their
  end of the connection, \<open>t\<close> and \<open>s\<close>, in any state. The bytes \<^verbatim>\<open>doTCP\<close> writes, followed by whatever
  the client sends later, make one turn of the server's loop: the handler runs on the client's
  payload, the response is written, and exactly what was sent later is left for the next turn.
  The bytes written are what the client reads: \<^verbatim>\<open>doTCP\<close> returns the handler's response under its
  next sequence number and leaves the connection ready for the next call.
\<close>

theorem rpc_over_tcp:
  assumes "dialed c" and "csess c = Some sess" and "Key sess = key"
    and "\<not> sclosed t" and "sroom t = None" and "\<not> sclosed s" and "sroom s = None"
    and "payload_ok payload" and "key_ready C key rnd"
    and "req = \<lparr>Opcode = op, ReqPayload = payload\<rparr>"
    and "4 + length (req_plain req) + overhead key \<le> MaxFrameSize"
    and "\<not> fin w" and "\<not> session_dead w p" and "skey (touch_at p w) p = key"
    and "gm_get (srv_handlers srv) op = Some h" and "HandleHushStream h = None"
    and "w1 = env (touch_at p w)" and "c1 = session_ctx ctx (w_heap w1 ! p) remote"
    and "HandleHush h c1 (srv_request (w_heap w1 ! p) (req_recv req)) w1 = (Ok (Some rsp), w2)"
    and "skey w2 p = key" and "payload_ok (RespPayload rsp)" and "key_ready C key (w_rnd w2)"
    and "4 + length (resp_plain rsp) + overhead key \<le> MaxFrameSize"
  shows "\<exists>b out w3 rnd'.
    tcp_turn C srv env fin sc p remote ctx (w, s\<lparr>sin := b @ later\<rparr>) =
      Inr (c1, (w3, s\<lparr>sin := later, sout := sout s @ out\<rparr>)) \<and>
    doTCP C now op payload (c\<lparr>tcpConn := Some (t\<lparr>sin := out @ rest\<rparr>)\<rparr>, rnd) =
      (Ok (resp_recv (cseq c + 1) rsp),
       (c\<lparr>csess := Some (sess\<lparr>LastUsed := now\<rparr>), cseq := cseq c + 1,
          tcpConn := Some (t\<lparr>sin := rest, sout := sout t @ b\<rparr>)\<rparr>, rnd'))"
proof -
  let ?seq = "cseq c + 1"
  have pok: "payload_ok (ReqPayload req)" using assms(8,10) by simp
  obtain b where wr: "\<And>s. \<not> sclosed s \<Longrightarrow> sroom s = None \<Longrightarrow>
      WriteRequest C key ?seq req (rnd, s) = (Ok (), (used_rnd key rnd, s\<lparr>sout := sout s @ b\<rparr>))"
    and rd: "\<And>r rest. sin r = b @ rest \<Longrightarrow> ReadRequest C key r = (Ok (req_recv req, ?seq), r\<lparr>sin := rest\<rparr>)"
    by (rule WriteRequest_reads [OF pok assms(9,11)]) blast
  let ?s = "s\<lparr>sin := b @ later\<rparr>"
  have rd1: "ReadRequest C key ?s = (Ok (req_recv req, ?seq), s\<lparr>sin := later\<rparr>)"
    using rd [of ?s later] by simp
  have reg: "gm_get (srv_handlers srv) (Opcode (req_recv req)) = Some h"
    using assms(10,15) by (simp add: req_recv_def)
  have "\<not> sclosed ?s" "sroom ?s = None" using assms(6,7) by simp_all
  from tcp_turn_call [where env = env and fin = fin and sc = sc, OF assms(12-14) rd1 this reg assms(16-23)]
  obtain out w3 where out: "tcp_turn C srv env fin sc p remote ctx (w, ?s) =
      Inr (c1, (w3, s\<lparr>sin := later, sout := sout s @ out\<rparr>))"
    "\<forall>r rest. sin r = out @ rest \<longrightarrow> ReadResponse C key r = (Ok (resp_recv ?seq rsp), r\<lparr>sin := rest\<rparr>)"
    by auto
  have "exchange C key ?seq req (rnd, t\<lparr>sin := out @ rest\<rparr>) =
      (Ok (resp_recv ?seq rsp), (used_rnd key rnd, t\<lparr>sin := rest, sout := sout t @ b\<rparr>))"
    using wr [of "t\<lparr>sin := out @ rest\<rparr>"] assms(4,5) out(2) by (simp add: exchange_def)
  then have "doTCP C now op payload (c\<lparr>tcpConn := Some (t\<lparr>sin := out @ rest\<rparr>)\<rparr>, rnd) =
      (Ok (resp_recv ?seq rsp),
       (c\<lparr>csess := Some (sess\<lparr>LastUsed := now\<rparr>), cseq := ?seq,
          tcpConn := Some (t\<lparr>sin := rest, sout := sout t @ b\<rparr>)\<rparr>, used_rnd key rnd))"
    using assms(1-3,10) by (simp add: doTCP_defs touch_session_def session_key_of_def Let_def)
  with out(1) show ?thesis by blast
qed

theorem rpc_over_tcp_witness:
  "\<exists>b out c1 w3 rnd' c'.
    tcp_turn sample_crypto
      (Handle 7 (HandlerFunc (\<lambda>c req w. (Ok (Some (NewResponse (ReqPayload (SrvReq req)))), w))) sample_server)
      (\<lambda>w. w) (\<lambda>w. False) [] 0 ''addr'' [] (sample_world (), (stream_of [])\<lparr>sin := b @ [1, 2]\<rparr>) =
      Inr (c1, (w3, (stream_of [])\<lparr>sin := [1, 2], sout := out\<rparr>)) \<and>
    doTCP sample_crypto 5 7 None
      ((new_client None ''host:1'' TransportTCP)\<lparr>csess := Some sample_session, dialed := True,
         tcpConn := Some ((stream_of [])\<lparr>sin := out @ []\<rparr>)\<rparr>, stream_of []) =
      (Ok \<lparr>Status = StatusSuccess, RespPayload = None, Seq = 1\<rparr>, (c', rnd'))"
proof -
  let ?h = "HandlerFunc (\<lambda>c req w. (Ok (Some (NewResponse (ReqPayload (SrvReq req)))), w)) :: unit handler"
  let ?c = "(new_client None ''host:1'' TransportTCP)\<lparr>csess := Some sample_session, dialed := True\<rparr>"
  have r: "resp_recv (cseq ?c + 1) (NewResponse None) = \<lparr>Status = StatusSuccess, RespPayload = None, Seq = 1\<rparr>"
    by (simp add: resp_recv_def NewResponse_def new_client_def)
  have k: "Key sample_session = None" by (simp add: sample_session_def NewSession_def)
  have g: "gm_get (srv_handlers (Handle 7 ?h sample_server)) 7 = Some ?h"
    by (simp add: Handle_def sample_server_def gm_get_def gm_set_def)
  have p: "payload_ok None" "payload_ok (RespPayload (NewResponse None))" "key_ready sample_crypto None x" for x
    by (simp_all add: payload_ok_def key_ready_def NewResponse_def)
  have sz: "4 + length (req_plain \<lparr>Opcode = 7, ReqPayload = None\<rparr>) + overhead None \<le> MaxFrameSize"
      "4 + length (resp_plain (NewResponse None)) + overhead None \<le> MaxFrameSize"
    by (simp_all add: req_plain_def resp_plain_def NewResponse_def enc_payload_def overhead_def MaxFrameSize_def)
  have run: "HandleHush ?h (session_ctx [] (w_heap (touch_at 0 (sample_world ())) ! 0) ''addr'')
      (srv_request (w_heap (touch_at 0 (sample_world ())) ! 0) (req_recv \<lparr>Opcode = 7, ReqPayload = None\<rparr>))
      (touch_at 0 (sample_world ())) = (Ok (Some (NewResponse None)), touch_at 0 (sample_world ()))"
    by (simp add: HandlerFunc_def srv_request_def req_recv_def)
  have c: "dialed ?c" "csess ?c = Some sample_session" by simp_all
  have o: "\<not> sclosed (stream_of [])" "sroom (stream_of []) = None" by (simp_all add: stream_of_simps)
  have st: "HandleHushStream ?h = None" by (simp add: HandlerFunc_def)
  have fin: "\<not> (\<lambda>w :: unit world. False) (sample_world ())" by simp
  from rpc_over_tcp [where env = "\<lambda>w. w" and now = 5 and fin = "\<lambda>w. False" and later = "[1, 2]" and rest = "[]"
      and sc = "[]", OF c k o o p(1,3) refl sz(1) fin sample_live g st refl refl run sample_live(2) p(2,3) sz(2)]
  obtain b out w3 rnd' where
    "tcp_turn sample_crypto (Handle 7 ?h sample_server) (\<lambda>w. w) (\<lambda>w. False) [] 0 ''addr'' []
        (sample_world (), (stream_of [])\<lparr>sin := b @ [1, 2]\<rparr>) =
      Inr (session_ctx [] (w_heap (touch_at 0 (sample_world ())) ! 0) ''addr'',
        (w3, (stream_of [])\<lparr>sin := [1, 2], sout := sout (stream_of []) @ out\<rparr>))"
    "\<exists>c'. doTCP sample_crypto 5 7 None (?c\<lparr>tcpConn := Some ((stream_of [])\<lparr>sin := out @ []\<rparr>)\<rparr>, stream_of []) =
      (Ok \<lparr>Status = StatusSuccess, RespPayload = None, Seq = 1\<rparr>, (c', rnd'))"
    unfolding r by blast
  then show ?thesis by (simp add: stream_of_simps(2)) blast
qed

end
